(* ===== verification/Unit_Prelude.thy ===== *)
theory Unit_Prelude
  imports Main "HOL-Library.Word"
begin

text \<open>
  Shared vocabulary of the development: the machine integers of the C++ sources as words,
  bytes and strings, the error monad in which exceptions are values, hexadecimal digits as
  the standard stream operators print them, and the generic list lemmas that the component
  theories use.
\<close>

unbundle bit_operations_syntax

section \<open>Types\<close>

type_synonym u8 = "8 word"
type_synonym u16 = "16 word"
type_synonym u32 = "32 word"
type_synonym u64 = "64 word"
type_synonym u256 = "256 word"
type_synonym bytes = "u8 list"

named_theorems stream_simps \<open>unfolding rules of the streaming hash states\<close>
named_theorems res_simps \<open>rewriting of computations in the error monad\<close>
named_theorems hex_simps \<open>rewriting of hexadecimal digits and pairs\<close>

section \<open>Exceptions as values\<close>

definition res_bind :: "'e + 'a \<Rightarrow> ('a \<Rightarrow> 'e + 'b) \<Rightarrow> 'e + 'b" where
  "res_bind m f = (case m of Inl e \<Rightarrow> Inl e | Inr x \<Rightarrow> f x)"

lemma res_bind_simps [simp, res_simps]:
  "res_bind (Inl e) f = Inl e"
  "res_bind (Inr x) f = f x"
  by (simp_all add: res_bind_def)

lemma res_bind_Inr_iff [res_simps]:
  "res_bind m f = Inr y \<longleftrightarrow> (\<exists>x. m = Inr x \<and> f x = Inr y)"
  by (cases m) auto

lemma res_bind_Inl_iff [res_simps]:
  "res_bind m f = Inl e \<longleftrightarrow> m = Inl e \<or> (\<exists>x. m = Inr x \<and> f x = Inl e)"
  by (cases m) auto

lemma res_bind_assoc: "res_bind (res_bind m f) g = res_bind m (\<lambda>x. res_bind (f x) g)"
  by (cases m) auto

definition res_guard :: "'e \<Rightarrow> bool \<Rightarrow> 'e + unit" where
  "res_guard e b = (if b then Inr () else Inl e)"

lemma res_guard_simps [simp, res_simps]:
  "res_guard e True = Inr ()"
  "res_guard e False = Inl e"
  by (simp_all add: res_guard_def)

section \<open>Characters and bytes\<close>

definition byte_of_char :: "char \<Rightarrow> u8" where
  "byte_of_char c = of_nat (of_char c)"

definition char_of_byte :: "u8 \<Rightarrow> char" where
  "char_of_byte b = char_of (unat b)"

lemma of_char_less [simp]: "(of_char c :: nat) < 256"
  using nat_of_char_less_256 by simp

lemma unat_less_256 [simp]: "unat (b :: u8) < 256"
  using unsigned_less [of b] by simp

lemma char_of_byte_of_char [simp]: "char_of_byte (byte_of_char c) = c"
  by (simp add: char_of_byte_def byte_of_char_def unat_of_nat)

lemma byte_of_char_of_byte [simp]: "byte_of_char (char_of_byte b) = b"
proof -
  have "unat b < 256" by (rule unat_less_256)
  then show ?thesis by (simp add: char_of_byte_def byte_of_char_def)
qed

definition bytes_of_string :: "string \<Rightarrow> bytes" where
  "bytes_of_string s = map byte_of_char s"

definition string_of_bytes :: "bytes \<Rightarrow> string" where
  "string_of_bytes bs = map char_of_byte bs"

lemma string_of_bytes_inverse [simp]: "bytes_of_string (string_of_bytes bs) = bs"
  by (simp add: bytes_of_string_def string_of_bytes_def comp_def)

lemma bytes_of_string_inverse [simp]: "string_of_bytes (bytes_of_string s) = s"
  by (simp add: bytes_of_string_def string_of_bytes_def comp_def)

lemma length_bytes_of_string [simp]: "length (bytes_of_string s) = length s"
  by (simp add: bytes_of_string_def)

section \<open>32-bit words\<close>

lemma unat_of_nat_inverse: "of_nat (unat (x :: u32)) = x"
  by simp

lemma unat_of_nat_small: "n < 2 ^ 32 \<Longrightarrow> unat (of_nat n :: u32) = n"
  by (simp add: unat_of_nat)

section \<open>Lists read in blocks\<close>

fun pairs_of :: "'a list \<Rightarrow> 'a list list" where
  "pairs_of [] = []"
| "pairs_of [x] = [[x]]"
| "pairs_of (x # y # zs) = [x, y] # pairs_of zs"

lemma pairs_of_append_even:
  "even (length xs) \<Longrightarrow> pairs_of (xs @ ys) = pairs_of xs @ pairs_of ys"
  by (induction xs rule: pairs_of.induct) auto

lemma concat_pairs_of [simp]: "concat (pairs_of xs) = xs"
  by (induction xs rule: pairs_of.induct) auto

lemma pairs_of_length_le: "p \<in> set (pairs_of xs) \<Longrightarrow> length p \<le> 2"
  by (induction xs rule: pairs_of.induct) auto

lemma pairs_of_nonempty: "p \<in> set (pairs_of xs) \<Longrightarrow> p \<noteq> []"
  by (induction xs rule: pairs_of.induct) auto

lemma length_pairs_of: "length (pairs_of xs) = (length xs + 1) div 2"
  by (induction xs rule: pairs_of.induct) auto

lemma pairs_of_map: "pairs_of (map f xs) = map (map f) (pairs_of xs)"
  by (induction xs rule: pairs_of.induct) auto

lemma those_Some_map: "those (map (\<lambda>x. Some (f x)) xs) = Some (map f xs)"
  by (induction xs) auto

lemma those_map_total:
  assumes "\<And>x. x \<in> set xs \<Longrightarrow> g x = Some (f x)"
  shows "those (map g xs) = Some (map f xs)"
  using assms by (induction xs) auto

lemma list_of_length_25:
  assumes "length xs = 25"
  obtains a0 a1 a2 a3 a4 a5 a6 a7 a8 a9 a10 a11 a12 a13 a14 a15 a16 a17 a18 a19 a20 a21 a22 a23 a24
  where "xs = [a0, a1, a2, a3, a4, a5, a6, a7, a8, a9, a10, a11, a12, a13, a14, a15, a16, a17,
    a18, a19, a20, a21, a22, a23, a24]"
  using assms by (auto simp: numeral_eq_Suc length_Suc_conv)

section \<open>Hexadecimal digits of the standard streams\<close>

definition hex_digit :: "nat \<Rightarrow> char" where
  "hex_digit d = ''0123456789abcdef'' ! d"

definition digit_value :: "char \<Rightarrow> nat option" where
  "digit_value c = (let n = of_char c in
     if 48 \<le> n \<and> n \<le> 57 then Some (n - 48)
     else if 65 \<le> n \<and> n \<le> 70 then Some (n - 55)
     else if 97 \<le> n \<and> n \<le> 102 then Some (n - 87)
     else None)"

text \<open>
  What \<open>stream << std::hex << v\<close> prints for an unsigned value: lower-case digits, no prefix,
  no leading zeros, and a single zero for zero.
\<close>

function hex_of_nat :: "nat \<Rightarrow> string" where
  "hex_of_nat n =
     (if n < 16 then [hex_digit n] else hex_of_nat (n div 16) @ [hex_digit (n mod 16)])"
  by pat_completeness auto
termination
  by (relation "measure id") auto

declare hex_of_nat.simps [simp del]

definition hex_value :: "string \<Rightarrow> nat" where
  "hex_value s = foldl (\<lambda>acc c. acc * 16 + (case digit_value c of Some d \<Rightarrow> d | None \<Rightarrow> 0)) 0 s"

lemma digit_value_hex_digit [simp, hex_simps]: "d < 16 \<Longrightarrow> digit_value (hex_digit d) = Some d"
proof -
  assume "d < 16"
  then have "d \<in> {0..<16}" by simp
  also have "{0..<16} = set [0,1,2,3,4,5,6,7,8,9,10,11,12,13,14,15::nat]" by code_simp
  finally show ?thesis
    by (auto simp: hex_digit_def digit_value_def)
qed

lemma digit_value_less: "digit_value c = Some d \<Longrightarrow> d < 16"
  by (auto simp: digit_value_def Let_def split: if_splits)

lemma hex_value_append_digit:
  "d < 16 \<Longrightarrow> hex_value (s @ [hex_digit d]) = hex_value s * 16 + d"
  by (simp add: hex_value_def)

lemma hex_value_hex_of_nat [simp]: "hex_value (hex_of_nat n) = n"
proof (induction n rule: hex_of_nat.induct)
  case (1 n)
  show ?case
  proof (cases "n < 16")
    case True
    then show ?thesis by (simp add: hex_of_nat.simps [of n] hex_value_def)
  next
    case False
    with "1" show ?thesis
      by (simp add: hex_of_nat.simps [of n] hex_value_append_digit)
  qed
qed

lemma hex_of_nat_inj: "hex_of_nat m = hex_of_nat n \<longleftrightarrow> m = n"
  by (metis hex_value_hex_of_nat)

lemma hex_of_nat_nonempty [simp]: "hex_of_nat n \<noteq> []"
  by (subst hex_of_nat.simps) simp

lemma hex_of_nat_digits: "c \<in> set (hex_of_nat n) \<Longrightarrow> \<exists>d<16. c = hex_digit d"
proof (induction n rule: hex_of_nat.induct)
  case (1 n)
  show ?case
  proof (cases "n < 16")
    case True
    with "1.prems" show ?thesis by (auto simp: hex_of_nat.simps [of n])
  next
    case False
    with "1.prems" have "c \<in> set (hex_of_nat (n div 16)) \<or> c = hex_digit (n mod 16)"
      by (auto simp: hex_of_nat.simps [of n])
    then show ?thesis
    proof
      assume "c = hex_digit (n mod 16)"
      then show ?thesis by (intro exI [of _ "n mod 16"]) simp
    qed (use "1.IH" False in blast)
  qed
qed

text \<open>\<open>std::setfill('0') << std::setw(w)\<close>: pad on the left, never truncate.\<close>

definition setw0 :: "nat \<Rightarrow> string \<Rightarrow> string" where
  "setw0 w s = replicate (w - length s) (CHR ''0'') @ s"

lemma hex_value_replicate_zero:
  "hex_value (replicate k (CHR ''0'') @ s) = hex_value s"
proof -
  have "foldl (\<lambda>acc c. acc * 16 + (case digit_value c of Some d \<Rightarrow> d | None \<Rightarrow> 0)) 0
      (replicate k (CHR ''0'')) = 0"
    by (induction k) (simp_all add: digit_value_def)
  then show ?thesis by (simp add: hex_value_def)
qed

lemma hex_value_setw0 [simp]: "hex_value (setw0 w s) = hex_value s"
  by (simp add: setw0_def hex_value_replicate_zero)

lemma length_setw0: "length (setw0 w s) = max w (length s)"
  by (simp add: setw0_def)

lemma hex_of_nat_length_le: "0 < k \<Longrightarrow> n < 16 ^ k \<Longrightarrow> length (hex_of_nat n) \<le> k"
proof (induction k arbitrary: n)
  case 0
  then show ?case by simp
next
  case (Suc k)
  show ?case
  proof (cases "n < 16")
    case True
    then show ?thesis by (simp add: hex_of_nat.simps [of n])
  next
    case False
    with Suc.prems have "0 < k" by (cases k) auto
    moreover have "n div 16 < 16 ^ k"
      using Suc.prems(2) by (simp add: less_mult_imp_div_less mult.commute)
    ultimately have "length (hex_of_nat (n div 16)) \<le> k" by (rule Suc.IH)
    with False show ?thesis by (simp add: hex_of_nat.simps [of n])
  qed
qed

text \<open>Decimal printing, as \<open>operator<<\<close> and \<open>std::to_string\<close> do for unsigned integers.\<close>

function dec_of_nat :: "nat \<Rightarrow> string" where
  "dec_of_nat n =
     (if n < 10 then [''0123456789'' ! n]
      else dec_of_nat (n div 10) @ [''0123456789'' ! (n mod 10)])"
  by pat_completeness auto
termination
  by (relation "measure id") auto

declare dec_of_nat.simps [simp del]

definition dec_of_int :: "int \<Rightarrow> string" where
  "dec_of_int i = (if i < 0 then CHR ''-'' # dec_of_nat (nat (- i)) else dec_of_nat (nat i))"

end
