(* ===== verification/Hex_Codec.thy ===== *)
theory Hex_Codec
  imports Unit_Prelude
begin

text \<open>
  The hexadecimal helpers of \<open>bip44/utils.hpp\<close>, \<open>bip44/addresses.hpp\<close>, \<open>crypto/Hex.h\<close>,
  \<open>bip44/Hex.h\<close> and \<open>account/Token.h\<close>: \<open>hex2dec\<close>, \<open>to_hex\<close>, \<open>bytes_to_hex\<close>,
  \<open>string_to_hex\<close>, \<open>hex_to_ascii\<close> and \<open>reverse_hex_str\<close>, with the round trips between them.
  A conversion of a floating-point value that does not fit the target type is undefined
  behaviour in C++ and is the value \<open>None\<close> here.
\<close>

section \<open>Definitions\<close>

text \<open>
  \<open>hex2dec\<close> adds \<open>digit * pow(16, length - i - 1)\<close> to an 8-bit accumulator; the sum is a
  \<open>double\<close> converted back to \<open>uint8_t\<close>, which is only defined below 256. Characters that
  are not hexadecimal digits add nothing.
\<close>

fun hex2dec_loop :: "string \<Rightarrow> nat \<Rightarrow> nat option" where
  "hex2dec_loop [] result = Some result"
| "hex2dec_loop (c # cs) result =
     (case digit_value c of
        None \<Rightarrow> hex2dec_loop cs result
      | Some d \<Rightarrow>
          (let result' = result + d * 16 ^ length cs
           in if result' < 256 then hex2dec_loop cs result' else None))"

definition hex2dec :: "string \<Rightarrow> u8 option" where
  "hex2dec hex = map_option of_nat (hex2dec_loop hex 0)"

text \<open>
  The loop \<open>for (i = 0; i < s.length(); i += 2) bytes.push_back(hex2dec(s.substr(i, 2)))\<close>
  that the key-derivation and address code repeats.
\<close>

definition hex_to_bytes :: "string \<Rightarrow> bytes option" where
  "hex_to_bytes s = those (map hex2dec (pairs_of s))"

definition hex_lut :: string where
  "hex_lut = ''0123456789abcdef0123456789ABCDEF''"

definition to_hex :: "bytes \<Rightarrow> string" where
  "to_hex input = concat (map (\<lambda>c. [hex_lut ! unat (drop_bit 4 c), hex_lut ! unat (c AND 15)]) input)"

definition bytes_to_hex :: "bytes \<Rightarrow> string" where
  "bytes_to_hex value_to_hex =
     concat (map (\<lambda>i. setw0 2 (hex_of_nat (unat (value_to_hex ! i)))) [0..<32])"

text \<open>
  \<open>std::hex << int(item)\<close>: a \<open>char\<close> is signed, so a byte from 128 on becomes a negative
  \<open>int\<close> and prints as its 32-bit two's complement.
\<close>

definition int_of_char :: "char \<Rightarrow> u32" where
  "int_of_char c = signed (byte_of_char c)"

definition string_to_hex :: "string \<Rightarrow> string" where
  "string_to_hex value_to_hex = concat (map (\<lambda>item. hex_of_nat (unat (int_of_char item))) value_to_hex)"

text \<open>
  \<open>strtol(s, nullptr, 16)\<close>: leading white space, an optional sign, an optional \<open>0x\<close>, then the
  longest run of digits; no digits read as zero.
\<close>

definition c_isspace :: "char \<Rightarrow> bool" where
  "c_isspace c = (let n = of_char c :: nat in n = 32 \<or> (9 \<le> n \<and> n \<le> 13))"

definition is_hex :: "char \<Rightarrow> bool" where
  "is_hex c = (digit_value c \<noteq> None)"

definition strip_0x :: "string \<Rightarrow> string" where
  "strip_0x s = (case s of
      a # b # c # cs \<Rightarrow> if a = CHR ''0'' \<and> (b = CHR ''x'' \<or> b = CHR ''X'') \<and> is_hex c then c # cs else s
    | _ \<Rightarrow> s)"

definition strtol16 :: "string \<Rightarrow> int" where
  "strtol16 s = (case dropWhile c_isspace s of
      [] \<Rightarrow> 0
    | c # cs \<Rightarrow>
        if c = CHR ''-'' then - int (hex_value (takeWhile is_hex (strip_0x cs)))
        else if c = CHR ''+'' then int (hex_value (takeWhile is_hex (strip_0x cs)))
        else int (hex_value (takeWhile is_hex (strip_0x (c # cs)))))"

definition hex_to_ascii :: "string \<Rightarrow> string" where
  "hex_to_ascii hex = map (\<lambda>byte. char_of_byte (of_int (strtol16 byte))) (pairs_of hex)"

text \<open>
  \<open>reverse_hex_str\<close> counts down in steps of two from the size; with an odd size the position
  \<open>i - 2\<close> wraps below zero and \<open>std::string::append\<close> throws (\<open>None\<close>).
\<close>

function reverse_hex_loop :: "string \<Rightarrow> nat \<Rightarrow> string \<Rightarrow> string option" where
  "reverse_hex_loop str i result =
     (if i = 0 then Some result
      else if i = 1 then None
      else reverse_hex_loop str (i - 2) (result @ take 2 (drop (i - 2) str)))"
  by pat_completeness auto
termination
  by (relation "measure (\<lambda>(str, i, result). i)") auto

declare reverse_hex_loop.simps [simp del]

definition reverse_hex_str :: "string \<Rightarrow> string option" where
  "reverse_hex_str str = reverse_hex_loop str (length str) []"

section \<open>Lemmas\<close>

lemma hex2dec_loop_short:
  "length s \<le> 2 \<Longrightarrow> \<exists>n<256. hex2dec_loop s 0 = Some n"
proof -
  assume "length s \<le> 2"
  then consider "s = []" | a where "s = [a]" | a b where "s = [a, b]"
    by (cases s rule: pairs_of.cases) auto
  then show ?thesis
  proof cases
    case (2 a)
    then show ?thesis by (auto split: option.splits dest: digit_value_less)
  next
    case (3 a b)
    then show ?thesis
      by (auto simp: Let_def split: option.splits dest!: digit_value_less)
  qed simp
qed

lemma hex2dec_short_defined: "length s \<le> 2 \<Longrightarrow> hex2dec s \<noteq> None"
  using hex2dec_loop_short [of s] by (auto simp: hex2dec_def)

lemma hex2dec_pair:
  "h < 16 \<Longrightarrow> l < 16 \<Longrightarrow> hex2dec [hex_digit h, hex_digit l] = Some (of_nat (h * 16 + l))"
  by (simp add: hex2dec_def Let_def)

lemma hex_to_bytes_Nil [simp]: "hex_to_bytes [] = Some []"
  by (simp add: hex_to_bytes_def)

lemma hex_to_bytes_Cons2:
  "hex_to_bytes (a # b # s) =
     (case hex2dec [a, b] of None \<Rightarrow> None | Some x \<Rightarrow> map_option ((#) x) (hex_to_bytes s))"
  by (simp add: hex_to_bytes_def split: option.splits)

lemma hex_to_bytes_defined: "hex_to_bytes s = Some (map (\<lambda>p. the (hex2dec p)) (pairs_of s))"
proof -
  have "hex2dec p = Some (the (hex2dec p))" if "p \<in> set (pairs_of s)" for p
    using pairs_of_length_le [OF that] hex2dec_short_defined [of p] by auto
  then show ?thesis unfolding hex_to_bytes_def by (rule those_map_total)
qed

lemma hex_to_bytes_length: "hex_to_bytes s = Some bs \<Longrightarrow> length bs = (length s + 1) div 2"
  using hex_to_bytes_defined [of s] by (auto simp: length_pairs_of)

lemma unat_drop_bit_4: "unat (drop_bit 4 (c :: u8)) = unat c div 16"
  by (simp add: drop_bit_eq_div unat_div)

lemma unat_and_15: "unat ((c :: u8) AND 15) = unat c mod 16"
proof -
  have "c AND 15 = c mod 16"
    using take_bit_eq_mask [of 4 c] by (simp add: take_bit_eq_mod mask_eq_exp_minus_1)
  then show ?thesis by (simp add: unat_mod)
qed

lemma hex_lut_digit: "d < 16 \<Longrightarrow> hex_lut ! d = hex_digit d"
  by (simp add: hex_lut_def hex_digit_def nth_Cons split: nat.splits)

lemma unat_u8_div_16: "unat (c :: u8) div 16 < 16"
  using unat_less_256 [of c] by linarith

lemma to_hex_digits [hex_simps]:
  "to_hex input = concat (map (\<lambda>c. [hex_digit (unat c div 16), hex_digit (unat c mod 16)]) input)"
  by (simp add: to_hex_def unat_drop_bit_4 unat_and_15 hex_lut_digit unat_u8_div_16)

lemma to_hex_Nil [simp]: "to_hex [] = []"
  by (simp add: to_hex_def)

lemma to_hex_Cons:
  "to_hex (c # cs) = hex_digit (unat c div 16) # hex_digit (unat c mod 16) # to_hex cs"
  by (simp add: to_hex_digits)

lemma to_hex_append: "to_hex (xs @ ys) = to_hex xs @ to_hex ys"
  by (simp add: to_hex_digits)

lemma length_to_hex [simp]: "length (to_hex bs) = 2 * length bs"
  by (induction bs) (simp_all add: to_hex_Cons)

lemma hex_to_bytes_to_hex: "hex_to_bytes (to_hex bs) = Some bs"
proof (induction bs)
  case (Cons c cs)
  have "hex2dec [hex_digit (unat c div 16), hex_digit (unat c mod 16)] = Some c"
    by (simp add: hex2dec_pair unat_u8_div_16)
  with Cons show ?case by (simp add: to_hex_Cons hex_to_bytes_Cons2)
qed simp

lemma hex_digit_0: "hex_digit 0 = CHR ''0''"
  by (simp add: hex_digit_def)

lemma setw0_hex_byte:
  "setw0 2 (hex_of_nat (unat (c :: u8))) = [hex_digit (unat c div 16), hex_digit (unat c mod 16)]"
proof (cases "unat c < 16")
  case True
  then show ?thesis by (simp add: hex_of_nat.simps [of "unat c"] setw0_def hex_digit_0)
next
  case False
  then show ?thesis
    by (simp add: hex_of_nat.simps [of "unat c"] hex_of_nat.simps [of "unat c div 16"] setw0_def
        unat_u8_div_16)
qed

lemma bytes_to_hex_eq_to_hex: "length v = 32 \<Longrightarrow> bytes_to_hex v = to_hex v"
proof -
  assume len: "length v = 32"
  have "bytes_to_hex v = concat (map (\<lambda>c. setw0 2 (hex_of_nat (unat c))) (map ((!) v) [0..<32]))"
    by (simp add: bytes_to_hex_def comp_def)
  also have "map ((!) v) [0..<32] = v" using len by (metis map_nth)
  finally show ?thesis by (simp add: setw0_hex_byte to_hex_digits)
qed

lemma reverse_hex_loop_pairs:
  "2 * n \<le> length str \<Longrightarrow>
     reverse_hex_loop str (2 * n) result = Some (result @ concat (rev (pairs_of (take (2 * n) str))))"
proof (induction n arbitrary: result)
  case 0
  then show ?case by (simp add: reverse_hex_loop.simps)
next
  case (Suc n)
  let ?p = "take 2 (drop (2 * n) str)"
  have len: "length ?p = 2" using Suc.prems by simp
  have split: "take (2 * Suc n) str = take (2 * n) str @ ?p"
    by (metis mult_Suc_right add.commute take_add)
  have "pairs_of ?p = [?p]" using len by (cases ?p rule: pairs_of.cases) auto
  then have "pairs_of (take (2 * Suc n) str) = pairs_of (take (2 * n) str) @ [?p]"
    using Suc.prems unfolding split by (subst pairs_of_append_even) simp_all
  then show ?case
    using Suc by (subst reverse_hex_loop.simps) simp
qed

lemma reverse_hex_loop_odd: "odd i \<Longrightarrow> reverse_hex_loop str i result = None"
proof (induction i arbitrary: result rule: less_induct)
  case (less i)
  show ?case
  proof (cases "i = 1")
    case False
    with less.prems have "odd (i - 2)" "i - 2 < i" "i \<noteq> 0" by presburger+
    with less.IH False show ?thesis by (subst reverse_hex_loop.simps) simp
  qed (simp add: reverse_hex_loop.simps)
qed

lemma reverse_hex_str_even:
  "even (length str) \<Longrightarrow> reverse_hex_str str = Some (concat (rev (pairs_of str)))"
  using reverse_hex_loop_pairs [of "length str div 2" str "[]"] by (simp add: reverse_hex_str_def)

lemma int_of_char_ascii: "(of_char c :: nat) < 128 \<Longrightarrow> int_of_char c = of_nat (of_char c)"
  unfolding int_of_char_def byte_of_char_def
  by (subst signed_of_nat) (simp add: signed_take_bit_int_eq_self)

lemma hex_pair_chars:
  assumes "16 \<le> n" and "n < 128"
  shows "hex_of_nat n = [hex_digit (n div 16), hex_digit (n mod 16)]"
  using assms by (simp add: hex_of_nat.simps [of n] hex_of_nat.simps [of "n div 16"])

lemma high_digit_plain:
  assumes "1 \<le> d" and "d < 8"
  shows "\<not> c_isspace (hex_digit d)" "hex_digit d \<noteq> CHR ''-''" "hex_digit d \<noteq> CHR ''+''"
proof -
  have "d \<in> set [1, 2, 3, 4, 5, 6, 7]" using assms by auto
  then show "\<not> c_isspace (hex_digit d)" "hex_digit d \<noteq> CHR ''-''" "hex_digit d \<noteq> CHR ''+''"
    by (auto simp: hex_digit_def c_isspace_def)
qed

lemma strtol16_pair:
  assumes "16 \<le> n" and "n < 128"
  shows "strtol16 [hex_digit (n div 16), hex_digit (n mod 16)] = int n"
proof -
  have d: "1 \<le> n div 16" "n div 16 < 8" "n div 16 < 16" "n mod 16 < 16" using assms by auto
  then have "hex_value [hex_digit (n div 16), hex_digit (n mod 16)] = n"
    by (simp add: hex_value_def)
  with d high_digit_plain [OF d(1,2)] show ?thesis
    by (simp add: strtol16_def strip_0x_def is_hex_def)
qed

lemma string_to_hex_pairs:
  "\<forall>c \<in> set s. 16 \<le> (of_char c :: nat) \<and> (of_char c :: nat) < 128 \<Longrightarrow>
     pairs_of (string_to_hex s) = map (\<lambda>c. [hex_digit (of_char c div 16), hex_digit (of_char c mod 16)]) s"
  by (induction s) (simp_all add: string_to_hex_def int_of_char_ascii unat_of_nat hex_pair_chars)

section \<open>Properties\<close>

text \<open>
  Hexadecimal round trip: decoding what \<open>to_hex\<close> prints with the \<open>hex2dec\<close> loop of the
  key-derivation code gives back every byte string, and never meets undefined behaviour.
\<close>

lemma hex_roundtrip:
  "hex_to_bytes (to_hex bs) = Some bs \<and> length (to_hex bs) = 2 * length bs"
  by (simp add: hex_to_bytes_to_hex)

text \<open>
  \<open>hex_to_ascii\<close> inverts \<open>string_to_hex\<close> on texts whose characters lie between 0x10 and
  0x7f. Outside that range \<open>string_to_hex\<close> prints one digit or eight, and the two functions
  no longer fit together.
\<close>

lemma hex_to_ascii_roundtrip:
  assumes "\<forall>c \<in> set s. 16 \<le> (of_char c :: nat) \<and> (of_char c :: nat) < 128"
  shows "hex_to_ascii (string_to_hex s) = s"
proof -
  have "char_of_byte (of_int (strtol16 [hex_digit (of_char c div 16), hex_digit (of_char c mod 16)])) = c"
    if "c \<in> set s" for c
    using assms that by (simp add: strtol16_pair char_of_byte_def unat_of_nat)
  with string_to_hex_pairs [OF assms] show ?thesis
    by (simp add: hex_to_ascii_def map_idI)
qed

text \<open>
  \<open>string_to_hex\<close> is ambiguous on control characters: two different byte strings print the
  same text, so no decoder can recover them.
\<close>

lemma string_to_hex_ambiguous:
  "string_to_hex [CHR 0x01, CHR 0x23] = string_to_hex [CHR 0x12, CHR 0x03]
   \<and> hex_to_ascii (string_to_hex [CHR 0x01, CHR 0x23]) \<noteq> [CHR 0x01, CHR 0x23]"
proof -
  have "string_to_hex [CHR 0x01, CHR 0x23] = ''123''" "string_to_hex [CHR 0x12, CHR 0x03] = ''123''"
    by (simp_all add: string_to_hex_def int_of_char_ascii unat_of_nat hex_of_nat.simps hex_digit_def)
  then show ?thesis
    by (simp add: hex_to_ascii_def strtol16_def strip_0x_def is_hex_def digit_value_def hex_value_def
        c_isspace_def char_of_byte_def char_of_def)
qed

end
