(* ===== verification/Block_Stream.thy ===== *)
theory Block_Stream
  imports Unit_Prelude
begin

text \<open>
  The contract that the three incremental hash classes of the repository share (\<open>SHA3\<close>,
  \<open>SHA256_Legacy\<close> and \<open>SHA512\<close>): feeding data compresses every full block and keeps the rest
  pending. \<open>absorb\<close> is the reference; the locale \<open>block_stream\<close> states the contract and proves
  once that the result does not depend on how the input is cut into calls. Each class is an
  interpretation of the locale in its own theory.
\<close>

section \<open>The reference\<close>

function absorb :: "nat \<Rightarrow> ('h \<Rightarrow> bytes \<Rightarrow> 'h) \<Rightarrow> 'h \<Rightarrow> bytes \<Rightarrow> 'h \<times> bytes" where
  "absorb bs compress h buf =
     (if bs = 0 \<or> length buf < bs then (h, buf)
      else absorb bs compress (compress h (take bs buf)) (drop bs buf))"
  by pat_completeness auto
termination
  by (relation "measure (\<lambda>(bs, compress, h, buf). length buf)") auto

declare absorb.simps [simp del]

lemma absorb_short: "length buf < bs \<Longrightarrow> absorb bs compress h buf = (h, buf)"
  by (subst absorb.simps) simp

lemma absorb_block:
  "0 < bs \<Longrightarrow> bs \<le> length buf \<Longrightarrow>
     absorb bs compress h buf = absorb bs compress (compress h (take bs buf)) (drop bs buf)"
  by (subst absorb.simps) auto

lemma absorb_exact:
  "0 < bs \<Longrightarrow> length blk = bs \<Longrightarrow> absorb bs compress h (blk @ buf) = absorb bs compress (compress h blk) buf"
  by (subst absorb_block) auto

lemma absorb_one: "0 < bs \<Longrightarrow> length blk = bs \<Longrightarrow> absorb bs f h blk = (f h blk, [])"
  using absorb_exact [of bs blk f h "[]"] by (simp add: absorb_short)

lemma absorb_two:
  "0 < bs \<Longrightarrow> length blk = bs \<Longrightarrow> length blk2 = bs \<Longrightarrow> absorb bs f h (blk @ blk2) = (f (f h blk) blk2, [])"
  by (simp add: absorb_exact absorb_one)

lemma absorb_rest_length: "0 < bs \<Longrightarrow> length (snd (absorb bs compress h buf)) < bs"
  by (induction bs compress h buf rule: absorb.induct) (simp add: absorb.simps)

lemma absorb_append:
  "0 < bs \<Longrightarrow> absorb bs compress h (xs @ ys) =
     (case absorb bs compress h xs of (h', r) \<Rightarrow> absorb bs compress h' (r @ ys))"
proof (induction bs compress h xs rule: absorb.induct)
  case (1 bs compress h buf)
  show ?case
  proof (cases "length buf < bs")
    case True
    then show ?thesis by (simp add: absorb_short)
  next
    case False
    with "1.prems" have "absorb bs compress h (buf @ ys)
        = absorb bs compress (compress h (take bs buf)) (drop bs buf @ ys)"
      by (subst absorb_block) auto
    also have "\<dots> = (case absorb bs compress (compress h (take bs buf)) (drop bs buf) of
        (h', r) \<Rightarrow> absorb bs compress h' (r @ ys))"
      using "1.IH" "1.prems" False by simp
    finally show ?thesis using "1.prems" False by (simp add: absorb_block)
  qed
qed

lemma absorb_rest_drop:
  "0 < bs \<Longrightarrow> snd (absorb bs compress h buf) = drop (length buf - length buf mod bs) buf"
proof (induction bs compress h buf rule: absorb.induct)
  case (1 bs compress h buf)
  show ?case
  proof (cases "length buf < bs")
    case True
    then show ?thesis by (simp add: absorb_short)
  next
    case False
    then have "bs \<le> length buf" by simp
    moreover from this have "(length buf - bs) mod bs = length buf mod bs"
      by (simp add: mod_if)
    moreover have "length buf mod bs \<le> length buf - bs"
      by (metis \<open>(length buf - bs) mod bs = length buf mod bs\<close> mod_less_eq_dividend)
    ultimately show ?thesis
      using "1.IH" "1.prems" False by (simp add: absorb_block add.commute)
  qed
qed

lemma absorb_complete:
  assumes "0 < bs" and "bs dvd length buf"
  shows "absorb bs compress h buf = (fst (absorb bs compress h buf), [])"
proof -
  have "snd (absorb bs compress h buf) = []"
    using assms by (simp add: absorb_rest_drop)
  then show ?thesis by (metis prod.collapse)
qed

section \<open>The contract of an incremental hash object\<close>

locale block_stream =
  fixes bs :: nat
    and compress :: "'h \<Rightarrow> bytes \<Rightarrow> 'h"
    and feed :: "'s \<Rightarrow> bytes \<Rightarrow> 's"
    and chain :: "'s \<Rightarrow> 'h"
    and pending :: "'s \<Rightarrow> bytes"
    and invar :: "'s \<Rightarrow> bool"
  assumes bs_pos: "0 < bs"
    and feed_refines: "invar s \<Longrightarrow>
      (chain (feed s xs), pending (feed s xs)) = absorb bs compress (chain s) (pending s @ xs)"
    and invar_feed: "invar s \<Longrightarrow> invar (feed s xs)"
    and pending_bound: "invar s \<Longrightarrow> length (pending s) < bs"
begin

lemma chain_feed: "invar s \<Longrightarrow> chain (feed s xs) = fst (absorb bs compress (chain s) (pending s @ xs))"
  by (metis feed_refines fst_conv)

lemma pending_feed: "invar s \<Longrightarrow> pending (feed s xs) = snd (absorb bs compress (chain s) (pending s @ xs))"
  by (metis feed_refines snd_conv)

lemma feed_feed:
  assumes "invar s"
  shows "chain (feed (feed s xs) ys) = chain (feed s (xs @ ys))"
    and "pending (feed (feed s xs) ys) = pending (feed s (xs @ ys))"
proof -
  have "(chain (feed (feed s xs) ys), pending (feed (feed s xs) ys))
      = absorb bs compress (chain (feed s xs)) (pending (feed s xs) @ ys)"
    using assms by (intro feed_refines invar_feed)
  also have "\<dots> = absorb bs compress (chain s) (pending s @ xs @ ys)"
    using feed_refines [OF assms, of xs]
      absorb_append [OF bs_pos, of compress "chain s" "pending s @ xs" ys]
    by (simp split: prod.splits)
  also have "\<dots> = (chain (feed s (xs @ ys)), pending (feed s (xs @ ys)))"
    using feed_refines [OF assms, of "xs @ ys"] by simp
  finally show "chain (feed (feed s xs) ys) = chain (feed s (xs @ ys))"
    and "pending (feed (feed s xs) ys) = pending (feed s (xs @ ys))"
    by simp_all
qed

lemma invar_feeds: "invar s \<Longrightarrow> invar (foldl feed s chunks)"
  by (induction chunks arbitrary: s) (auto intro: invar_feed)

lemma feeds_absorb:
  "invar s \<Longrightarrow> (chain (foldl feed s chunks), pending (foldl feed s chunks))
     = absorb bs compress (chain s) (pending s @ concat chunks)"
proof (induction chunks arbitrary: s)
  case Nil
  then show ?case by (simp add: absorb_short pending_bound)
next
  case (Cons c chunks)
  then show ?case
    using feed_refines [OF Cons.prems, of c] invar_feed [OF Cons.prems, of c]
      absorb_append [OF bs_pos, of compress "chain s" "pending s @ c" "concat chunks"]
    by (simp split: prod.splits)
qed

lemma feeds_concat:
  assumes "invar s"
  shows "chain (foldl feed s chunks) = chain (feed s (concat chunks))"
    and "pending (foldl feed s chunks) = pending (feed s (concat chunks))"
proof -
  have "(chain (foldl feed s chunks), pending (foldl feed s chunks))
      = (chain (feed s (concat chunks)), pending (feed s (concat chunks)))"
    using feeds_absorb [OF assms, of chunks] feed_refines [OF assms, of "concat chunks"] by metis
  then show "chain (foldl feed s chunks) = chain (feed s (concat chunks))"
    and "pending (foldl feed s chunks) = pending (feed s (concat chunks))" by simp_all
qed

lemma feeds_same_view:
  assumes "invar s" and "invar t" and "chain s = chain t" and "pending s = pending t"
  shows "chain (foldl feed s chunks) = chain (foldl feed t chunks)"
    and "pending (foldl feed s chunks) = pending (foldl feed t chunks)"
proof -
  have "(chain (foldl feed s chunks), pending (foldl feed s chunks))
      = (chain (foldl feed t chunks), pending (foldl feed t chunks))"
    using feeds_absorb [OF assms(1), of chunks] feeds_absorb [OF assms(2), of chunks] assms(3,4) by metis
  then show "chain (foldl feed s chunks) = chain (foldl feed t chunks)"
    and "pending (foldl feed s chunks) = pending (foldl feed t chunks)" by simp_all
qed

end

section \<open>Byte order\<close>

definition load_le :: "bytes \<Rightarrow> u64" where
  "load_le bs = foldr (\<lambda>b acc. push_bit 8 acc OR ucast b) bs 0"

definition load_be32 :: "bytes \<Rightarrow> u32" where
  "load_be32 bs = foldl (\<lambda>acc b. push_bit 8 acc OR ucast b) 0 bs"

section \<open>Objects that buffer byte by byte\<close>

text \<open>
  The loops inside the \<open>add\<close> method that \<open>SHA3\<close> and \<open>SHA256_Legacy\<close> share: top up a partly filled
  buffer, process it when it is full, process whole blocks straight from the input, and store the
  remaining bytes. \<open>shape\<close> is what holds at every point of the method, a full buffer included. The
  contract gives \<open>block_stream\<close>.
\<close>

locale byte_buffer =
  fixes bs :: nat
    and compress :: "'h \<Rightarrow> bytes \<Rightarrow> 'h"
    and put :: "'s \<Rightarrow> u8 \<Rightarrow> 's"
    and fill :: "'s \<Rightarrow> bytes \<Rightarrow> 's \<times> bytes"
    and flush :: "'s \<Rightarrow> 's"
    and direct :: "'s \<Rightarrow> bytes \<Rightarrow> 's"
    and blocks :: "'s \<Rightarrow> bytes \<Rightarrow> 's \<times> bytes"
    and feed :: "'s \<Rightarrow> bytes \<Rightarrow> 's"
    and chain :: "'s \<Rightarrow> 'h"
    and pending :: "'s \<Rightarrow> bytes"
    and shape :: "'s \<Rightarrow> bool"
  assumes size_pos: "0 < bs"
    and put: "shape s \<Longrightarrow> length (pending s) < bs \<Longrightarrow>
      shape (put s b) \<and> chain (put s b) = chain s \<and> pending (put s b) = pending s @ [b]"
    and fill_Nil: "fill s [] = (s, [])"
    and fill_Cons: "shape s \<Longrightarrow> fill s (b # xs) = (if length (pending s) < bs then fill (put s b) xs else (s, b # xs))"
    and flush_full: "shape s \<Longrightarrow> length (pending s) = bs \<Longrightarrow>
      shape (flush s) \<and> chain (flush s) = compress (chain s) (pending s) \<and> pending (flush s) = []"
    and flush_partial: "shape s \<Longrightarrow> length (pending s) < bs \<Longrightarrow> flush s = s"
    and direct: "shape s \<Longrightarrow> pending s = [] \<Longrightarrow> bs \<le> length xs \<Longrightarrow>
      shape (direct s xs) \<and> chain (direct s xs) = compress (chain s) (take bs xs) \<and> pending (direct s xs) = []"
    and blocks_eq: "shape s \<Longrightarrow> blocks s xs = (if bs \<le> length xs then blocks (direct s xs) (drop bs xs) else (s, xs))"
    and feed_eq: "shape s \<Longrightarrow> feed s xs =
      (let (s1, xs1) = (if pending s \<noteq> [] then fill s xs else (s, xs)); s2 = flush s1
       in if xs1 = [] then s2 else (let (s3, xs3) = blocks s2 xs1 in foldl put s3 xs3))"
begin

lemma puts:
  "shape s \<Longrightarrow> length (pending s) + length xs \<le> bs \<Longrightarrow>
     shape (foldl put s xs) \<and> chain (foldl put s xs) = chain s \<and> pending (foldl put s xs) = pending s @ xs"
proof (induction xs arbitrary: s)
  case (Cons x xs)
  then show ?case using put [of s x] by simp
qed simp

lemma fill_puts:
  "shape s \<Longrightarrow> length (pending s) \<le> bs \<Longrightarrow>
     fill s xs = (foldl put s (take (bs - length (pending s)) xs), drop (bs - length (pending s)) xs)"
proof (induction xs arbitrary: s)
  case (Cons x xs)
  show ?case
  proof (cases "length (pending s) < bs")
    case True
    then obtain k where k: "bs - length (pending s) = Suc k" by (metis Suc_diff_Suc)
    moreover from this have "bs - Suc (length (pending s)) = k" by simp
    ultimately show ?thesis
      using Cons.IH [of "put s x"] put [of s x] Cons.prems True by (simp add: fill_Cons)
  qed (use Cons.prems in \<open>simp add: fill_Cons\<close>)
qed (simp add: fill_Nil)

lemma blocks_absorb:
  "shape s \<Longrightarrow> pending s = [] \<Longrightarrow> blocks s xs = (t, r) \<Longrightarrow>
     shape t \<and> pending t = [] \<and> absorb bs compress (chain s) xs = (chain t, r)"
proof (induction "length xs" arbitrary: s xs rule: less_induct)
  case less
  show ?case
  proof (cases "bs \<le> length xs")
    case True
    with less.prems have "blocks (direct s xs) (drop bs xs) = (t, r)" by (simp add: blocks_eq)
    moreover have "length (drop bs xs) < length xs" using True size_pos by simp
    ultimately show ?thesis
      using less.hyps [of "drop bs xs" "direct s xs"] direct [of s xs] less.prems True size_pos
      by (simp add: absorb_block)
  qed (use less.prems in \<open>simp add: blocks_eq absorb_short\<close>)
qed

lemma tail_absorb:
  assumes "shape s" and "pending s = []"
  shows "let u = (let (t, r) = blocks s xs in foldl put t r) in
    shape u \<and> (chain u, pending u) = absorb bs compress (chain s) xs \<and> length (pending u) < bs"
proof -
  obtain t r where b: "blocks s xs = (t, r)" by fastforce
  note a = blocks_absorb [OF assms b]
  have "length r < bs" using a absorb_rest_length [OF size_pos, of compress "chain s" xs] by simp
  then show ?thesis using puts [of t r] a b by (simp add: Let_def)
qed

lemma feed_absorb:
  assumes "shape s" and "length (pending s) < bs"
  shows "shape (feed s xs) \<and> (chain (feed s xs), pending (feed s xs)) = absorb bs compress (chain s) (pending s @ xs)
    \<and> length (pending (feed s xs)) < bs"
proof (cases "pending s = []")
  case True
  then have "feed s xs = (if xs = [] then s else (let (t, r) = blocks s xs in foldl put t r))"
    using assms by (simp add: feed_eq flush_partial)
  then show ?thesis
    using tail_absorb [OF assms(1) True, of xs] True assms by (auto simp: absorb_short size_pos Let_def)
next
  case False
  let ?k = "bs - length (pending s)"
  let ?t = "foldl put s (take ?k xs)"
  have t: "shape ?t" "chain ?t = chain s" "pending ?t = pending s @ take ?k xs"
    using puts [OF assms(1), of "take ?k xs"] assms(2) by simp_all
  have feed: "feed s xs = (if drop ?k xs = [] then flush ?t
      else (let (u, r) = blocks (flush ?t) (drop ?k xs) in foldl put u r))"
    using False assms by (simp add: feed_eq fill_puts)
  show ?thesis
  proof (cases "?k \<le> length xs")
    case True
    then have len: "length (pending s @ take ?k xs) = bs" using assms(2) by simp
    note u = flush_full [OF t(1)]
    have ab: "absorb bs compress (chain s) (pending s @ xs) = absorb bs compress (chain (flush ?t)) (drop ?k xs)"
      using absorb_exact [OF size_pos len, of compress "chain s" "drop ?k xs"] u t len by simp
    show ?thesis
    proof (cases "drop ?k xs = []")
      case True
      then show ?thesis using ab u t len feed by (simp add: absorb_short size_pos)
    next
      case False
      with feed have "feed s xs = (let (u, r) = blocks (flush ?t) (drop ?k xs) in foldl put u r)" by simp
      then show ?thesis using tail_absorb [of "flush ?t" "drop ?k xs"] u t len ab by (auto simp: Let_def)
    qed
  next
    case short: False
    then have "feed s xs = flush ?t" "take ?k xs = xs" using feed by simp_all
    moreover from this have "flush ?t = ?t" using t short by (intro flush_partial) simp_all
    ultimately show ?thesis using t short by (simp add: absorb_short)
  qed
qed

end

sublocale byte_buffer \<subseteq> block_stream bs compress feed chain pending "\<lambda>s. shape s \<and> length (pending s) < bs"
  using size_pos feed_absorb by unfold_locales auto

section \<open>Rotation\<close>

lemma shifts_word_rotr:
  fixes x :: "'a::len word"
  assumes "0 < c" and "c < LENGTH('a)"
  shows "drop_bit c x OR push_bit (LENGTH('a) - c) x = word_rotr c x"
proof (rule bit_word_eqI)
  fix n assume n: "n < LENGTH('a)"
  then have rotr: "bit (word_rotr c x) n = bit x ((n + c) mod LENGTH('a))"
    by (simp add: bit_word_rotr_iff)
  show "bit (drop_bit c x OR push_bit (LENGTH('a) - c) x) n = bit (word_rotr c x) n"
  proof (cases "n + c < LENGTH('a)")
    case True
    then show ?thesis
      unfolding rotr using n assms
      by (auto simp: bit_or_iff bit_drop_bit_eq bit_push_bit_iff add.commute)
  next
    case False
    then have "(n + c) mod LENGTH('a) = n + c - LENGTH('a)" using n assms by (simp add: le_mod_geq)
    moreover have "n - (LENGTH('a) - c) = n + c - LENGTH('a)" using assms by simp
    ultimately show ?thesis
      unfolding rotr using False n assms
      by (auto simp: bit_or_iff bit_drop_bit_eq bit_push_bit_iff add.commute dest: bit_imp_le_length)
  qed
qed

end
