(* ===== verification/Sha3.thy ===== *)
theory Sha3
  imports Block_Stream Hex_Codec
begin

text \<open>
  The class \<open>SHA3\<close> of \<open>crypto/SHA3/sha3.h\<close> and \<open>crypto/SHA3/sha3.cpp\<close>: its state, the
  Keccak permutation as \<open>processBlock\<close> computes it in place, the buffering of \<open>add\<close>, the
  padding of \<open>processBuffer\<close> and the hexadecimal digest of \<open>getHash\<close>. Arrays are lists of
  fixed length, updated by index; sizes are \<open>nat\<close> (all of them at most 200), counters keep
  their width.
\<close>

section \<open>State\<close>

datatype Bits = Bits224 | Bits256 | Bits384 | Bits512

fun bits_value :: "Bits \<Rightarrow> nat" where
  "bits_value Bits224 = 224"
| "bits_value Bits256 = 256"
| "bits_value Bits384 = 384"
| "bits_value Bits512 = 512"

definition StateSize :: nat where "StateSize = 1600 div (8 * 8)"

definition MaxBlockSize :: nat where "MaxBlockSize = 200 - 2 * (224 div 8)"

record sha3 =
  m_hash :: "u64 list"
  m_numBytes :: u64
  m_blockSize :: nat
  m_bufferSize :: nat
  m_buffer :: bytes
  m_bits :: Bits

definition reset :: "sha3 \<Rightarrow> sha3" where
  "reset s = s\<lparr>m_hash := replicate StateSize 0, m_numBytes := 0, m_bufferSize := 0\<rparr>"

text \<open>The constructor leaves \<open>m_buffer\<close> uninitialised; its contents are the parameter \<open>garbage\<close>.\<close>

definition SHA3_new :: "bytes \<Rightarrow> Bits \<Rightarrow> sha3" where
  "SHA3_new garbage bits = reset
     \<lparr>m_hash = replicate StateSize 0, m_numBytes = 0,
      m_blockSize = 200 - 2 * (bits_value bits div 8),
      m_bufferSize = 0, m_buffer = take MaxBlockSize (garbage @ replicate MaxBlockSize 0), m_bits = bits\<rparr>"

section \<open>The permutation\<close>

definition XorMasks :: "u64 list" where
  "XorMasks = [
     0x0000000000000001, 0x0000000000008082, 0x800000000000808a,
     0x8000000080008000, 0x000000000000808b, 0x0000000080000001,
     0x8000000080008081, 0x8000000000008009, 0x000000000000008a,
     0x0000000000000088, 0x0000000080008009, 0x000000008000000a,
     0x000000008000808b, 0x800000000000008b, 0x8000000000008089,
     0x8000000000008003, 0x8000000000008002, 0x8000000000000080,
     0x000000000000800a, 0x800000008000000a, 0x8000000080008081,
     0x8000000000008080, 0x0000000080000001, 0x8000000080008008]"

definition rotateLeft :: "u64 \<Rightarrow> nat \<Rightarrow> u64" where
  "rotateLeft x numBits = push_bit numBits x OR drop_bit (64 - numBits) x"

definition mod5 :: "nat \<Rightarrow> nat" where
  "mod5 x = (if x < 5 then x else x - 5)"

definition xor_at :: "u64 \<Rightarrow> u64 list \<Rightarrow> nat \<Rightarrow> u64 list" where
  "xor_at one h i = h[i := h ! i XOR one]"

definition theta :: "u64 list \<Rightarrow> u64 list" where
  "theta h =
     (let coefficients =
        map (\<lambda>i. h ! i XOR h ! (i + 5) XOR h ! (i + 10) XOR h ! (i + 15) XOR h ! (i + 20)) [0..<5]
      in foldl (\<lambda>h i.
           let one = coefficients ! mod5 (i + 4) XOR rotateLeft (coefficients ! mod5 (i + 1)) 1
           in foldl (xor_at one) h [i, i + 5, i + 10, i + 15, i + 20]) h [0..<5])"

text \<open>
  The chain of assignments \<open>one = m_hash[i]; m_hash[i] = rotateLeft(last, r); last = one\<close>,
  one pair \<open>(i, r)\<close> per step, starting from \<open>last = m_hash[1]\<close>.
\<close>

definition rho_pi_steps :: "(nat \<times> nat) list" where
  "rho_pi_steps = [
     (10, 1), (7, 3), (11, 6), (17, 10), (18, 15), (3, 21), (5, 28), (16, 36),
     (8, 45), (21, 55), (24, 2), (4, 14), (15, 27), (23, 41), (19, 56), (13, 8),
     (12, 25), (2, 43), (20, 62), (14, 18), (22, 39), (9, 61), (6, 20), (1, 44)]"

definition rho_pi :: "u64 list \<Rightarrow> u64 list" where
  "rho_pi h = fst (foldl (\<lambda>(h, last) (i, r). (h[i := rotateLeft last r], h ! i)) (h, h ! 1) rho_pi_steps)"

definition chi_row :: "u64 list \<Rightarrow> nat \<Rightarrow> u64 list" where
  "chi_row h j =
     (let one = h ! j;
          two = h ! (j + 1);
          h = h[j := h ! j XOR (h ! (j + 2) AND NOT two)];
          h = h[j + 1 := h ! (j + 1) XOR (h ! (j + 3) AND NOT (h ! (j + 2)))];
          h = h[j + 2 := h ! (j + 2) XOR (h ! (j + 4) AND NOT (h ! (j + 3)))];
          h = h[j + 3 := h ! (j + 3) XOR (one AND NOT (h ! (j + 4)))]
      in h[j + 4 := h ! (j + 4) XOR (two AND NOT one)])"

definition chi :: "u64 list \<Rightarrow> u64 list" where
  "chi h = foldl chi_row h [0, 5, 10, 15, 20]"

definition iota :: "u64 \<Rightarrow> u64 list \<Rightarrow> u64 list" where
  "iota XorMask h = h[0 := h ! 0 XOR XorMask]"

definition keccak_round :: "u64 list \<Rightarrow> u64 \<Rightarrow> u64 list" where
  "keccak_round h XorMask = iota XorMask (chi (rho_pi (theta h)))"

definition keccak_permute :: "u64 list \<Rightarrow> u64 list" where
  "keccak_permute h = foldl keccak_round h XorMasks"

text \<open>
  \<open>processBlock\<close> reads the block as little-endian 64-bit words (the sources are built for a
  little-endian target, where \<open>LITTLEENDIAN(x)\<close> is \<open>x\<close>), mixes them in and permutes.
\<close>

definition mix_block :: "nat \<Rightarrow> u64 list \<Rightarrow> bytes \<Rightarrow> u64 list" where
  "mix_block blockSize h data =
     foldl (\<lambda>h i. h[i := h ! i XOR load_le (take 8 (drop (8 * i) data))]) h [0..<blockSize div 8]"

definition sha3_compress :: "nat \<Rightarrow> u64 list \<Rightarrow> bytes \<Rightarrow> u64 list" where
  "sha3_compress blockSize h data = keccak_permute (mix_block blockSize h data)"

definition processBlock :: "sha3 \<Rightarrow> bytes \<Rightarrow> sha3" where
  "processBlock s data = s\<lparr>m_hash := sha3_compress (m_blockSize s) (m_hash s) data\<rparr>"

section \<open>Feeding data\<close>

definition put_byte :: "sha3 \<Rightarrow> u8 \<Rightarrow> sha3" where
  "put_byte s b = s\<lparr>m_buffer := (m_buffer s)[m_bufferSize s := b], m_bufferSize := m_bufferSize s + 1\<rparr>"

fun fill_buffer :: "sha3 \<Rightarrow> bytes \<Rightarrow> sha3 \<times> bytes" where
  "fill_buffer s [] = (s, [])"
| "fill_buffer s (b # current) =
     (if m_bufferSize s < m_blockSize s then fill_buffer (put_byte s b) current else (s, b # current))"

definition flush_full :: "sha3 \<Rightarrow> sha3" where
  "flush_full s =
     (if m_bufferSize s = m_blockSize s
      then (processBlock s (m_buffer s))
        \<lparr>m_numBytes := m_numBytes s + of_nat (m_blockSize s), m_bufferSize := 0\<rparr>
      else s)"

definition direct_block :: "sha3 \<Rightarrow> bytes \<Rightarrow> sha3" where
  "direct_block s current =
     (processBlock s current)\<lparr>m_numBytes := m_numBytes s + of_nat (m_blockSize s)\<rparr>"

function process_blocks :: "sha3 \<Rightarrow> bytes \<Rightarrow> sha3 \<times> bytes" where
  "process_blocks s current =
     (if 0 < m_blockSize s \<and> m_blockSize s \<le> length current
      then process_blocks (direct_block s current) (drop (m_blockSize s) current)
      else (s, current))"
  by pat_completeness auto
termination
  by (relation "measure (\<lambda>(s, current). length current)") auto

declare process_blocks.simps [simp del]

definition add_data :: "sha3 \<Rightarrow> bytes \<Rightarrow> sha3" where
  "add_data s data =
     (let (s, current) = (if 0 < m_bufferSize s then fill_buffer s data else (s, data));
          s = flush_full s
      in if current = [] then s
         else (let (s, current) = process_blocks s current in foldl put_byte s current))"

section \<open>The digest\<close>

definition processBuffer :: "sha3 \<Rightarrow> sha3" where
  "processBuffer s =
     (let offset = m_bufferSize s;
          buf = (m_buffer s)[offset := 0x06];
          buf = foldl (\<lambda>b i. b[i := 0]) buf [offset + 1..<m_blockSize s];
          offset = max (offset + 1) (m_blockSize s);
          buf = buf[offset - 1 := buf ! (offset - 1) OR 0x80]
      in processBlock (s\<lparr>m_buffer := buf\<rparr>) buf)"

definition hex_byte_pair :: "u8 \<Rightarrow> string" where
  "hex_byte_pair oneByte =
     [''0123456789abcdef'' ! unat (drop_bit 4 oneByte), ''0123456789abcdef'' ! unat (oneByte AND 15)]"

definition digest_hex :: "nat \<Rightarrow> u64 list \<Rightarrow> string" where
  "digest_hex bits h =
     (let hashLength = bits div 64;
          remainder = bits - hashLength * 64
      in concat (map (\<lambda>i. concat (map (\<lambda>j. hex_byte_pair (ucast (drop_bit (8 * j) (h ! i)))) [0..<8]))
             [0..<hashLength])
         @ concat (map (\<lambda>p. hex_byte_pair (ucast (drop_bit (8 * p) (h ! hashLength))))
             [0..<(remainder + 7) div 8]))"

definition getHash :: "sha3 \<Rightarrow> string \<times> sha3" where
  "getHash s =
     (let oldHash = m_hash s;
          s' = processBuffer s;
          result = digest_hex (bits_value (m_bits s')) (m_hash s')
      in (result, s'\<lparr>m_hash := oldHash\<rparr>))"

definition sha3_call :: "sha3 \<Rightarrow> bytes \<Rightarrow> string \<times> sha3" where
  "sha3_call s data = getHash (add_data (reset s) data)"

text \<open>\<open>sha3(text)\<close> for a \<open>std::string\<close>, on a fresh object of the 256-bit variant.\<close>

definition sha3_256 :: "string \<Rightarrow> string" where
  "sha3_256 text = fst (sha3_call (SHA3_new [] Bits256) (bytes_of_string text))"

section \<open>The state invariant and the stream contract\<close>

definition rate :: "Bits \<Rightarrow> nat" where
  "rate bits = 200 - 2 * (bits_value bits div 8)"

definition pending3 :: "sha3 \<Rightarrow> bytes" where
  "pending3 s = take (m_bufferSize s) (m_buffer s)"

definition sha3_shape :: "Bits \<Rightarrow> sha3 \<Rightarrow> bool" where
  "sha3_shape bits s \<longleftrightarrow> m_bits s = bits \<and> m_blockSize s = rate bits \<and> length (m_buffer s) = MaxBlockSize
     \<and> length (m_hash s) = StateSize"

definition sha3_invar :: "Bits \<Rightarrow> sha3 \<Rightarrow> bool" where
  "sha3_invar bits s \<longleftrightarrow> sha3_shape bits s \<and> m_bufferSize s < rate bits"

lemma rate_facts [simp]:
  "0 < rate bits" "rate bits \<noteq> 0" "8 dvd rate bits" "rate bits < 200"
  by (cases bits; simp add: rate_def)+

lemma rate_le_MaxBlockSize: "rate bits \<le> MaxBlockSize"
  by (cases bits) (simp_all add: rate_def MaxBlockSize_def)

lemma StateSize_25 [simp]: "StateSize = 25"
  by (simp add: StateSize_def)

lemma length_xor_at [simp]: "length (xor_at one h i) = length h"
  by (simp add: xor_at_def)

lemma length_foldl_const:
  assumes "\<And>h i. length (f h i) = length h"
  shows "length (foldl f h is) = length h"
  using assms by (induction "is" arbitrary: h) auto

lemma length_theta [simp]: "length (theta h) = length h"
  by (simp add: theta_def Let_def length_foldl_const)

lemma length_rho_pi_fold:
  "length (fst (foldl (\<lambda>(h, last) (i, r). (h[i := rotateLeft last r], h ! i)) (h, l) steps)) = length h"
  by (induction steps arbitrary: h l) auto

lemma length_rho_pi [simp]: "length (rho_pi h) = length h"
  by (simp add: rho_pi_def length_rho_pi_fold)

lemma length_chi [simp]: "length (chi h) = length h"
  by (simp add: chi_def chi_row_def Let_def)

lemma length_keccak_round [simp]: "length (keccak_round h m) = length h"
  by (simp add: keccak_round_def iota_def)

lemma length_keccak_permute [simp]: "length (keccak_permute h) = length h"
  by (simp add: keccak_permute_def length_foldl_const)

lemma length_mix_block [simp]: "length (mix_block n h data) = length h"
  by (simp add: mix_block_def length_foldl_const)

lemma length_sha3_compress [simp]: "length (sha3_compress n h data) = length h"
  by (simp add: sha3_compress_def)

lemma foldl_cong_set:
  "(\<And>h i. i \<in> set is \<Longrightarrow> f h i = g h i) \<Longrightarrow> foldl f h is = foldl g h is"
  by (induction "is" arbitrary: h) auto

lemma mix_block_take: "mix_block n h (take n data) = mix_block n h data"
  unfolding mix_block_def
proof (rule foldl_cong_set)
  fix h :: "u64 list" and i
  assume "i \<in> set [0..<n div 8]"
  then have "8 * i + 8 \<le> n" by auto
  then have "take 8 (drop (8 * i) (take n data)) = take 8 (drop (8 * i) data)"
    by (simp add: drop_take min_def)
  then show "h[i := h ! i XOR load_le (take 8 (drop (8 * i) (take n data)))]
      = h[i := h ! i XOR load_le (take 8 (drop (8 * i) data))]"
    by simp
qed

lemma sha3_compress_take: "sha3_compress n h (take n data) = sha3_compress n h data"
  by (simp add: sha3_compress_def mix_block_take)

lemma put_byte_simps [stream_simps]:
  "m_hash (put_byte s b) = m_hash s" "m_blockSize (put_byte s b) = m_blockSize s"
  "m_bits (put_byte s b) = m_bits s" "m_bufferSize (put_byte s b) = m_bufferSize s + 1"
  "length (m_buffer (put_byte s b)) = length (m_buffer s)"
  "m_numBytes (put_byte s b) = m_numBytes s"
  by (simp_all add: put_byte_def)

lemma pending3_put_byte:
  "m_bufferSize s < length (m_buffer s) \<Longrightarrow> pending3 (put_byte s b) = pending3 s @ [b]"
  by (simp add: pending3_def put_byte_def take_Suc_conv_app_nth)

definition sha3_running :: "Bits \<Rightarrow> sha3 \<Rightarrow> bool" where
  "sha3_running bits s \<longleftrightarrow> sha3_shape bits s \<and> m_bufferSize s \<le> rate bits"

lemma length_pending3_running [simp]: "sha3_running bits s \<Longrightarrow> length (pending3 s) = m_bufferSize s"
  using rate_le_MaxBlockSize [of bits] by (simp add: sha3_running_def sha3_shape_def pending3_def)

lemma sha3_running_simps:
  "sha3_running bits s \<Longrightarrow> m_blockSize s = rate bits"
  "sha3_running bits s \<Longrightarrow> pending3 s = [] \<longleftrightarrow> m_bufferSize s = 0"
  by (simp add: sha3_running_def sha3_shape_def) (metis length_pending3_running length_0_conv)

lemma sha3_invar_running: "sha3_invar bits s \<longleftrightarrow> sha3_running bits s \<and> length (pending3 s) < rate bits"
proof (cases "sha3_running bits s")
  case True
  then show ?thesis
    using length_pending3_running [OF True] by (simp add: sha3_invar_def sha3_running_def)
qed (auto simp: sha3_invar_def sha3_running_def)

interpretation sha3_buffer: byte_buffer "rate bits" "sha3_compress (rate bits)" put_byte fill_buffer flush_full
  direct_block process_blocks add_data m_hash pending3 "sha3_running bits" for bits :: Bits
proof unfold_locales
  fix s :: sha3 and b :: u8 and xs :: bytes
  assume run: "sha3_running bits s"
  have le: "m_bufferSize s < length (m_buffer s)" if "m_bufferSize s < rate bits"
    using run that rate_le_MaxBlockSize [of bits] by (simp add: sha3_running_def sha3_shape_def)
  show "fill_buffer s (b # xs) = (if length (pending3 s) < rate bits then fill_buffer (put_byte s b) xs else (s, b # xs))"
    using run by (simp add: sha3_running_simps)
  show "process_blocks s xs = (if rate bits \<le> length xs
      then process_blocks (direct_block s xs) (drop (rate bits) xs) else (s, xs))"
    using run by (subst process_blocks.simps) (simp add: sha3_running_simps)
  show "add_data s xs = (let (s1, xs1) = if pending3 s \<noteq> [] then fill_buffer s xs else (s, xs);
      s2 = flush_full s1 in if xs1 = [] then s2 else let (s3, xs3) = process_blocks s2 xs1 in foldl put_byte s3 xs3)"
    using run by (simp add: add_data_def sha3_running_simps)
  show "sha3_running bits (put_byte s b) \<and> m_hash (put_byte s b) = m_hash s \<and> pending3 (put_byte s b) = pending3 s @ [b]"
    if "length (pending3 s) < rate bits"
    using that run le by (simp add: pending3_put_byte stream_simps sha3_running_def sha3_shape_def length_pending3_running [OF run])
  show "flush_full s = s" if "length (pending3 s) < rate bits"
    using that run by (simp add: flush_full_def sha3_running_simps)
  show "sha3_running bits (flush_full s) \<and> m_hash (flush_full s) = sha3_compress (rate bits) (m_hash s) (pending3 s)
      \<and> pending3 (flush_full s) = []" if "length (pending3 s) = rate bits"
    using that run length_pending3_running [OF run]
    by (simp add: flush_full_def sha3_running_def sha3_shape_def pending3_def processBlock_def sha3_compress_take)
  show "sha3_running bits (direct_block s xs) \<and> m_hash (direct_block s xs) = sha3_compress (rate bits) (m_hash s) (take (rate bits) xs)
      \<and> pending3 (direct_block s xs) = []" if "pending3 s = []"
    using that run by (simp add: direct_block_def sha3_running_def sha3_shape_def pending3_def processBlock_def sha3_compress_take)
qed simp_all

interpretation sha3_stream: block_stream "rate bits" "sha3_compress (rate bits)" add_data m_hash pending3
  "sha3_invar bits" for bits :: Bits
proof -
  have "sha3_invar bits = (\<lambda>s. sha3_running bits s \<and> length (pending3 s) < rate bits)"
    by (rule ext) (rule sha3_invar_running)
  then show "block_stream (rate bits) (sha3_compress (rate bits)) add_data m_hash pending3 (sha3_invar bits)"
    using sha3_buffer.block_stream_axioms by simp
qed

section \<open>Reference digest\<close>

text \<open>
  FIPS 202 on whole messages: append the domain bits and the padding, absorb every block and
  print the first words of the state.
\<close>

definition sha3_padding :: "nat \<Rightarrow> nat \<Rightarrow> bytes" where
  "sha3_padding r n = (if n + 1 = r then [0x86] else 0x06 # replicate (r - 2 - n) 0 @ [0x80])"

definition sha3_reference :: "Bits \<Rightarrow> bytes \<Rightarrow> string" where
  "sha3_reference bits msg =
     digest_hex (bits_value bits)
       (fst (absorb (rate bits) (sha3_compress (rate bits)) (replicate StateSize 0)
         (msg @ sha3_padding (rate bits) (length msg mod rate bits))))"

lemma length_foldl_clear [simp]: "length (foldl (\<lambda>b i. b[i := 0]) b is) = length b"
  by (induction "is" arbitrary: b) auto

lemma foldl_clear_nth:
  "i < length b \<Longrightarrow> foldl (\<lambda>b i. b[i := 0]) b [m..<r] ! i = (if m \<le> i \<and> i < r then 0 else b ! i)"
  by (induction r) (auto simp: nth_list_update less_Suc_eq)

lemma length_sha3_padding: "n < r \<Longrightarrow> length (sha3_padding r n) = r - n"
  by (auto simp: sha3_padding_def)

lemma sha3_padding_nth:
  "n < r \<Longrightarrow> i < r - n \<Longrightarrow> sha3_padding r n ! i =
     (if n + 1 = r then 0x86 else if i = 0 then 0x06 else if i = r - n - 1 then 0x80 else 0)"
  by (auto simp: sha3_padding_def nth_Cons nth_append split: nat.splits)

lemma padded_buffer:
  assumes "n < r" and "r \<le> length buf"
  defines "buf1 \<equiv> foldl (\<lambda>b i. b[i := 0]) (buf[n := 0x06]) [n + 1..<r]"
  shows "take r (buf1[r - 1 := buf1 ! (r - 1) OR 0x80]) = take n buf @ sha3_padding r n"
proof (rule nth_equalityI)
  show "length (take r (buf1[r - 1 := buf1 ! (r - 1) OR 0x80])) = length (take n buf @ sha3_padding r n)"
    using assms by (simp add: buf1_def length_sha3_padding)
next
  fix i
  assume "i < length (take r (buf1[r - 1 := buf1 ! (r - 1) OR 0x80]))"
  then have i: "i < r" "i < length buf" using assms(2) by (auto simp: buf1_def)
  have b1: "buf1 ! j = (if n + 1 \<le> j then 0 else if j = n then 0x06 else buf ! j)" if "j < r" for j
    using that assms(1,2) by (auto simp: buf1_def foldl_clear_nth nth_list_update)
  have len: "r - 1 < length buf1" using assms by (simp add: buf1_def)
  show "take r (buf1[r - 1 := buf1 ! (r - 1) OR 0x80]) ! i = (take n buf @ sha3_padding r n) ! i"
  proof (cases "i < n")
    case True
    then show ?thesis using i b1 [of i] assms(1) by (auto simp: nth_append)
  next
    case False
    then have "(take n buf @ sha3_padding r n) ! i = sha3_padding r n ! (i - n)"
      using assms(1,2) by (simp add: nth_append)
    then show ?thesis
      using False i b1 [of i] b1 [of "r - 1"] len assms(1)
      by (auto simp: sha3_padding_nth nth_list_update)
  qed
qed

lemma processBuffer_hash:
  assumes "sha3_invar bits s"
  shows "m_hash (processBuffer s) =
      sha3_compress (rate bits) (m_hash s) (pending3 s @ sha3_padding (rate bits) (m_bufferSize s))"
proof -
  have sh: "m_blockSize s = rate bits" "length (m_buffer s) = MaxBlockSize" "m_bufferSize s < rate bits"
    using assms by (auto simp: sha3_invar_def sha3_shape_def)
  let ?b1 = "foldl (\<lambda>b i. b[i := 0]) ((m_buffer s)[m_bufferSize s := 0x06]) [m_bufferSize s + 1..<rate bits]"
  let ?b = "?b1[rate bits - 1 := ?b1 ! (rate bits - 1) OR 0x80]"
  have "m_hash (processBuffer s) = sha3_compress (rate bits) (m_hash s) ?b"
    using sh by (simp add: processBuffer_def processBlock_def Let_def max_def)
  also have "\<dots> = sha3_compress (rate bits) (m_hash s) (take (rate bits) ?b)"
    by (rule sha3_compress_take [symmetric])
  also have "take (rate bits) ?b = pending3 s @ sha3_padding (rate bits) (m_bufferSize s)"
    unfolding pending3_def using sh rate_le_MaxBlockSize [of bits] by (intro padded_buffer) simp_all
  finally show ?thesis .
qed

lemma length_pending3: "sha3_invar bits s \<Longrightarrow> length (pending3 s) = m_bufferSize s"
  using rate_le_MaxBlockSize [of bits] by (simp add: sha3_invar_def sha3_shape_def pending3_def)

lemma getHash_digest:
  assumes "sha3_invar bits s"
  shows "fst (getHash s) = digest_hex (bits_value bits)
      (fst (absorb (rate bits) (sha3_compress (rate bits)) (m_hash s)
        (pending3 s @ sha3_padding (rate bits) (length (pending3 s)))))"
proof -
  have lt: "m_bufferSize s < rate bits" and bits: "m_bits (processBuffer s) = bits"
    using assms by (auto simp: sha3_invar_def sha3_shape_def processBuffer_def processBlock_def Let_def)
  let ?blk = "pending3 s @ sha3_padding (rate bits) (m_bufferSize s)"
  have "length ?blk = rate bits"
    using lt length_pending3 [OF assms] by (simp add: length_sha3_padding)
  from absorb_exact [OF _ this, of "sha3_compress (rate bits)" "m_hash s" "[]"]
  have "absorb (rate bits) (sha3_compress (rate bits)) (m_hash s) ?blk
      = (sha3_compress (rate bits) (m_hash s) ?blk, [])"
    by (simp add: absorb_short)
  then show ?thesis
    using bits processBuffer_hash [OF assms] length_pending3 [OF assms]
    by (simp add: getHash_def Let_def)
qed

lemma getHash_keeps_stream:
  assumes "sha3_invar bits s"
  shows "sha3_invar bits (snd (getHash s))" and "m_hash (snd (getHash s)) = m_hash s"
    and "pending3 (snd (getHash s)) = pending3 s"
proof -
  have sh: "m_blockSize s = rate bits" "length (m_buffer s) = MaxBlockSize" "m_bufferSize s < rate bits"
    using assms by (auto simp: sha3_invar_def sha3_shape_def)
  show "m_hash (snd (getHash s)) = m_hash s" by (simp add: getHash_def Let_def)
  show "sha3_invar bits (snd (getHash s))"
    using assms by (simp add: getHash_def processBuffer_def processBlock_def Let_def sha3_invar_def sha3_shape_def)
  let ?b1 = "foldl (\<lambda>b i. b[i := 0]) ((m_buffer s)[m_bufferSize s := 0x06]) [m_bufferSize s + 1..<rate bits]"
  have "take (m_bufferSize s) (?b1[rate bits - 1 := x]) = take (m_bufferSize s) (m_buffer s)" for x
    using sh by (intro nth_equalityI) (auto simp: foldl_clear_nth nth_list_update)
  then show "pending3 (snd (getHash s)) = pending3 s"
    using sh by (simp add: getHash_def processBuffer_def processBlock_def Let_def pending3_def max_def)
qed

lemma sha3_invar_reset: "sha3_shape bits s \<Longrightarrow> sha3_invar bits (reset s)"
  by (simp add: sha3_invar_def sha3_shape_def reset_def)

lemma reset_fields [simp]:
  "m_hash (reset s) = replicate StateSize 0" "pending3 (reset s) = []"
  by (simp_all add: reset_def pending3_def)

lemma sha3_invar_shape: "sha3_invar bits s \<Longrightarrow> sha3_shape bits s"
  by (simp add: sha3_invar_def)

lemma sha3_invar_new: "sha3_invar bits (SHA3_new garbage bits)"
  by (simp add: SHA3_new_def reset_def sha3_invar_def sha3_shape_def rate_def [symmetric])

lemma getHash_stream_reference:
  assumes "sha3_invar bits s" and "m_hash s = fst st" and "pending3 s = snd st"
    and "st = absorb (rate bits) (sha3_compress (rate bits)) (replicate StateSize 0) msg"
  shows "fst (getHash s) = sha3_reference bits msg"
proof -
  have "length (pending3 s) = length msg mod rate bits"
    using assms(3,4) by (simp add: absorb_rest_drop)
  moreover have "absorb (rate bits) (sha3_compress (rate bits)) (replicate StateSize 0) (msg @ p)
      = absorb (rate bits) (sha3_compress (rate bits)) (m_hash s) (pending3 s @ p)" for p
    using assms(2-4) absorb_append [of "rate bits" "sha3_compress (rate bits)" "replicate StateSize 0" msg p]
    by (simp add: split_beta)
  ultimately show ?thesis
    using getHash_digest [OF assms(1)] by (simp add: sha3_reference_def)
qed

lemma sha3_call_reference:
  assumes "sha3_shape bits s"
  shows "fst (sha3_call s data) = sha3_reference bits data"
  unfolding sha3_call_def
proof (rule getHash_stream_reference)
  let ?s = "reset s"
  have inv: "sha3_invar bits ?s" using assms by (rule sha3_invar_reset)
  show "sha3_invar bits (add_data ?s data)" using inv by (rule sha3_stream.invar_feed)
  show "m_hash (add_data ?s data) = fst (absorb (rate bits) (sha3_compress (rate bits)) (replicate StateSize 0) data)"
    and "pending3 (add_data ?s data) = snd (absorb (rate bits) (sha3_compress (rate bits)) (replicate StateSize 0) data)"
    using sha3_stream.chain_feed [OF inv, of data] sha3_stream.pending_feed [OF inv, of data] by simp_all
qed (rule refl)

lemma SHA3_new_view [simp]:
  "m_hash (SHA3_new garbage bits) = replicate StateSize 0" "pending3 (SHA3_new garbage bits) = []"
  by (simp_all add: SHA3_new_def)

lemma getHash_chunks:
  "fst (getHash (foldl add_data (SHA3_new garbage bits) chunks)) = sha3_reference bits (concat chunks)"
  using sha3_stream.feeds_absorb [OF sha3_invar_new, of garbage bits chunks]
  by (intro getHash_stream_reference [OF sha3_stream.invar_feeds [OF sha3_invar_new] _ _ refl]) (auto dest: arg_cong [where f = fst] arg_cong [where f = snd])

lemma length_digest_hex: "length (digest_hex bits h) = 16 * (bits div 64) + 2 * ((bits mod 64 + 7) div 8)"
proof -
  have [simp]: "length (hex_byte_pair b) = 2" for b by (simp add: hex_byte_pair_def)
  have *: "length (concat (map f xs)) = k * length xs" if "\<And>x. length (f x) = k" for f :: "nat \<Rightarrow> string" and xs k
    using that by (induction xs) auto
  have "bits - bits div 64 * 64 = bits mod 64" by (simp add: minus_div_mult_eq_mod)
  then show ?thesis by (simp add: digest_hex_def Let_def *)
qed

section \<open>Properties\<close>



text \<open>
  Feeding a message in any number of \<open>add\<close> calls gives the digest of the concatenation,
  and asking for the digest in between (\<open>getHash\<close>) does not disturb the stream.
\<close>

lemma sha3_chunks_and_peeking:
  fixes bits :: Bits and garbage :: bytes and chunks more :: "bytes list"
  defines "s \<equiv> foldl add_data (SHA3_new garbage bits) chunks"
  shows "fst (getHash s) = sha3_reference bits (concat chunks)
    \<and> fst (getHash (foldl add_data (snd (getHash s)) more)) = sha3_reference bits (concat chunks @ concat more)"
proof
  have inv: "sha3_invar bits s"
    unfolding s_def by (rule sha3_stream.invar_feeds [OF sha3_invar_new])
  show "fst (getHash s) = sha3_reference bits (concat chunks)"
    unfolding s_def by (rule getHash_chunks)
  let ?g = "snd (getHash s)"
  note g = getHash_keeps_stream [OF inv]
  have "fst (getHash (foldl add_data ?g more)) = fst (getHash (foldl add_data s more))"
    using sha3_stream.feeds_same_view [OF g(1) inv g(2,3), of more]
      sha3_stream.invar_feeds [OF g(1), of more] sha3_stream.invar_feeds [OF inv, of more]
    by (simp add: getHash_digest)
  also have "\<dots> = fst (getHash (foldl add_data (SHA3_new garbage bits) (chunks @ more)))"
    by (simp add: s_def)
  also have "\<dots> = sha3_reference bits (concat chunks @ concat more)"
    using getHash_chunks [of garbage bits "chunks @ more"] by simp
  finally show "fst (getHash (foldl add_data ?g more)) = sha3_reference bits (concat chunks @ concat more)" .
qed

end
