(* ===== verification/Kec256.thy ===== *)
theory Kec256
  imports Sha3
begin

text \<open>
  The class \<open>kec256\<close> of \<open>crypto/keccak/kec256.h\<close> and \<open>crypto/keccak/kec256.cpp\<close>, a second and
  independent Keccak: the state is a 5 by 5 matrix, the round constants come from a shift
  register, and bytes are mixed in one at a time. The theory relates it to \<open>processBlock\<close> of
  the class \<open>SHA3\<close>, which works in place on 25 words.

  \<open>rotl64(x, i)\<close> evaluates \<open>x >> (64 - i)\<close>; at \<open>i = 0\<close> (which \<open>ROTATION[0][0]\<close> causes in every
  round) the shift by 64 is undefined in C++. What the machine produces for it is the
  parameter \<open>shr64\<close>; theorems that depend on it ask that it is a bit pattern contained in \<open>x\<close>
  (hardware gives \<open>x\<close> or 0).
\<close>

section \<open>Definitions\<close>

definition HASH_LEN :: nat where "HASH_LEN = 32"
definition BLOCK_SIZE :: nat where "BLOCK_SIZE = 200 - HASH_LEN * 2"
definition NUM_ROUNDS :: nat where "NUM_ROUNDS = 24"

type_synonym matrix = "u64 list list"

definition ROTATION :: "nat list list" where
  "ROTATION = [
     [ 0, 36,  3, 41, 18],
     [ 1, 44, 10, 45,  2],
     [62,  6, 43, 15, 61],
     [28, 55, 25, 21, 56],
     [27, 20, 39,  8, 14]]"

definition rotl64 :: "(u64 \<Rightarrow> u64) \<Rightarrow> u64 \<Rightarrow> nat \<Rightarrow> u64" where
  "rotl64 shr64 x i = push_bit i x OR (if i = 0 then shr64 x else drop_bit (64 - i) x)"

definition matrix_of :: "(nat \<Rightarrow> nat \<Rightarrow> u64) \<Rightarrow> matrix" where
  "matrix_of f = map (\<lambda>x. map (f x) [0..<5]) [0..<5]"

definition kec_theta :: "(u64 \<Rightarrow> u64) \<Rightarrow> matrix \<Rightarrow> matrix" where
  "kec_theta shr64 a =
     (let c = map (\<lambda>x. foldl (\<lambda>acc y. acc XOR a ! x ! y) 0 [0..<5]) [0..<5]
      in matrix_of (\<lambda>x y.
           let d = c ! ((x + 4) mod 5) XOR rotl64 shr64 (c ! ((x + 1) mod 5)) 1
           in a ! x ! y XOR d))"

definition kec_rho_pi :: "(u64 \<Rightarrow> u64) \<Rightarrow> matrix \<Rightarrow> matrix" where
  "kec_rho_pi shr64 a =
     foldl (\<lambda>b (x, y).
         let row = b ! y in b[y := row[(x * 2 + y * 3) mod 5 := rotl64 shr64 (a ! x ! y) (ROTATION ! x ! y)]])
       (matrix_of (\<lambda>x y. 0)) (List.product [0..<5] [0..<5])"

definition kec_chi :: "matrix \<Rightarrow> matrix" where
  "kec_chi b = matrix_of (\<lambda>x y. b ! x ! y XOR (NOT (b ! ((x + 1) mod 5) ! y) AND b ! ((x + 2) mod 5) ! y))"

definition lfsr_step :: "u8 \<Rightarrow> u8" where
  "lfsr_step r = ucast (push_bit 1 (ucast r :: u32) XOR drop_bit 7 (ucast r :: u32) * 0x171)"

definition kec_iota_step :: "u64 \<times> u8 \<Rightarrow> nat \<Rightarrow> u64 \<times> u8" where
  "kec_iota_step s j = (case s of (a00, r) \<Rightarrow>
     (a00 XOR push_bit (2 ^ j - 1) (ucast (r AND 1)), lfsr_step r))"

definition kec_iota :: "matrix \<times> u8 \<Rightarrow> matrix \<times> u8" where
  "kec_iota s = (case s of (a, r) \<Rightarrow>
     (case foldl kec_iota_step (a ! 0 ! 0, r) [0..<7] of (a00, r') \<Rightarrow> (a[0 := (a ! 0)[0 := a00]], r')))"

definition kec_round :: "(u64 \<Rightarrow> u64) \<Rightarrow> matrix \<times> u8 \<Rightarrow> matrix \<times> u8" where
  "kec_round shr64 s = (case s of (a, r) \<Rightarrow>
     kec_iota (kec_chi (kec_rho_pi shr64 (kec_theta shr64 a)), r))"

definition kec_absorb :: "(u64 \<Rightarrow> u64) \<Rightarrow> matrix \<Rightarrow> matrix" where
  "kec_absorb shr64 state = fst (((kec_round shr64) ^^ NUM_ROUNDS) (state, 1))"

definition kec_xor_byte :: "matrix \<Rightarrow> nat \<Rightarrow> u64 \<Rightarrow> matrix" where
  "kec_xor_byte state blockOff b =
     (let j = blockOff div 8; x = j mod 5; y = j div 5
      in state[x := (state ! x)[y := state ! x ! y XOR push_bit ((blockOff mod 8) * 8) b]])"

fun kec_feed :: "(u64 \<Rightarrow> u64) \<Rightarrow> matrix \<Rightarrow> nat \<Rightarrow> bytes \<Rightarrow> matrix \<times> nat" where
  "kec_feed shr64 state blockOff [] = (state, blockOff)"
| "kec_feed shr64 state blockOff (b # msg) =
     (let state = kec_xor_byte state blockOff (ucast b);
          blockOff = blockOff + 1
      in if blockOff = BLOCK_SIZE then kec_feed shr64 (kec_absorb shr64 state) 0 msg
         else kec_feed shr64 state blockOff msg)"

definition kec_squeeze :: "matrix \<Rightarrow> bytes" where
  "kec_squeeze state =
     map (\<lambda>i. let j = i div 8 in ucast (drop_bit ((i mod 8) * 8) (state ! (j mod 5) ! (j div 5)))) [0..<HASH_LEN]"

text \<open>
  \<open>getHash(str, len)\<close> reads the first \<open>len\<close> bytes of the message; more than its size would read
  past the vector (\<open>None\<close>).
\<close>

definition kec_getHash :: "(u64 \<Rightarrow> u64) \<Rightarrow> string \<Rightarrow> nat \<Rightarrow> string option" where
  "kec_getHash shr64 str len =
     (if length str < len then None
      else (let msg = bytes_of_string str;
                (state, blockOff) = kec_feed shr64 (matrix_of (\<lambda>x y. 0)) 0 (take len msg);
                state = kec_xor_byte state blockOff 0x01;
                state = kec_xor_byte state (BLOCK_SIZE - 1) 0x80;
                state = kec_absorb shr64 state
            in Some (bytes_to_hex (kec_squeeze state))))"

section \<open>The two permutations agree\<close>

definition flat :: "matrix \<Rightarrow> u64 list" where
  "flat a = map (\<lambda>i. a ! (i mod 5) ! (i div 5)) [0..<25]"

definition is_matrix :: "matrix \<Rightarrow> bool" where
  "is_matrix a \<longleftrightarrow> length a = 5 \<and> (\<forall>row \<in> set a. length row = 5)"

definition faithful_shift :: "(u64 \<Rightarrow> u64) \<Rightarrow> bool" where
  "faithful_shift shr64 \<longleftrightarrow> (\<forall>x. x OR shr64 x = x)"

lemma is_matrixE:
  assumes "is_matrix a"
  obtains a00 a01 a02 a03 a04 a10 a11 a12 a13 a14 a20 a21 a22 a23 a24 a30 a31 a32 a33 a34 a40 a41 a42 a43 a44
  where "a = [[a00, a01, a02, a03, a04], [a10, a11, a12, a13, a14], [a20, a21, a22, a23, a24],
    [a30, a31, a32, a33, a34], [a40, a41, a42, a43, a44]]"
  using assms by (auto simp: is_matrix_def numeral_eq_Suc length_Suc_conv)

lemma upt_0_5: "[0..<5] = [0, 1, 2, 3, 4::nat]"
  by (simp add: upt_rec)

lemma upt_0_25: "[0..<25] = [0, 1, 2, 3, 4, 5, 6, 7, 8, 9, 10, 11, 12, 13, 14, 15, 16, 17, 18, 19, 20, 21, 22, 23, 24::nat]"
  by (simp add: upt_rec)

lemma rotl64_rotateLeft: "0 < i \<Longrightarrow> rotl64 sh x i = rotateLeft x i"
  by (simp add: rotl64_def rotateLeft_def)

lemma rotl64_zero: "faithful_shift sh \<Longrightarrow> rotl64 sh x 0 = x"
  by (simp add: rotl64_def faithful_shift_def)

lemmas matrix_simps = upt_0_5 upt_0_25 matrix_of_def flat_def

lemma is_matrix_matrix_of [simp]: "is_matrix (matrix_of f)"
  by (auto simp: is_matrix_def matrix_of_def)

lemma theta_flat: "is_matrix a \<Longrightarrow> theta (flat a) = flat (kec_theta sh a)"
  by (elim is_matrixE)
    (simp add: theta_def kec_theta_def matrix_simps xor_at_def mod5_def rotl64_rotateLeft Let_def xor.assoc)

lemma rho_pi_flat:
  "is_matrix a \<Longrightarrow> faithful_shift sh \<Longrightarrow> rho_pi (flat a) = flat (kec_rho_pi sh a)"
  by (elim is_matrixE)
    (simp add: rho_pi_def rho_pi_steps_def kec_rho_pi_def matrix_simps ROTATION_def
      rotl64_rotateLeft rotl64_zero Let_def product_code)

lemma chi_flat: "is_matrix b \<Longrightarrow> chi (flat b) = flat (kec_chi b)"
  by (elim is_matrixE)
    (simp add: chi_def chi_row_def kec_chi_def matrix_simps Let_def ac_simps)

lemma is_matrix_rho_pi: "is_matrix a \<Longrightarrow> is_matrix (kec_rho_pi sh a)"
  by (elim is_matrixE)
    (simp add: kec_rho_pi_def matrix_simps ROTATION_def Let_def is_matrix_def)

subsection \<open>Round constants\<close>

definition round_constant :: "u8 \<Rightarrow> u64" where
  "round_constant r = fst (foldl kec_iota_step (0, r) [0..<7])"

definition next_register :: "u8 \<Rightarrow> u8" where
  "next_register r = snd (foldl kec_iota_step (0, r) [0..<7])"

primrec round_constants :: "nat \<Rightarrow> u8 \<Rightarrow> u64 list" where
  "round_constants 0 r = []"
| "round_constants (Suc n) r = round_constant r # round_constants n (next_register r)"

lemma kec_iota_step_shift:
  "foldl kec_iota_step (x, r) js =
     (x XOR fst (foldl kec_iota_step (0, r) js), snd (foldl kec_iota_step (0, r) js))"
proof (induction js arbitrary: x r)
  case (Cons j js)
  let ?m = "push_bit (2 ^ j - 1) (ucast (r AND 1)) :: u64"
  have "foldl kec_iota_step (x, r) (j # js) = foldl kec_iota_step (x XOR ?m, lfsr_step r) js" for x
    by (simp add: kec_iota_step_def)
  from this [of x] this [of 0] show ?case
    using Cons.IH [of "x XOR ?m" "lfsr_step r"] Cons.IH [of ?m "lfsr_step r"] by (simp add: xor.assoc)
qed simp

lemma kec_iota_eq:
  "kec_iota (a, r) = (a[0 := (a ! 0)[0 := a ! 0 ! 0 XOR round_constant r]], next_register r)"
  using kec_iota_step_shift [of "a ! 0 ! 0" r "[0..<7]"]
  by (simp add: kec_iota_def round_constant_def next_register_def)

lemma upt_0_7: "[0..<7] = [0, 1, 2, 3, 4, 5, 6::nat]"
  by (simp add: upt_rec)

lemma lfsr_rounds:
  "round_constant 1 = 0x0000000000000001" "next_register 1 = 128"
  "round_constant 128 = 0x0000000000008082" "next_register 128 = 216"
  "round_constant 216 = 0x800000000000808a" "next_register 216 = 26"
  "round_constant 26 = 0x8000000080008000" "next_register 26 = 223"
  "round_constant 223 = 0x000000000000808b" "next_register 223 = 9"
  "round_constant 9 = 0x0000000080000001" "next_register 9 = 53"
  "round_constant 53 = 0x8000000080008081" "next_register 53 = 79"
  "round_constant 79 = 0x8000000000008009" "next_register 79 = 202"
  "round_constant 202 = 0x000000000000008a" "next_register 202 = 112"
  "round_constant 112 = 0x0000000000000088" "next_register 112 = 65"
  "round_constant 65 = 0x0000000080008009" "next_register 65 = 236"
  "round_constant 236 = 0x000000008000000a" "next_register 236 = 213"
  "round_constant 213 = 0x000000008000808b" "next_register 213 = 205"
  "round_constant 205 = 0x800000000000008b" "next_register 205 = 99"
  "round_constant 99 = 0x8000000000008089" "next_register 99 = 171"
  "round_constant 171 = 0x8000000000008003" "next_register 171 = 170"
  "round_constant 170 = 0x8000000000008002" "next_register 170 = 42"
  "round_constant 42 = 0x8000000000000080" "next_register 42 = 242"
  "round_constant 242 = 0x000000000000800a" "next_register 242 = 232"
  "round_constant 232 = 0x800000008000000a" "next_register 232 = 55"
  "round_constant 55 = 0x8000000080008081" "next_register 55 = 62"
  "round_constant 62 = 0x8000000000008080" "next_register 62 = 11"
  "round_constant 11 = 0x0000000080000001" "next_register 11 = 68"
  "round_constant 68 = 0x8000000080008008" "next_register 68 = 142"
  by (simp_all add: round_constant_def next_register_def upt_0_7 kec_iota_step_def lfsr_step_def)

lemma lfsr_generates_XorMasks: "round_constants 24 1 = XorMasks"
  by (simp add: eval_nat_numeral lfsr_rounds XorMasks_def)

lemma iota_flat: "is_matrix a \<Longrightarrow> iota m (flat a) = flat (a[0 := (a ! 0)[0 := a ! 0 ! 0 XOR m]])"
  by (elim is_matrixE) (simp add: iota_def matrix_simps)

lemma is_matrix_update: "is_matrix a \<Longrightarrow> is_matrix (a[x := (a ! x)[y := v]])"
  by (elim is_matrixE) (auto simp: is_matrix_def dest!: set_update_subset_insert [THEN subsetD]
      simp: nth_Cons split: nat.splits)

lemma kec_round_flat:
  assumes "is_matrix a" and "faithful_shift sh"
  shows "flat (fst (kec_round sh (a, r))) = keccak_round (flat a) (round_constant r)"
    and "is_matrix (fst (kec_round sh (a, r)))" and "snd (kec_round sh (a, r)) = next_register r"
proof -
  have th: "is_matrix (kec_theta sh a)" by (simp add: kec_theta_def Let_def)
  have ch: "is_matrix (kec_chi b)" for b by (simp add: kec_chi_def)
  show "flat (fst (kec_round sh (a, r))) = keccak_round (flat a) (round_constant r)"
    using assms th ch
    by (simp add: kec_round_def kec_iota_eq keccak_round_def iota_flat [symmetric] chi_flat [symmetric]
        is_matrix_rho_pi rho_pi_flat [symmetric] theta_flat [symmetric])
  show "is_matrix (fst (kec_round sh (a, r)))" "snd (kec_round sh (a, r)) = next_register r"
    using ch by (simp_all add: kec_round_def kec_iota_eq is_matrix_update)
qed

lemma kec_rounds_flat:
  "is_matrix a \<Longrightarrow> faithful_shift sh \<Longrightarrow>
     flat (fst ((kec_round sh ^^ n) (a, r))) = foldl keccak_round (flat a) (round_constants n r)
     \<and> is_matrix (fst ((kec_round sh ^^ n) (a, r)))"
proof (induction n arbitrary: a r)
  case (Suc n)
  obtain a' r' where step: "kec_round sh (a, r) = (a', r')" by (cases "kec_round sh (a, r)")
  with kec_round_flat [OF Suc.prems, of r]
  have "flat a' = keccak_round (flat a) (round_constant r)" "is_matrix a'" "r' = next_register r"
    by simp_all
  with Suc.IH [of a' r'] Suc.prems(2) step show ?case
    by (simp add: funpow_swap1)
qed simp

lemma kec_absorb_flat:
  assumes "is_matrix a" and "faithful_shift sh"
  shows "flat (kec_absorb sh a) = keccak_permute (flat a)" and "is_matrix (kec_absorb sh a)"
  using kec_rounds_flat [OF assms, of 24 1] lfsr_generates_XorMasks
  by (simp_all add: kec_absorb_def NUM_ROUNDS_def keccak_permute_def)

subsection \<open>Mixing bytes and mixing words\<close>

definition xor_byte :: "u64 list \<Rightarrow> nat \<Rightarrow> u64 \<Rightarrow> u64 list" where
  "xor_byte h off b = h[off div 8 := h ! (off div 8) XOR push_bit (off mod 8 * 8) b]"

fun xor_bytes :: "u64 list \<Rightarrow> nat \<Rightarrow> bytes \<Rightarrow> u64 list" where
  "xor_bytes h off [] = h"
| "xor_bytes h off (b # bs) = xor_bytes (xor_byte h off (ucast b)) (off + 1) bs"

lemma length_xor_bytes [simp]: "length (xor_bytes h off bs) = length h"
  by (induction h off bs rule: xor_bytes.induct) (simp_all add: xor_byte_def)

lemma xor_bytes_append: "xor_bytes h off (xs @ ys) = xor_bytes (xor_bytes h off xs) (off + length xs) ys"
  by (induction h off xs rule: xor_bytes.induct) simp_all

lemma xor_bytes_zeros: "xor_bytes h off (replicate n 0) = h"
  by (induction n arbitrary: off) (simp_all add: xor_byte_def)

lemma flat_nth: "i < 25 \<Longrightarrow> flat a ! i = a ! (i mod 5) ! (i div 5)"
  by (simp add: flat_def)

lemma length_flat [simp]: "length (flat a) = 25"
  by (simp add: flat_def)

lemma flat_update:
  assumes "is_matrix a" and "j < 25"
  shows "flat (a[j mod 5 := (a ! (j mod 5))[j div 5 := v]]) = (flat a)[j := v]"
proof (rule nth_equalityI)
  fix i
  assume "i < length (flat (a[j mod 5 := (a ! (j mod 5))[j div 5 := v]]))"
  then have i: "i < 25" by simp
  have len: "length a = 5" "length (a ! (j mod 5)) = 5"
    using assms(1) by (auto simp: is_matrix_def)
  have eq: "i = j" if "i mod 5 = j mod 5" "i div 5 = j div 5"
    using that by (metis div_mult_mod_eq)
  have "j div 5 < 5" using assms(2) by linarith
  then show "flat (a[j mod 5 := (a ! (j mod 5))[j div 5 := v]]) ! i = (flat a)[j := v] ! i"
    using i len eq by (auto simp: flat_nth nth_list_update)
qed simp

lemma kec_xor_byte_flat:
  assumes "is_matrix a" and "off < 200"
  shows "flat (kec_xor_byte a off b) = xor_byte (flat a) off b" and "is_matrix (kec_xor_byte a off b)"
proof -
  have j: "off div 8 < 25" using assms(2) by linarith
  show "flat (kec_xor_byte a off b) = xor_byte (flat a) off b"
    using flat_update [OF assms(1) j] j by (simp add: kec_xor_byte_def xor_byte_def Let_def flat_nth)
  show "is_matrix (kec_xor_byte a off b)"
    using assms(1) by (simp add: kec_xor_byte_def Let_def is_matrix_update)
qed

lemma push_8_or_byte: "push_bit 8 (x :: u64) OR ucast (b :: u8) = push_bit 8 x XOR ucast b"
  by (rule bit_eqI) (auto simp: bit_simps not_le dest: bit_imp_le_length)

lemma load_le_Cons: "load_le (b # bs) = push_bit 8 (load_le bs) XOR ucast b"
  by (simp add: load_le_def push_8_or_byte)

lemma xor_bytes_word:
  assumes "length blk = 8" and "n < length h"
  shows "xor_bytes h (8 * n) blk = h[n := h ! n XOR load_le blk]"
proof -
  obtain b0 b1 b2 b3 b4 b5 b6 b7 where blk: "blk = [b0, b1, b2, b3, b4, b5, b6, b7]"
    using assms(1) by (auto simp: numeral_eq_Suc length_Suc_conv)
  have ix: "(8 * n + k) div 8 = n" "(8 * n + k) mod 8 = k" if "k < 8" for k :: nat
    using that by (simp_all add: div_add1_eq mod_add_eq)
  have off: "xor_byte g (8 * n + k) b = g[n := g ! n XOR push_bit (k * 8) b]" if "k < 8" for g k b
    using ix [OF that] by (simp add: xor_byte_def)
  have "xor_bytes h (8 * n + 0) blk = h[n := h ! n XOR ucast b0 XOR push_bit 8 (ucast b1) XOR push_bit 16 (ucast b2)
      XOR push_bit 24 (ucast b3) XOR push_bit 32 (ucast b4) XOR push_bit 40 (ucast b5) XOR push_bit 48 (ucast b6)
      XOR push_bit 56 (ucast b7)]"
    using assms(2) off [of 0] off [of 1] off [of 2] off [of 3] off [of 4] off [of 5] off [of 6] off [of 7]
    by (simp add: blk add.assoc xor.assoc eval_nat_numeral)
  then show ?thesis
    by (simp add: blk load_le_Cons push_bit_xor push_bit_push_bit) (simp add: load_le_def ac_simps)
qed

lemma mix_block_bytes:
  "length blk = 8 * n \<Longrightarrow> n \<le> length h \<Longrightarrow> mix_block (8 * n) h blk = xor_bytes h 0 blk"
proof (induction n arbitrary: blk)
  case (Suc n)
  let ?front = "take (8 * n) blk" and ?w = "drop (8 * n) blk"
  have len: "length ?front = 8 * n" "length ?w = 8" using Suc.prems(1) by simp_all
  have "mix_block (8 * Suc n) h blk = (mix_block (8 * n) h blk)[n := mix_block (8 * n) h blk ! n XOR load_le ?w]"
    using len by (simp add: mix_block_def)
  also have "mix_block (8 * n) h blk = mix_block (8 * n) h ?front" by (rule mix_block_take [symmetric])
  also have "\<dots> = xor_bytes h 0 ?front" using Suc len by simp
  finally have "mix_block (8 * Suc n) h blk = xor_bytes (xor_bytes h 0 ?front) (8 * n) ?w"
    using Suc.prems(2) len by (simp add: xor_bytes_word)
  also have "\<dots> = xor_bytes h 0 (?front @ ?w)" using len by (simp only: xor_bytes_append) simp
  finally show ?case by simp
qed (simp add: mix_block_def)

subsection \<open>Absorbing a message\<close>

definition kec_padding :: "nat \<Rightarrow> bytes" where
  "kec_padding n = (if n + 1 = BLOCK_SIZE then [0x81] else 0x01 # replicate (BLOCK_SIZE - 2 - n) 0 @ [0x80])"

lemma BLOCK_SIZE_136: "BLOCK_SIZE = 136"
  by (simp add: BLOCK_SIZE_def HASH_LEN_def)

lemma compress_136: "length blk = 136 \<Longrightarrow> length h = 25 \<Longrightarrow>
    sha3_compress 136 h blk = keccak_permute (xor_bytes h 0 blk)"
  using mix_block_bytes [of blk 17 h] by (simp add: sha3_compress_def)

lemma kec_feed_absorb:
  assumes "faithful_shift sh" and "is_matrix a" and "length h = 25" and "length buf < 136"
    and "flat a = xor_bytes h 0 buf" and "kec_feed sh a (length buf) msg = (a', off')"
  shows "\<exists>h' rest. absorb 136 (sha3_compress 136) h (buf @ msg) = (h', rest)
    \<and> flat a' = xor_bytes h' 0 rest \<and> off' = length rest \<and> is_matrix a' \<and> length h' = 25 \<and> length rest < 136"
  using assms(2-6)
proof (induction msg arbitrary: a h buf)
  case Nil
  then show ?case by (simp add: absorb_short)
next
  case (Cons b msg)
  let ?a1 = "kec_xor_byte a (length buf) (ucast b)"
  have a1: "flat ?a1 = xor_bytes h 0 (buf @ [b])" "is_matrix ?a1"
    using Cons.prems kec_xor_byte_flat [of a "length buf" "ucast b"] by (simp_all add: xor_bytes_append)
  show ?case
  proof (cases "length buf + 1 = 136")
    case True
    let ?h = "sha3_compress 136 h (buf @ [b])"
    have "flat (kec_absorb sh ?a1) = xor_bytes ?h 0 []" "is_matrix (kec_absorb sh ?a1)"
      using kec_absorb_flat [OF a1(2) assms(1)] a1(1) Cons.prems(2) True by (simp_all add: compress_136)
    moreover have "kec_feed sh (kec_absorb sh ?a1) (length ([] :: bytes)) msg = (a', off')"
      using Cons.prems(5) True by (simp add: BLOCK_SIZE_136)
    moreover have "length ?h = 25" using Cons.prems(2) by simp
    ultimately have "\<exists>h' rest. absorb 136 (sha3_compress 136) ?h ([] @ msg) = (h', rest)
      \<and> flat a' = xor_bytes h' 0 rest \<and> off' = length rest \<and> is_matrix a' \<and> length h' = 25 \<and> length rest < 136"
      by (intro Cons.IH [of "kec_absorb sh ?a1" ?h "[]"]) simp_all
    moreover have "absorb 136 (sha3_compress 136) h (buf @ b # msg) = absorb 136 (sha3_compress 136) ?h msg"
      using absorb_exact [of 136 "buf @ [b]" "sha3_compress 136" h msg] True by simp
    ultimately show ?thesis by simp
  next
    case False
    then show ?thesis
      using Cons.IH [of ?a1 h "buf @ [b]"] Cons.prems a1 by (simp add: BLOCK_SIZE_136)
  qed
qed

lemma kec_pad_bytes:
  assumes "n < 136" and "length h = 25"
  shows "xor_byte (xor_byte h n 0x01) (BLOCK_SIZE - 1) 0x80 = xor_bytes h n (kec_padding n)"
proof (cases "n + 1 = 136")
  case True
  then have "n = 135" by simp
  with assms(2) show ?thesis
    by (simp add: BLOCK_SIZE_136 kec_padding_def xor_byte_def xor.assoc)
next
  case False
  with assms(1) have "Suc (n + (136 - 2 - n)) = 135" by simp
  with False show ?thesis
    by (simp add: BLOCK_SIZE_136 kec_padding_def xor_bytes_append xor_bytes_zeros)
qed

lemma length_kec_padding: "n < 136 \<Longrightarrow> length (kec_padding n) = 136 - n"
  by (auto simp: kec_padding_def BLOCK_SIZE_136)

lemma hex_byte_pair_to_hex: "hex_byte_pair b = to_hex [b]"
  by (simp add: hex_byte_pair_def to_hex_digits unat_drop_bit_4 unat_and_15 hex_digit_def)

lemma upt_0_32: "[0..<32] = [0, 1, 2, 3, 4, 5, 6, 7, 8, 9, 10, 11, 12, 13, 14, 15, 16, 17, 18, 19, 20, 21, 22, 23, 24,
    25, 26, 27, 28, 29, 30, 31::nat]"
  by (simp add: upt_rec)

lemma upt_0_8: "[0..<8] = [0, 1, 2, 3, 4, 5, 6, 7::nat]"
  by (simp add: upt_rec)

lemma upt_0_4: "[0..<4] = [0, 1, 2, 3::nat]"
  by (simp add: upt_rec)

lemma concat_map_to_hex: "concat (map (\<lambda>x. to_hex [f x]) xs) = to_hex (map f xs)"
  by (induction xs) (simp_all add: to_hex_def)

lemma kec_squeeze_flat:
  "kec_squeeze a = concat (map (\<lambda>i. map (\<lambda>j. ucast (drop_bit (8 * j) (flat a ! i))) [0..<8]) [0..<4])"
  by (simp add: kec_squeeze_def HASH_LEN_def upt_0_32 upt_0_8 upt_0_4 flat_nth)

lemma kec_squeeze_digest: "bytes_to_hex (kec_squeeze a) = digest_hex 256 (flat a)"
proof -
  have "bytes_to_hex (kec_squeeze a) = to_hex (kec_squeeze a)"
    by (rule bytes_to_hex_eq_to_hex) (simp add: kec_squeeze_def HASH_LEN_def)
  then show ?thesis
    by (simp add: kec_squeeze_flat digest_hex_def Let_def hex_byte_pair_to_hex concat_map_to_hex upt_0_4 to_hex_append)
qed

lemma flat_zero: "flat (matrix_of (\<lambda>x y. 0)) = replicate 25 0"
proof (rule nth_equalityI)
  fix i
  assume "i < length (flat (matrix_of (\<lambda>x y. 0)))"
  then have "i < 25" "i div 5 < 5" by simp_all
  then show "flat (matrix_of (\<lambda>x y. 0)) ! i = replicate 25 0 ! i"
    by (simp add: flat_nth matrix_of_def)
qed simp

text \<open>
  The two Keccak implementations of the repository agree: \<open>kec256::absorb\<close> on the 5 by 5
  matrix computes exactly the permutation that \<open>SHA3::processBlock\<close> computes in place, for
  every state and for both outcomes hardware gives to the undefined 64-bit shift.
\<close>

lemma kec256_absorb_is_sha3_permutation:
  assumes "is_matrix a" and "faithful_shift shr64"
  shows "flat (kec_absorb shr64 a) = keccak_permute (flat a)"
  using assms by (rule kec_absorb_flat)

text \<open>
  C27. \<open>kec256::getHash\<close> returns a digest for every string read at its full size, and it is the
  same sponge as SHA3-256 (same rate, same permutation, same output) with the original Keccak
  padding 0x01 in place of the SHA3 domain byte 0x06.
\<close>

theorem kec256_getHash_is_keccak256:
  assumes "faithful_shift shr64"
  shows "kec_getHash shr64 str (length str) = Some (digest_hex 256
    (fst (absorb (rate Bits256) (sha3_compress (rate Bits256)) (replicate StateSize 0)
      (bytes_of_string str @ kec_padding (length str mod rate Bits256)))))"
proof -
  have r: "rate Bits256 = 136" by (simp add: rate_def)
  let ?msg = "bytes_of_string str" and ?z = "matrix_of (\<lambda>x y. 0)" and ?h0 = "replicate 25 0 :: u64 list"
  have z: "flat ?z = xor_bytes ?h0 0 []" by (simp add: flat_zero)
  obtain a off where f: "kec_feed shr64 ?z (length ([] :: bytes)) ?msg = (a, off)"
    by (cases "kec_feed shr64 ?z (length ([] :: bytes)) ?msg")
  from kec_feed_absorb [OF assms _ _ _ z f] obtain h rest where
    ab: "absorb 136 (sha3_compress 136) ?h0 ?msg = (h, rest)" and a: "flat a = xor_bytes h 0 rest"
    and off: "off = length rest" and m: "is_matrix a" and len: "length h = 25" "length rest < 136"
    by auto
  have rest_len: "length rest = length str mod 136"
    using ab absorb_rest_drop [of 136 "sha3_compress 136" ?h0 ?msg] by (simp add: ab)
  let ?p = "kec_xor_byte (kec_xor_byte a off 0x01) (BLOCK_SIZE - 1) 0x80"
  have p: "flat ?p = xor_bytes h 0 (rest @ kec_padding off)" "is_matrix ?p"
    using m len off a kec_pad_bytes [of off "flat a"]
    by (simp_all add: kec_xor_byte_flat BLOCK_SIZE_136 xor_bytes_append)
  have blk: "length (rest @ kec_padding off) = 136" using len off by (simp add: length_kec_padding)
  have "flat (kec_absorb shr64 ?p) = sha3_compress 136 h (rest @ kec_padding off)"
    using kec_absorb_flat(1) [OF p(2) assms] p(1) blk len by (simp add: compress_136)
  moreover have "absorb 136 (sha3_compress 136) ?h0 (?msg @ kec_padding off)
      = (sha3_compress 136 h (rest @ kec_padding off), [])"
    using absorb_append [of 136 "sha3_compress 136" ?h0 ?msg "kec_padding off"] ab
      absorb_exact [OF _ blk, of "sha3_compress 136" h "[]"] by (simp add: absorb_short)
  ultimately show ?thesis
    using f rest_len off kec_squeeze_digest
    by (simp add: kec_getHash_def Let_def r)
qed

theorem kec256_getHash_is_keccak256_witness:
  "faithful_shift (\<lambda>x. x) \<and> kec_getHash (\<lambda>x. x) ''abc'' 3 = Some (digest_hex 256
    (fst (absorb (rate Bits256) (sha3_compress (rate Bits256)) (replicate StateSize 0)
      ([97, 98, 99] @ kec_padding 3))))"
proof -
  have "length ''abc'' = 3" by simp
  from kec256_getHash_is_keccak256 [of "\<lambda>x. x" "''abc''", unfolded this] show ?thesis
    by (simp add: faithful_shift_def bytes_of_string_def byte_of_char_def rate_def)
qed

end
