(* ===== verification/Merkle.thy ===== *)
theory Merkle
  imports Sha3 "HOL-Library.Monad_Syntax"
begin

text \<open>
  The class \<open>MerkleTree\<close> of \<open>datastructures/trees/MerkleTree.h\<close> and \<open>MerkleTree.cpp\<close>. The tree
  is a vector of strings filled by the recursive \<open>buildTree\<close> over the half-open interval
  \<open>[leftQueryBorder, rightQueryBorder)\<close> of the leaves. \<open>buildTree\<close> does not end on an empty
  interval, so it is a partial function whose value \<open>None\<close> is a call that never returns;
  an access outside the vector is the error \<open>Out_of_bounds\<close>.
\<close>

section \<open>Definitions\<close>

datatype merkle_error = Out_of_bounds

definition vec_get :: "'a list \<Rightarrow> nat \<Rightarrow> merkle_error + 'a" where
  "vec_get v i = (if i < length v then Inr (v ! i) else Inl Out_of_bounds)"

definition vec_set :: "'a list \<Rightarrow> nat \<Rightarrow> 'a \<Rightarrow> merkle_error + 'a list" where
  "vec_set v i x = (if i < length v then Inr (v[i := x]) else Inl Out_of_bounds)"

text \<open>\<open>concat\<close> receives two pointers; a null pointer is \<open>None\<close>.\<close>

definition merkle_concat :: "string option \<Rightarrow> string option \<Rightarrow> string" where
  "merkle_concat psl psr = (case (psl, psr) of
      (None, None) \<Rightarrow> []
    | (None, Some r) \<Rightarrow> r
    | (Some l, None) \<Rightarrow> l
    | (Some l, Some r) \<Rightarrow> l @ r)"

definition node_hash :: "string \<Rightarrow> string \<Rightarrow> string" where
  "node_hash a b = sha3_256 (merkle_concat (Some (sha3_256 a)) (Some (sha3_256 b)))"

text \<open>\<open>rightQueryBorder - 1\<close> in unsigned 64-bit arithmetic.\<close>

definition pred64 :: "nat \<Rightarrow> nat" where
  "pred64 r = (if r = 0 then 2 ^ 64 - 1 else r - 1)"

definition set_leaf :: "string list \<Rightarrow> string list \<Rightarrow> nat \<Rightarrow> nat \<Rightarrow> nat \<Rightarrow> merkle_error + string list" where
  "set_leaf initial_array tree currentIndex l r =
     (if l < r then res_bind (vec_get initial_array l) (\<lambda>leaf. vec_set tree currentIndex leaf) else Inr tree)"

definition set_node :: "string list \<Rightarrow> nat \<Rightarrow> merkle_error + string list" where
  "set_node tree currentIndex =
     res_bind (vec_get tree (2 * currentIndex + 1)) (\<lambda>a.
     res_bind (vec_get tree (2 * currentIndex + 2)) (\<lambda>b.
     vec_set tree currentIndex (node_hash a b)))"

partial_function (option) buildTree ::
  "string list \<Rightarrow> string list \<Rightarrow> nat \<Rightarrow> nat \<Rightarrow> nat \<Rightarrow> (merkle_error + string list) option" where
  "buildTree initial_array tree currentIndex l r =
     (if l = pred64 r then Some (set_leaf initial_array tree currentIndex l r)
      else
        (let half = (r + l) div 2 in
         Option.bind (buildTree initial_array tree (2 * currentIndex + 1) l half) (\<lambda>t1.
           (case t1 of Inl e \<Rightarrow> Some (Inl e) | Inr tree1 \<Rightarrow>
             Option.bind (buildTree initial_array tree1 (2 * currentIndex + 2) half r) (\<lambda>t2.
               (case t2 of Inl e \<Rightarrow> Some (Inl e) | Inr tree2 \<Rightarrow> Some (set_node tree2 currentIndex)))))))"

record merkle_tree =
  initial_array :: "string list"
  tree :: "string list"

definition MerkleTree :: "string list \<Rightarrow> (merkle_error + merkle_tree) option" where
  "MerkleTree initialArray =
     map_option (map_sum id (\<lambda>t. \<lparr>initial_array = initialArray, tree = t\<rparr>))
       (buildTree initialArray (replicate (length initialArray * 8) []) 0 0 (length initialArray))"

definition zero_root :: string where
  "zero_root = sha3_256 (sha3_256 (replicate 32 (CHR 0x00)))"

definition get_root :: "merkle_tree \<Rightarrow> merkle_error + string" where
  "get_root m =
     (if tree m = [] \<or> initial_array m = [] then Inr zero_root
      else if length (initial_array m) = 1
      then res_bind (vec_get (tree m) 0) (\<lambda>t. Inr (sha3_256 (sha3_256 t)))
      else vec_get (tree m) 0)"

definition merkle_root :: "string list \<Rightarrow> (merkle_error + string) option" where
  "merkle_root leaves = map_option (\<lambda>m. res_bind m get_root) (MerkleTree leaves)"

section \<open>Reference\<close>

text \<open>The root of a balanced hash tree over a nonempty list of leaves, cut in the middle.\<close>

definition parent_hash :: "string \<Rightarrow> string \<Rightarrow> string" where
  "parent_hash a b = sha3_256 (sha3_256 a @ sha3_256 b)"

function hash_tree :: "string list \<Rightarrow> string" where
  "hash_tree leaves =
     (if length leaves \<le> 1 then hd (leaves @ [[]])
      else parent_hash (hash_tree (take (length leaves div 2) leaves))
                       (hash_tree (drop (length leaves div 2) leaves)))"
  by pat_completeness auto
termination
  by (relation "measure length") auto

declare hash_tree.simps [simp del]

definition reference_root :: "string list \<Rightarrow> string" where
  "reference_root leaves =
     (if length leaves = 1 then sha3_256 (sha3_256 (hd leaves)) else hash_tree leaves)"

text \<open>The strings that are hashed on the way to the root, and a collision between two such lists.\<close>

definition node_inputs :: "string \<Rightarrow> string \<Rightarrow> string list" where
  "node_inputs a b = [a, b, sha3_256 a @ sha3_256 b]"

function tree_inputs :: "string list \<Rightarrow> string list" where
  "tree_inputs leaves =
     (if length leaves \<le> 1 then []
      else (let l = take (length leaves div 2) leaves; r = drop (length leaves div 2) leaves
            in node_inputs (hash_tree l) (hash_tree r) @ tree_inputs l @ tree_inputs r))"
  by pat_completeness auto
termination
  by (relation "measure length") auto

declare tree_inputs.simps [simp del]

definition root_inputs :: "string list \<Rightarrow> string list" where
  "root_inputs leaves = (if length leaves = 1 then [hd leaves, sha3_256 (hd leaves)] else tree_inputs leaves)"

definition collides :: "string list \<Rightarrow> string list \<Rightarrow> bool" where
  "collides xs ys \<longleftrightarrow> (\<exists>a \<in> set xs. \<exists>b \<in> set ys. a \<noteq> b \<and> sha3_256 a = sha3_256 b)"


section \<open>Lemmas\<close>

lemma node_hash_parent: "node_hash a b = parent_hash a b"
  by (simp add: node_hash_def parent_hash_def merkle_concat_def)

lemma pred64_eq: "0 < r \<Longrightarrow> pred64 r = r - 1"
  by (simp add: pred64_def)

lemma slice_halves:
  assumes "l < half" and "half \<le> r"
  shows "take (half - l) (take (r - l) (drop l xs)) = take (half - l) (drop l xs)"
    and "drop (half - l) (take (r - l) (drop l xs)) = take (r - half) (drop half xs)"
  using assms by (simp_all add: min_def drop_take)

text \<open>
  One call on the interval \<open>[l, r)\<close> at node \<open>i\<close> of a tree with enough room below \<open>i\<close> returns,
  stores the hash of the slice in node \<open>i\<close>, keeps the size and touches no node before \<open>i\<close>.
\<close>

lemma buildTree_leaf:
  assumes "l < length arr" and "i < length t"
  shows "\<exists>t'. buildTree arr t i l (Suc l) = Some (Inr t') \<and> length t' = length t
    \<and> t' ! i = hash_tree (take (Suc l - l) (drop l arr)) \<and> (\<forall>k < i. t' ! k = t ! k)"
proof (intro exI conjI)
  show "buildTree arr t i l (Suc l) = Some (Inr (t[i := arr ! l]))"
    using assms by (subst buildTree.simps) (simp add: pred64_eq set_leaf_def vec_get_def vec_set_def)
  have "take (Suc l - l) (drop l arr) = [arr ! l]"
    using assms(1) by (simp add: hd_drop_conv_nth take_Suc)
  then show "t[i := arr ! l] ! i = hash_tree (take (Suc l - l) (drop l arr))"
    using assms(2) by (simp add: hash_tree.simps)
qed simp_all

lemma buildTree_correct:
  assumes "l < r" and "r \<le> length arr" and "r - l \<le> 2 ^ d" and "(i + 2) * 2 ^ d \<le> length t + 1"
  shows "\<exists>t'. buildTree arr t i l r = Some (Inr t') \<and> length t' = length t
    \<and> t' ! i = hash_tree (take (r - l) (drop l arr)) \<and> (\<forall>k < i. t' ! k = t ! k)"
  using assms
proof (induction d arbitrary: t i l r)
  case 0
  then have "r = Suc l" by simp
  with 0 buildTree_leaf [of l arr i t] show ?case by simp
next
  case (Suc d)
  show ?case
  proof (cases "r = Suc l")
    case True
    have "i + 2 \<le> (i + 2) * 2 ^ Suc d"
      using mult_le_mono2 [of 1 "2 ^ Suc d" "i + 2"] by simp
    with Suc.prems(4) have "i < length t" by linarith
    with True Suc.prems(2) buildTree_leaf [of l arr i t] show ?thesis by simp
  next
    case False
    define half where "half = (r + l) div 2"
    have h: "l < half" "half < r" "half - l \<le> 2 ^ d" "r - half \<le> 2 ^ d" "half - l = (r - l) div 2"
      using Suc.prems False by (auto simp: half_def)
    have room: "(2 * i + 1 + 2) * 2 ^ d \<le> length t + 1" "(2 * i + 2 + 2) * 2 ^ d \<le> length t + 1"
      using Suc.prems(4) by (auto simp: algebra_simps)
    obtain t1 where t1: "buildTree arr t (2 * i + 1) l half = Some (Inr t1)" "length t1 = length t"
      "t1 ! (2 * i + 1) = hash_tree (take (half - l) (drop l arr))" "\<forall>k < 2 * i + 1. t1 ! k = t ! k"
      using Suc.IH [of l half "2 * i + 1" t] h Suc.prems room by auto
    obtain t2 where t2: "buildTree arr t1 (2 * i + 2) half r = Some (Inr t2)" "length t2 = length t"
      "t2 ! (2 * i + 2) = hash_tree (take (r - half) (drop half arr))" "\<forall>k < 2 * i + 2. t2 ! k = t1 ! k"
      using Suc.IH [of half r "2 * i + 2" t1] h Suc.prems room t1(2) by auto
    have lt: "2 * i + 2 < length t" using room(2) by (cases "2 ^ d :: nat") (auto simp: algebra_simps)
    have ne: "l \<noteq> pred64 r" using Suc.prems(1) False by (simp add: pred64_eq)
    let ?s = "take (r - l) (drop l arr)"
    have len: "length ?s = r - l" using Suc.prems by simp
    have "hash_tree ?s = parent_hash (hash_tree (take (half - l) (drop l arr))) (hash_tree (take (r - half) (drop half arr)))"
    proof -
      have "\<not> length ?s \<le> 1" using False Suc.prems(1) len by linarith
      moreover have "length ?s div 2 = half - l" using len h(5) by simp
      moreover have "take (half - l) ?s = take (half - l) (drop l arr)"
        "drop (half - l) ?s = take (r - half) (drop half arr)"
        using slice_halves [of l half r arr] h(1,2) by auto
      ultimately show ?thesis by (subst hash_tree.simps) presburger
    qed
    moreover have "buildTree arr t i l r = Some (set_node t2 i)"
      using ne t1(1) t2(1) by (subst buildTree.simps) (simp add: half_def [symmetric])
    moreover have "set_node t2 i = Inr (t2[i := parent_hash (t1 ! (2 * i + 1)) (t2 ! (2 * i + 2))])"
      using lt t2(2,4) by (simp add: set_node_def vec_get_def vec_set_def node_hash_parent)
    ultimately show ?thesis
      using t1 t2 lt by simp
  qed
qed

lemma exists_depth:
  assumes "0 < (n :: nat)"
  shows "\<exists>d. n \<le> 2 ^ d \<and> 2 ^ d < 2 * n"
proof -
  define d where "d = (LEAST d. n \<le> 2 ^ d)"
  have le: "n \<le> 2 ^ d" unfolding d_def by (rule LeastI [of _ n]) (simp add: less_imp_le less_exp)
  have "2 ^ d < 2 * n"
  proof (cases d)
    case 0
    with assms show ?thesis by simp
  next
    case (Suc k)
    then have "\<not> n \<le> 2 ^ k" using not_less_Least [of k "\<lambda>d. n \<le> 2 ^ d"] by (simp add: d_def)
    with Suc show ?thesis by simp
  qed
  with le show ?thesis by blast
qed

lemma buildTree_root:
  assumes "arr \<noteq> []"
  shows "\<exists>t. buildTree arr (replicate (length arr * 8) []) 0 0 (length arr) = Some (Inr t)
    \<and> length t = length arr * 8 \<and> t ! 0 = hash_tree arr"
proof -
  obtain d where d: "length arr \<le> 2 ^ d" "2 ^ d < 2 * length arr"
    using exists_depth [of "length arr"] assms by auto
  then have room: "(0 + 2) * 2 ^ d \<le> length (replicate (length arr * 8) ([] :: string)) + 1" by simp
  show ?thesis using buildTree_correct [OF _ _ _ room, of 0 "length arr" arr] d assms by auto
qed

lemma merkle_root_reference: "leaves \<noteq> [] \<Longrightarrow> merkle_root leaves = Some (Inr (reference_root leaves))"
proof -
  assume ne: "leaves \<noteq> []"
  from buildTree_root [OF ne] obtain t where
    t: "buildTree leaves (replicate (length leaves * 8) []) 0 0 (length leaves) = Some (Inr t)"
      "length t = length leaves * 8" "t ! 0 = hash_tree leaves" by blast
  have "0 < length t" using t(2) ne by simp
  moreover have "length leaves = 1 \<Longrightarrow> hash_tree leaves = hd leaves"
    using ne by (subst hash_tree.simps) simp
  ultimately show ?thesis
    using t ne by (auto simp: merkle_root_def MerkleTree_def get_root_def vec_get_def reference_root_def)
qed

lemma length_sha3_256: "length (sha3_256 text) = 64"
  using sha3_call_reference [OF sha3_invar_shape [OF sha3_invar_new], of "[]" Bits256 "bytes_of_string text"]
  by (simp add: sha3_256_def sha3_reference_def length_digest_hex)

text \<open>
  On an empty interval every unfolding asks for the same call again, so \<open>buildTree\<close> has no
  value there.
\<close>

lemma buildTree_empty_interval: "buildTree arr t i l l = Some v \<Longrightarrow> l < 2 ^ 64 - 1 \<Longrightarrow> False"
proof -
  have "l < 2 ^ 64 - 1 \<longrightarrow> r = l \<longrightarrow> False" if "buildTree arr t i l r = Some v" for r
    using that
  proof (rule buildTree.raw_induct [where P = "\<lambda>arr t i l r v. l < 2 ^ 64 - 1 \<longrightarrow> r = l \<longrightarrow> False", rotated])
    fix f :: "string list \<Rightarrow> string list \<Rightarrow> nat \<Rightarrow> nat \<Rightarrow> nat \<Rightarrow> (merkle_error + string list) option"
      and arr t i l r v
    assume IH: "\<And>arr t i l r v. f arr t i l r = Some v \<Longrightarrow> l < 2 ^ 64 - 1 \<longrightarrow> r = l \<longrightarrow> False"
      and eq: "(if l = pred64 r then Some (set_leaf arr t i l r)
        else let half = (r + l) div 2 in
          Option.bind (f arr t (2 * i + 1) l half) (\<lambda>t1. case t1 of Inl e \<Rightarrow> Some (Inl e) | Inr tree1 \<Rightarrow>
            Option.bind (f arr tree1 (2 * i + 2) half r) (\<lambda>t2. case t2 of Inl e \<Rightarrow> Some (Inl e)
              | Inr tree2 \<Rightarrow> Some (set_node tree2 i)))) = Some v"
    show "l < 2 ^ 64 - 1 \<longrightarrow> r = l \<longrightarrow> False"
    proof (intro impI)
      assume l: "l < 2 ^ 64 - 1" and r: "r = l"
      then have "l \<noteq> pred64 r" by (auto simp: pred64_def)
      with eq r obtain t1 where "f arr t (2 * i + 1) l l = Some t1"
        by (auto simp: Let_def bind_eq_Some_conv)
      with IH l show False by blast
    qed
  qed
  then show "buildTree arr t i l l = Some v \<Longrightarrow> l < 2 ^ 64 - 1 \<Longrightarrow> False" by blast
qed

lemma MerkleTree_empty: "MerkleTree [] = None"
  using buildTree_empty_interval [of "[]" "[]" 0 0]
  by (cases "buildTree [] [] 0 0 (0::nat)") (auto simp: MerkleTree_def)

lemma collides_append [simp]:
  "collides (xs @ xs') ys \<longleftrightarrow> collides xs ys \<or> collides xs' ys"
  "collides xs (ys @ ys') \<longleftrightarrow> collides xs ys \<or> collides xs ys'"
  by (auto simp: collides_def)

lemma parent_hash_binding:
  assumes "parent_hash a b = parent_hash c d"
  shows "(a = c \<and> b = d) \<or> collides (node_inputs a b) (node_inputs c d)"
proof (rule disjCI)
  assume nocol: "\<not> collides (node_inputs a b) (node_inputs c d)"
  then have "sha3_256 a @ sha3_256 b = sha3_256 c @ sha3_256 d"
    using assms by (auto simp: parent_hash_def collides_def node_inputs_def)
  then have "sha3_256 a = sha3_256 c" "sha3_256 b = sha3_256 d"
    by (simp_all add: length_sha3_256)
  with nocol show "a = c \<and> b = d" by (auto simp: collides_def node_inputs_def)
qed

lemma hash_tree_binding:
  assumes "length xs = length ys" and "hash_tree xs = hash_tree ys"
  shows "xs = ys \<or> collides (tree_inputs xs) (tree_inputs ys)"
  using assms
proof (induction xs arbitrary: ys rule: hash_tree.induct)
  case (1 xs)
  let ?h = "length xs div 2"
  show ?case
  proof (cases "length xs \<le> 1")
    case True
    with "1.prems" show ?thesis
      by (cases xs; cases ys) (auto simp: hash_tree.simps)
  next
    case False
    with "1.prems" have "parent_hash (hash_tree (take ?h xs)) (hash_tree (drop ?h xs))
        = parent_hash (hash_tree (take ?h ys)) (hash_tree (drop ?h ys))"
      by (simp add: hash_tree.simps [of xs] hash_tree.simps [of ys])
    note node = parent_hash_binding [OF this]
    have inputs: "tree_inputs zs = node_inputs (hash_tree (take ?h zs)) (hash_tree (drop ?h zs))
        @ tree_inputs (take ?h zs) @ tree_inputs (drop ?h zs)" if "length zs = length xs" for zs
      using False that by (subst tree_inputs.simps) (simp add: Let_def)
    have halves: "take ?h xs = take ?h ys \<or> collides (tree_inputs (take ?h xs)) (tree_inputs (take ?h ys))"
      if "hash_tree (take ?h xs) = hash_tree (take ?h ys)"
      using "1.IH"(1) [OF False, of "take ?h ys"] "1.prems"(1) that by simp
    have "drop ?h xs = drop ?h ys \<or> collides (tree_inputs (drop ?h xs)) (tree_inputs (drop ?h ys))"
      if "hash_tree (drop ?h xs) = hash_tree (drop ?h ys)"
      using "1.IH"(2) [OF False, of "drop ?h ys"] "1.prems"(1) that by simp
    moreover have "xs = ys" if "take ?h xs = take ?h ys" "drop ?h xs = drop ?h ys"
      using that by (metis append_take_drop_id)
    moreover have "tree_inputs ys = node_inputs (hash_tree (take ?h ys)) (hash_tree (drop ?h ys))
        @ tree_inputs (take ?h ys) @ tree_inputs (drop ?h ys)" using inputs "1.prems"(1) by simp
    ultimately show ?thesis using node halves inputs [OF refl] by auto
  qed
qed

lemma reference_root_binding:
  assumes "length xs = length ys" and "xs \<noteq> []" and "reference_root xs = reference_root ys"
  shows "xs = ys \<or> collides (root_inputs xs) (root_inputs ys)"
proof (cases "length xs = 1")
  case True
  with assms obtain x y where "xs = [x]" "ys = [y]"
    by (metis One_nat_def length_0_conv length_Suc_conv)
  with assms(3) show ?thesis by (auto simp: reference_root_def root_inputs_def collides_def)
next
  case False
  with assms hash_tree_binding [of xs ys] show ?thesis by (simp add: reference_root_def root_inputs_def)
qed

section \<open>Properties\<close>

text \<open>
  C8. For every nonempty list of leaves the constructor returns (\<open>buildTree\<close> terminates), every
  vector access of \<open>buildTree\<close> and \<open>get_root\<close> is in range of the allocated \<open>8 * n\<close> cells, and the
  root is the root of the balanced hash tree over the leaves in order.
\<close>

theorem merkle_root_correct:
  assumes "leaves \<noteq> []"
  shows "merkle_root leaves = Some (Inr (reference_root leaves))"
  using assms by (rule merkle_root_reference)

theorem merkle_root_correct_witness:
  "[''a'', ''b'', ''c''] \<noteq> [] \<and>
   merkle_root [''a'', ''b'', ''c'']
     = Some (Inr (parent_hash ''a'' (parent_hash ''b'' ''c'')))"
  using merkle_root_correct [of "[''a'', ''b'', ''c'']"]
  by (simp add: reference_root_def hash_tree.simps)

text \<open>
  C21. The root binds the leaves: two trees over equally many leaves with the same root have the
  same leaves in the same order, unless two different strings among those that were hashed to
  compute the two roots have the same SHA3-256 digest.
\<close>

theorem merkle_root_binding:
  assumes "length xs = length ys" and "xs \<noteq> []" and "merkle_root xs = merkle_root ys"
  shows "xs = ys \<or> collides (root_inputs xs) (root_inputs ys)"
proof -
  from assms(1,2) have "ys \<noteq> []" by auto
  with assms(2,3) have "reference_root xs = reference_root ys" by (simp add: merkle_root_reference)
  with assms(1,2) show ?thesis by (intro reference_root_binding)
qed

theorem merkle_root_binding_witness:
  "length [''t1'', ''t2''] = length [''t1'', ''t2''] \<and> [''t1'', ''t2''] \<noteq> [] \<and>
   merkle_root [''t1'', ''t2''] = merkle_root [''t1'', ''t2''] \<and>
   ([''t1'', ''t2''] = [''t1'', ''t2''] \<or> collides (root_inputs [''t1'', ''t2'']) (root_inputs [''t1'', ''t2'']))"
  using merkle_root_binding [of "[''t1'', ''t2'']" "[''t1'', ''t2'']"] by simp

text \<open>
  On an empty vector of leaves the constructor never returns: \<open>buildTree\<close> calls itself on the
  same empty interval, so the branch of \<open>get_root\<close> for an empty array is never reached.
\<close>

lemma merkle_root_empty_diverges: "MerkleTree [] = None \<and> merkle_root [] = None"
  by (simp add: MerkleTree_empty merkle_root_def)

end
