(* ===== verification/Sha256.thy ===== *)
theory Sha256
  imports Block_Stream Sha3
begin

text \<open>
  The class \<open>SHA256_Legacy\<close> of \<open>bip44/SHA256.h\<close> and \<open>bip44/SHA256.cpp\<close>, which the wallet code
  uses for its checksums: the unrolled compression with its on-demand message schedule, the
  buffering of \<open>add\<close>, the padding of \<open>processBuffer\<close> (which may spill into a second block) and the
  digest. The reference is FIPS 180-4: a loop of 64 identical steps over a message schedule
  computed up front, applied to the padded message.
\<close>

section \<open>Definitions\<close>

subsection \<open>State\<close>

definition BlockSize :: nat where "BlockSize = 512 div 8"

definition HashBytes :: nat where "HashBytes = 32"

record sha256 =
  hash256 :: "u32 list"
  numBytes256 :: u64
  bufferSize256 :: nat
  buffer256 :: bytes

definition sha256_seed :: "u32 list" where
  "sha256_seed = [0x6a09e667, 0xbb67ae85, 0x3c6ef372, 0xa54ff53a,
                  0x510e527f, 0x9b05688c, 0x1f83d9ab, 0x5be0cd19]"

definition reset256 :: "sha256 \<Rightarrow> sha256" where
  "reset256 s = s\<lparr>numBytes256 := 0, bufferSize256 := 0, hash256 := sha256_seed\<rparr>"

definition SHA256_Legacy :: "bytes \<Rightarrow> sha256" where
  "SHA256_Legacy garbage = reset256
     \<lparr>hash256 = replicate 8 0, numBytes256 = 0, bufferSize256 = 0,
      buffer256 = take BlockSize (garbage @ replicate BlockSize 0)\<rparr>"

subsection \<open>The compression\<close>

definition rotate32 :: "u32 \<Rightarrow> nat \<Rightarrow> u32" where
  "rotate32 a c = drop_bit c a OR push_bit (32 - c) a"

definition swap32 :: "u32 \<Rightarrow> u32" where
  "swap32 x = drop_bit 24 x OR (drop_bit 8 x AND 0x0000FF00) OR (push_bit 8 x AND 0x00FF0000) OR push_bit 24 x"

definition f1 :: "u32 \<Rightarrow> u32 \<Rightarrow> u32 \<Rightarrow> u32" where
  "f1 e f g =
     (let term1 = rotate32 e 6 XOR rotate32 e 11 XOR rotate32 e 25;
          term2 = (e AND f) XOR (NOT e AND g)
      in term1 + term2)"

definition f2 :: "u32 \<Rightarrow> u32 \<Rightarrow> u32 \<Rightarrow> u32" where
  "f2 a b c =
     (let term1 = rotate32 a 2 XOR rotate32 a 13 XOR rotate32 a 22;
          term2 = ((a OR b) AND c) OR (a AND b)
      in term1 + term2)"

type_synonym sha256_regs = "u32 \<times> u32 \<times> u32 \<times> u32 \<times> u32 \<times> u32 \<times> u32 \<times> u32"

text \<open>
  One source line \<open>x = h + f1(e,f,g) + k + w; y = f2(a,b,c); d += x; h = x + y;\<close>: the new values
  of the two registers that it assigns.
\<close>

fun sha_line :: "sha256_regs \<Rightarrow> u32 \<Rightarrow> u32 \<Rightarrow> u32 \<times> u32" where
  "sha_line (a, b, c, d, e, f, g, h) k w =
     (let x = h + f1 e f g + k + w; y = f2 a b c in (d + x, x + y))"

text \<open>Eight such lines, each with the registers renamed by one place, as the source unrolls them.\<close>

fun eight_lines :: "u32 list \<Rightarrow> u32 list \<Rightarrow> sha256_regs \<Rightarrow> sha256_regs" where
  "eight_lines k w (a, b, c, d, e, f, g, h) =
     (let
          (d, h) = sha_line (a, b, c, d, e, f, g, h) (k ! 0) (w ! 0);
          (c, g) = sha_line (h, a, b, c, d, e, f, g) (k ! 1) (w ! 1);
          (b, f) = sha_line (g, h, a, b, c, d, e, f) (k ! 2) (w ! 2);
          (a, e) = sha_line (f, g, h, a, b, c, d, e) (k ! 3) (w ! 3);
          (h, d) = sha_line (e, f, g, h, a, b, c, d) (k ! 4) (w ! 4);
          (g, c) = sha_line (d, e, f, g, h, a, b, c) (k ! 5) (w ! 5);
          (f, b) = sha_line (c, d, e, f, g, h, a, b) (k ! 6) (w ! 6);
          (e, a) = sha_line (b, c, d, e, f, g, h, a) (k ! 7) (w ! 7)
      in (a, b, c, d, e, f, g, h))"

definition first_round :: "u32 list \<Rightarrow> sha256_regs \<Rightarrow> sha256_regs" where
  "first_round words = eight_lines
     [0x428a2f98, 0x71374491, 0xb5c0fbcf, 0xe9b5dba5,
      0x3956c25b, 0x59f111f1, 0x923f82a4, 0xab1c5ed5] (drop 0 words)"

definition second_round :: "u32 list \<Rightarrow> sha256_regs \<Rightarrow> sha256_regs" where
  "second_round words = eight_lines
     [0xd807aa98, 0x12835b01, 0x243185be, 0x550c7dc3,
      0x72be5d74, 0x80deb1fe, 0x9bdc06a7, 0xc19bf174] (drop 8 words)"

definition third_round :: "u32 list \<Rightarrow> sha256_regs \<Rightarrow> sha256_regs" where
  "third_round words = eight_lines
     [0xe49b69c1, 0xefbe4786, 0x0fc19dc6, 0x240ca1cc,
      0x2de92c6f, 0x4a7484aa, 0x5cb0a9dc, 0x76f988da] (drop 16 words)"

definition fourth_round :: "u32 list \<Rightarrow> sha256_regs \<Rightarrow> sha256_regs" where
  "fourth_round words = eight_lines
     [0x983e5152, 0xa831c66d, 0xb00327c8, 0xbf597fc7,
      0xc6e00bf3, 0xd5a79147, 0x06ca6351, 0x14292967] (drop 24 words)"

definition fifth_round :: "u32 list \<Rightarrow> sha256_regs \<Rightarrow> sha256_regs" where
  "fifth_round words = eight_lines
     [0x27b70a85, 0x2e1b2138, 0x4d2c6dfc, 0x53380d13,
      0x650a7354, 0x766a0abb, 0x81c2c92e, 0x92722c85] (drop 32 words)"

definition sixth_round :: "u32 list \<Rightarrow> sha256_regs \<Rightarrow> sha256_regs" where
  "sixth_round words = eight_lines
     [0xa2bfe8a1, 0xa81a664b, 0xc24b8b70, 0xc76c51a3,
      0xd192e819, 0xd6990624, 0xf40e3585, 0x106aa070] (drop 40 words)"

definition seventh_round :: "u32 list \<Rightarrow> sha256_regs \<Rightarrow> sha256_regs" where
  "seventh_round words = eight_lines
     [0x19a4c116, 0x1e376c08, 0x2748774c, 0x34b0bcb5,
      0x391c0cb3, 0x4ed8aa4a, 0x5b9cca4f, 0x682e6ff3] (drop 48 words)"

definition eighth_round :: "u32 list \<Rightarrow> sha256_regs \<Rightarrow> sha256_regs" where
  "eighth_round words = eight_lines
     [0x748f82ee, 0x78a5636f, 0x84c87814, 0x8cc70208,
      0x90befffa, 0xa4506ceb, 0xbef9a3f7, 0xc67178f2] (drop 56 words)"

text \<open>The loops \<open>for (; i < n; i++) words[i] = ...\<close>, where \<open>i\<close> is the number of words so far.\<close>

definition next_word :: "u32 list \<Rightarrow> u32" where
  "next_word words =
     (let i = length words in
      words ! (i - 16) +
      (rotate32 (words ! (i - 15)) 7 XOR rotate32 (words ! (i - 15)) 18 XOR drop_bit 3 (words ! (i - 15))) +
      words ! (i - 7) +
      (rotate32 (words ! (i - 2)) 17 XOR rotate32 (words ! (i - 2)) 19 XOR drop_bit 10 (words ! (i - 2))))"

definition extend_words :: "nat \<Rightarrow> u32 list \<Rightarrow> u32 list" where
  "extend_words n words = ((\<lambda>ws. ws @ [next_word ws]) ^^ (n - length words)) words"

definition load_le32 :: "bytes \<Rightarrow> u32" where
  "load_le32 bs = foldr (\<lambda>b acc. push_bit 8 acc OR ucast b) bs 0"

definition input_words :: "bytes \<Rightarrow> u32 list" where
  "input_words data = map (\<lambda>i. swap32 (load_le32 (take 4 (drop (4 * i) data)))) [0..<16]"

definition regs_of :: "u32 list \<Rightarrow> sha256_regs" where
  "regs_of H = (H ! 0, H ! 1, H ! 2, H ! 3, H ! 4, H ! 5, H ! 6, H ! 7)"

fun add_regs :: "u32 list \<Rightarrow> sha256_regs \<Rightarrow> u32 list" where
  "add_regs H (a, b, c, d, e, f, g, h) =
     [H ! 0 + a, H ! 1 + b, H ! 2 + c, H ! 3 + d, H ! 4 + e, H ! 5 + f, H ! 6 + g, H ! 7 + h]"

definition sha256_compress :: "u32 list \<Rightarrow> bytes \<Rightarrow> u32 list" where
  "sha256_compress H data =
     (let words = input_words data;
          r = regs_of H;
          r = first_round words r;
          r = second_round words r;
          words = extend_words 24 words;
          r = third_round words r;
          words = extend_words 32 words;
          r = fourth_round words r;
          words = extend_words 40 words;
          r = fifth_round words r;
          words = extend_words 48 words;
          r = sixth_round words r;
          words = extend_words 56 words;
          r = seventh_round words r;
          words = extend_words 64 words;
          r = eighth_round words r
      in add_regs H r)"

definition processBlock256 :: "sha256 \<Rightarrow> bytes \<Rightarrow> sha256" where
  "processBlock256 s data = s\<lparr>hash256 := sha256_compress (hash256 s) data\<rparr>"

subsection \<open>Feeding data\<close>

definition put_byte256 :: "sha256 \<Rightarrow> u8 \<Rightarrow> sha256" where
  "put_byte256 s b =
     s\<lparr>buffer256 := (buffer256 s)[bufferSize256 s := b], bufferSize256 := bufferSize256 s + 1\<rparr>"

fun fill_buffer256 :: "sha256 \<Rightarrow> bytes \<Rightarrow> sha256 \<times> bytes" where
  "fill_buffer256 s [] = (s, [])"
| "fill_buffer256 s (b # current) =
     (if bufferSize256 s < BlockSize then fill_buffer256 (put_byte256 s b) current else (s, b # current))"

definition flush_full256 :: "sha256 \<Rightarrow> sha256" where
  "flush_full256 s =
     (if bufferSize256 s = BlockSize
      then (processBlock256 s (buffer256 s))
        \<lparr>numBytes256 := numBytes256 s + of_nat BlockSize, bufferSize256 := 0\<rparr>
      else s)"

definition direct_block256 :: "sha256 \<Rightarrow> bytes \<Rightarrow> sha256" where
  "direct_block256 s current =
     (processBlock256 s current)\<lparr>numBytes256 := numBytes256 s + of_nat BlockSize\<rparr>"

function process_blocks256 :: "sha256 \<Rightarrow> bytes \<Rightarrow> sha256 \<times> bytes" where
  "process_blocks256 s current =
     (if BlockSize \<le> length current
      then process_blocks256 (direct_block256 s current) (drop BlockSize current)
      else (s, current))"
  by pat_completeness auto
termination
  by (relation "measure (\<lambda>(s, current). length current)") (auto simp: BlockSize_def)

declare process_blocks256.simps [simp del]

definition add256 :: "sha256 \<Rightarrow> bytes \<Rightarrow> sha256" where
  "add256 s data =
     (let (s, current) = (if 0 < bufferSize256 s then fill_buffer256 s data else (s, data));
          s = flush_full256 s
      in if current = [] then s
         else (let (s, current) = process_blocks256 s current in foldl put_byte256 s current))"

subsection \<open>The digest\<close>

definition padded_length :: "nat \<Rightarrow> nat" where
  "padded_length bufferSize =
     (let paddedLength = bufferSize * 8 + 1;
          lower11Bits = paddedLength mod 512
      in (if lower11Bits \<le> 448 then paddedLength + (448 - lower11Bits)
          else paddedLength + (512 + 448 - lower11Bits)) div 8)"

definition be_bytes64 :: "u64 \<Rightarrow> bytes" where
  "be_bytes64 n = map (\<lambda>k. ucast (drop_bit k n)) [56, 48, 40, 32, 24, 16, 8, 0]"

definition store_at :: "bytes \<Rightarrow> nat \<Rightarrow> bytes \<Rightarrow> bytes" where
  "store_at buf pos xs = foldl (\<lambda>b i. b[pos + i := xs ! i]) buf [0..<length xs]"

text \<open>
  The local array \<open>extra\<close> starts with the indeterminate contents \<open>stack\<close>. Inside \<open>processBuffer\<close>
  the buffer is never full, so the marker goes to \<open>m_buffer\<close>.
\<close>

definition processBuffer256 :: "bytes \<Rightarrow> sha256 \<Rightarrow> sha256" where
  "processBuffer256 stack s =
     (let n = bufferSize256 s;
          paddedLength = padded_length n;
          extra = take BlockSize (stack @ replicate BlockSize 0);
          buf = (if n < BlockSize then (buffer256 s)[n := 128] else buffer256 s);
          extra = (if n < BlockSize then extra else extra[0 := 128]);
          buf = foldl (\<lambda>b i. b[i := 0]) buf [n + 1..<BlockSize];
          i = max (n + 1) BlockSize;
          extra = foldl (\<lambda>b i. b[i - BlockSize := 0]) extra [i..<paddedLength];
          msgBits = be_bytes64 (8 * (numBytes256 s + of_nat n));
          buf' = (if paddedLength < BlockSize then store_at buf paddedLength msgBits else buf);
          extra' = (if paddedLength < BlockSize then extra
                    else store_at extra (paddedLength - BlockSize) msgBits);
          s = processBlock256 (s\<lparr>buffer256 := buf'\<rparr>) buf'
      in if BlockSize < paddedLength then processBlock256 s extra' else s)"

definition be_bytes32 :: "u32 \<Rightarrow> bytes" where
  "be_bytes32 w = map (\<lambda>k. ucast (drop_bit k w)) [24, 16, 8, 0]"

definition getHash256_raw :: "bytes \<Rightarrow> sha256 \<Rightarrow> bytes \<times> sha256" where
  "getHash256_raw stack s =
     (let oldHash = hash256 s;
          s' = processBuffer256 stack s
      in (concat (map be_bytes32 (hash256 s')), s'\<lparr>hash256 := oldHash\<rparr>))"

definition getHash256 :: "bytes \<Rightarrow> sha256 \<Rightarrow> string \<times> sha256" where
  "getHash256 stack s =
     (let (rawHash, s') = getHash256_raw stack s in (concat (map hex_byte_pair rawHash), s'))"

definition sha256_call :: "bytes \<Rightarrow> sha256 \<Rightarrow> bytes \<Rightarrow> string \<times> sha256" where
  "sha256_call stack s data = getHash256 stack (add256 (reset256 s) data)"

section \<open>The reference\<close>

definition Ch :: "u32 \<Rightarrow> u32 \<Rightarrow> u32 \<Rightarrow> u32" where
  "Ch x y z = (x AND y) XOR (NOT x AND z)"

definition Maj :: "u32 \<Rightarrow> u32 \<Rightarrow> u32 \<Rightarrow> u32" where
  "Maj x y z = (x AND y) XOR (x AND z) XOR (y AND z)"

definition Sigma0 :: "u32 \<Rightarrow> u32" where
  "Sigma0 x = word_rotr 2 x XOR word_rotr 13 x XOR word_rotr 22 x"

definition Sigma1 :: "u32 \<Rightarrow> u32" where
  "Sigma1 x = word_rotr 6 x XOR word_rotr 11 x XOR word_rotr 25 x"

definition sigma0 :: "u32 \<Rightarrow> u32" where
  "sigma0 x = word_rotr 7 x XOR word_rotr 18 x XOR drop_bit 3 x"

definition sigma1 :: "u32 \<Rightarrow> u32" where
  "sigma1 x = word_rotr 17 x XOR word_rotr 19 x XOR drop_bit 10 x"

definition fips_K :: "u32 list" where
  "fips_K = concat [
     [0x428a2f98, 0x71374491, 0xb5c0fbcf, 0xe9b5dba5, 0x3956c25b, 0x59f111f1, 0x923f82a4, 0xab1c5ed5],
     [0xd807aa98, 0x12835b01, 0x243185be, 0x550c7dc3, 0x72be5d74, 0x80deb1fe, 0x9bdc06a7, 0xc19bf174],
     [0xe49b69c1, 0xefbe4786, 0x0fc19dc6, 0x240ca1cc, 0x2de92c6f, 0x4a7484aa, 0x5cb0a9dc, 0x76f988da],
     [0x983e5152, 0xa831c66d, 0xb00327c8, 0xbf597fc7, 0xc6e00bf3, 0xd5a79147, 0x06ca6351, 0x14292967],
     [0x27b70a85, 0x2e1b2138, 0x4d2c6dfc, 0x53380d13, 0x650a7354, 0x766a0abb, 0x81c2c92e, 0x92722c85],
     [0xa2bfe8a1, 0xa81a664b, 0xc24b8b70, 0xc76c51a3, 0xd192e819, 0xd6990624, 0xf40e3585, 0x106aa070],
     [0x19a4c116, 0x1e376c08, 0x2748774c, 0x34b0bcb5, 0x391c0cb3, 0x4ed8aa4a, 0x5b9cca4f, 0x682e6ff3],
     [0x748f82ee, 0x78a5636f, 0x84c87814, 0x8cc70208, 0x90befffa, 0xa4506ceb, 0xbef9a3f7, 0xc67178f2]]"

text \<open>The message schedule \<open>W\<close> of 64 words, and one step with the registers shifted by one place.\<close>

fun fips_schedule :: "nat \<Rightarrow> u32 list \<Rightarrow> u32 list" where
  "fips_schedule 0 W = W"
| "fips_schedule (Suc n) W =
     (let t = length W in
      fips_schedule n (W @ [sigma1 (W ! (t - 2)) + W ! (t - 7) + sigma0 (W ! (t - 15)) + W ! (t - 16)]))"

fun fips_step :: "sha256_regs \<Rightarrow> u32 \<times> u32 \<Rightarrow> sha256_regs" where
  "fips_step (a, b, c, d, e, f, g, h) (k, w) =
     (let T1 = h + Sigma1 e + Ch e f g + k + w;
          T2 = Sigma0 a + Maj a b c
      in (T1 + T2, a, b, c, d + T1, e, f, g))"

definition fips_compress :: "u32 list \<Rightarrow> bytes \<Rightarrow> u32 list" where
  "fips_compress H block =
     (let W = fips_schedule 48 (map (\<lambda>i. load_be32 (take 4 (drop (4 * i) block))) [0..<16])
      in add_regs H (foldl fips_step (regs_of H) (zip fips_K W)))"

definition fips_padding :: "nat \<Rightarrow> bytes" where
  "fips_padding len =
     0x80 # replicate ((119 - len mod 64) mod 64) 0 @ be_bytes64 (of_nat (8 * len))"

definition sha256_reference :: "bytes \<Rightarrow> string" where
  "sha256_reference msg =
     concat (map hex_byte_pair (concat (map be_bytes32
       (fst (absorb 64 fips_compress sha256_seed (msg @ fips_padding (length msg)))))))"

section \<open>The unrolled compression is the FIPS loop\<close>

lemma rotate32_rotr: "0 < c \<Longrightarrow> c < 32 \<Longrightarrow> rotate32 x c = word_rotr c x"
  using shifts_word_rotr [of c x] by (simp add: rotate32_def)

lemma f1_fips: "f1 e f g = Sigma1 e + Ch e f g"
  by (simp add: f1_def Sigma1_def Ch_def rotate32_rotr)

lemma f2_fips: "f2 a b c = Sigma0 a + Maj a b c"
proof -
  have "((a OR b) AND c) OR (a AND b) = Maj a b c"
    by (rule bit_word_eqI) (auto simp: Maj_def bit_simps)
  then show ?thesis by (simp add: f2_def Sigma0_def rotate32_rotr)
qed

lemma fips_step_line:
  "fips_step (a, b, c, d, e, f, g, h) (k, w) =
     (let (d', h') = sha_line (a, b, c, d, e, f, g, h) k w in (h', a, b, c, d', e, f, g))"
  by (simp add: f1_fips f2_fips Let_def algebra_simps)

lemma list_of_length_8:
  assumes "length xs = 8"
  obtains a0 a1 a2 a3 a4 a5 a6 a7 where "xs = [a0, a1, a2, a3, a4, a5, a6, a7]"
  using assms by (auto simp: numeral_eq_Suc length_Suc_conv)

lemma eight_lines_fips:
  assumes "length k = 8" and "8 \<le> length w"
  shows "eight_lines k w r = foldl fips_step r (zip k (take 8 w))"
proof -
  obtain k0 k1 k2 k3 k4 k5 k6 k7 where k: "k = [k0, k1, k2, k3, k4, k5, k6, k7]"
    using assms(1) by (rule list_of_length_8)
  have "length (take 8 w) = 8" using assms(2) by simp
  then obtain w0 w1 w2 w3 w4 w5 w6 w7 where t: "take 8 w = [w0, w1, w2, w3, w4, w5, w6, w7]"
    by (rule list_of_length_8)
  have n: "w ! j = take 8 w ! j" if "j < 8" for j using that by simp
  have w: "w ! 0 = w0" "w ! Suc 0 = w1" "w ! 2 = w2" "w ! 3 = w3" "w ! 4 = w4" "w ! 5 = w5" "w ! 6 = w6" "w ! 7 = w7"
    by (simp_all add: n t del: nth_take)
  obtain a b c d e f g h where r: "r = (a, b, c, d, e, f, g, h)" by (metis surj_pair)
  show ?thesis
    unfolding k t r
    by (simp add: w fips_step_line del: fips_step.simps sha_line.simps split: prod.split)
qed

lemma bit_load_le32: "bit (load_le32 [b0, b1, b2, b3]) n \<longleftrightarrow>
    n < 8 \<and> bit b0 n \<or> 8 \<le> n \<and> n < 16 \<and> bit b1 (n - 8) \<or> 16 \<le> n \<and> n < 24 \<and> bit b2 (n - 16)
    \<or> 24 \<le> n \<and> n < 32 \<and> bit b3 (n - 24)"
  by (auto simp: load_le32_def bit_or_iff bit_push_bit_iff bit_ucast_iff dest: bit_imp_le_length)

lemma load_be32_rev: "load_be32 bs = load_le32 (rev bs)"
  by (simp add: load_be32_def load_le32_def foldr_conv_foldl)

lemma bit_byte_masks:
  "bit (0x0000FF00 :: u32) n \<longleftrightarrow> 8 \<le> n \<and> n < 16" "bit (0x00FF0000 :: u32) n \<longleftrightarrow> 16 \<le> n \<and> n < 24"
proof -
  have "(0x0000FF00 :: u32) = push_bit 8 (mask 8)" "(0x00FF0000 :: u32) = push_bit 16 (mask 8)"
    by (simp_all add: mask_eq_exp_minus_1)
  then show "bit (0x0000FF00 :: u32) n \<longleftrightarrow> 8 \<le> n \<and> n < 16" "bit (0x00FF0000 :: u32) n \<longleftrightarrow> 16 \<le> n \<and> n < 24"
    by (simp only: bit_push_bit_iff bit_mask_iff; auto)+
qed

lemma bit_swap32:
  "bit (swap32 x) n \<longleftrightarrow> bit x (24 + n) \<or> bit x (8 + n) \<and> 8 \<le> n \<and> n < 16
     \<or> 16 \<le> n \<and> n < 24 \<and> bit x (n - 8) \<or> 24 \<le> n \<and> n < 32 \<and> bit x (n - 24)"
  unfolding swap32_def bit_or_iff bit_and_iff bit_drop_bit_eq bit_push_bit_iff bit_byte_masks comp_def
  by auto

lemma swap32_load: "length bs = 4 \<Longrightarrow> swap32 (load_le32 bs) = load_be32 bs"
proof -
  assume "length bs = 4"
  then obtain b0 b1 b2 b3 where bs: "bs = [b0, b1, b2, b3]"
    by (auto simp: numeral_eq_Suc length_Suc_conv)
  show ?thesis
  proof (rule bit_word_eqI)
    fix n assume "n < LENGTH(32)"
    then consider "n < 8" | "8 \<le> n" "n < 16" | "16 \<le> n" "n < 24" | "24 \<le> n" "n < 32" by fastforce
    then show "bit (swap32 (load_le32 bs)) n = bit (load_be32 bs) n"
      by cases (simp_all add: bs bit_swap32 load_be32_rev bit_load_le32, linarith+)
  qed
qed

lemma next_word_fips:
  "next_word W = (let t = length W in sigma1 (W ! (t - 2)) + W ! (t - 7) + sigma0 (W ! (t - 15)) + W ! (t - 16))"
  by (simp add: next_word_def sigma0_def sigma1_def rotate32_rotr Let_def algebra_simps)

definition grow :: "u32 list \<Rightarrow> u32 list" where
  "grow ws = ws @ [next_word ws]"

lemma fips_schedule_grow: "fips_schedule n W = (grow ^^ n) W"
proof (induction n arbitrary: W)
  case (Suc n)
  have "fips_schedule (Suc n) W = fips_schedule n (grow W)"
    by (simp only: fips_schedule.simps grow_def next_word_fips Let_def)
  then show ?case by (simp add: Suc funpow_Suc_right del: funpow.simps fips_schedule.simps)
qed simp

lemma length_grow [simp]: "length ((grow ^^ n) W) = length W + n"
  by (induction n) (simp_all add: grow_def)

lemma take_grow: "m \<le> n \<Longrightarrow> take (length W + m) ((grow ^^ n) W) = (grow ^^ m) W"
proof (induction n)
  case (Suc n)
  then show ?case by (cases "m = Suc n") (auto simp: grow_def [of "(grow ^^ n) W"] le_Suc_eq)
qed simp

lemma extend_words_take:
  assumes "length ws = m" and "m \<le> n" and "n \<le> k"
  shows "extend_words n ws = take n (extend_words k ws)"
proof -
  have "extend_words n ws = (grow ^^ (n - m)) ws" "extend_words k ws = (grow ^^ (k - m)) ws"
    using assms(1) by (simp_all add: extend_words_def grow_def [abs_def])
  then show ?thesis using take_grow [of "n - m" "k - m" ws] assms by simp
qed

lemma extend_words_twice:
  assumes "length ws = m" and "m \<le> n" and "n \<le> k"
  shows "extend_words k (extend_words n ws) = extend_words k ws"
proof -
  have "length (extend_words n ws) = n"
    using assms by (simp add: extend_words_def grow_def [abs_def, symmetric])
  then have "extend_words k (extend_words n ws) = (grow ^^ (k - n)) ((grow ^^ (n - m)) ws)"
    using assms by (simp add: extend_words_def grow_def [abs_def, symmetric])
  also have "\<dots> = (grow ^^ (k - m)) ws"
    using assms(2,3) funpow_add [of "k - n" "n - m" grow] by simp
  finally show ?thesis using assms by (simp add: extend_words_def grow_def [abs_def, symmetric])
qed

lemma length_extend_words: "length ws \<le> n \<Longrightarrow> length (extend_words n ws) = n"
  by (simp add: extend_words_def grow_def [abs_def, symmetric])

lemma foldl_zip_block:
  "foldl f r (zip (drop i xs) (drop i ys)) =
     foldl f (foldl f r (zip (take 8 (drop i xs)) (take 8 (drop i ys)))) (zip (drop (i + 8) xs) (drop (i + 8) ys))"
proof -
  have "zip (drop i xs) (drop i ys) = take 8 (zip (drop i xs) (drop i ys)) @ drop 8 (zip (drop i xs) (drop i ys))"
    by simp
  also have "\<dots> = zip (take 8 (drop i xs)) (take 8 (drop i ys)) @ zip (drop (i + 8) xs) (drop (i + 8) ys)"
    by (simp only: take_zip drop_zip drop_drop add.commute)
  finally show ?thesis by (metis foldl_append)
qed

lemma length_input_words [simp]: "length (input_words data) = 16"
  by (simp add: input_words_def)

lemma input_words_be:
  assumes "64 \<le> length data"
  shows "input_words data = map (\<lambda>i. load_be32 (take 4 (drop (4 * i) data))) [0..<16]"
  unfolding input_words_def using assms by (intro map_cong refl swap32_load) auto

lemma rounds_fips:
  "first_round words = eight_lines (take 8 (drop 0 fips_K)) (drop 0 words)"
  "second_round words = eight_lines (take 8 (drop 8 fips_K)) (drop 8 words)"
  "third_round words = eight_lines (take 8 (drop 16 fips_K)) (drop 16 words)"
  "fourth_round words = eight_lines (take 8 (drop 24 fips_K)) (drop 24 words)"
  "fifth_round words = eight_lines (take 8 (drop 32 fips_K)) (drop 32 words)"
  "sixth_round words = eight_lines (take 8 (drop 40 fips_K)) (drop 40 words)"
  "seventh_round words = eight_lines (take 8 (drop 48 fips_K)) (drop 48 words)"
  "eighth_round words = eight_lines (take 8 (drop 56 fips_K)) (drop 56 words)"
  unfolding first_round_def second_round_def third_round_def fourth_round_def
    fifth_round_def sixth_round_def seventh_round_def eighth_round_def fips_K_def
  by simp_all

lemma length_fips_K [simp]: "length fips_K = 64"
  by (simp add: fips_K_def)

lemma eight_rounds_fips:
  assumes "length W = 64"
  shows "eighth_round (take 64 W) (seventh_round (take 56 W) (sixth_round (take 48 W) (fifth_round (take 40 W)
       (fourth_round (take 32 W) (third_round (take 24 W) (second_round (take 16 W) (first_round (take 16 W) r)))))))
      = foldl fips_step r (zip fips_K W)"
proof -
  have "foldl fips_step r (zip fips_K W) = foldl fips_step r (zip (drop 0 fips_K) (drop 0 W))" by simp
  also have "\<dots> = eighth_round (take 64 W) (seventh_round (take 56 W) (sixth_round (take 48 W) (fifth_round (take 40 W)
       (fourth_round (take 32 W) (third_round (take 24 W) (second_round (take 16 W) (first_round (take 16 W) r)))))))"
    unfolding rounds_fips foldl_zip_block [where i = 0] foldl_zip_block [where i = 8] foldl_zip_block [where i = 16]
      foldl_zip_block [where i = 24] foldl_zip_block [where i = 32] foldl_zip_block [where i = 40]
      foldl_zip_block [where i = 48] foldl_zip_block [where i = 56]
      add_0 numeral_plus_numeral arith_simps
    using assms by (simp add: eight_lines_fips drop_take)
  finally show ?thesis ..
qed

lemma sha256_compress_fips:
  assumes "64 \<le> length data"
  shows "sha256_compress H data = fips_compress H data"
proof -
  let ?W0 = "input_words data"
  define W where "W = extend_words 64 ?W0"
  have len: "length W = 64" by (simp add: W_def length_extend_words)
  have ext: "extend_words n ?W0 = take n W" if "16 \<le> n" "n \<le> 64" for n
    using extend_words_take [of ?W0 16 n 64] that by (simp add: W_def)
  have again: "extend_words k (take n W) = take k W" if "16 \<le> n" "n \<le> k" "k \<le> 64" for n k
    using extend_words_twice [of ?W0 16 n k] ext [of n] ext [of k] that by simp
  have W0: "?W0 = take 16 W" using ext [of 16] by (simp add: extend_words_def)
  have sched: "fips_schedule 48 (map (\<lambda>i. load_be32 (take 4 (drop (4 * i) data))) [0..<16]) = W"
    by (simp add: W_def fips_schedule_grow extend_words_def grow_def [abs_def] flip: input_words_be [OF assms])
  have comp: "sha256_compress H data = add_regs H
     (eighth_round (take 64 W) (seventh_round (take 56 W) (sixth_round (take 48 W) (fifth_round (take 40 W)
       (fourth_round (take 32 W) (third_round (take 24 W) (second_round (take 16 W) (first_round (take 16 W) (regs_of H)))))))))"
    unfolding sha256_compress_def Let_def W0 by (simp add: again del: take_all)
  with sched eight_rounds_fips [OF len] show ?thesis by (simp add: fips_compress_def Let_def)
qed

section \<open>Buffering\<close>

type_synonym chain256 = "u32 list \<times> u64"

definition chain256 :: "sha256 \<Rightarrow> chain256" where
  "chain256 s = (hash256 s, numBytes256 s)"

definition step256 :: "chain256 \<Rightarrow> bytes \<Rightarrow> chain256" where
  "step256 c blk = (sha256_compress (fst c) blk, snd c + of_nat BlockSize)"

definition pending256 :: "sha256 \<Rightarrow> bytes" where
  "pending256 s = take (bufferSize256 s) (buffer256 s)"

definition sha256_running :: "sha256 \<Rightarrow> bool" where
  "sha256_running s \<longleftrightarrow> length (buffer256 s) = BlockSize \<and> length (hash256 s) = 8 \<and> bufferSize256 s \<le> BlockSize"

definition sha256_invar :: "sha256 \<Rightarrow> bool" where
  "sha256_invar s \<longleftrightarrow> sha256_running s \<and> length (pending256 s) < BlockSize"

lemma length_pending256: "sha256_running s \<Longrightarrow> length (pending256 s) = bufferSize256 s"
  by (simp add: sha256_running_def pending256_def)

lemma pending256_Nil: "sha256_running s \<Longrightarrow> pending256 s = [] \<longleftrightarrow> bufferSize256 s = 0"
  by (metis length_pending256 length_0_conv)

lemma BlockSize_64 [simp]: "BlockSize = 64"
  by (simp add: BlockSize_def)

lemma sha256_compress_take: "sha256_compress H (take 64 data) = sha256_compress H data"
proof -
  have "input_words (take 64 data) = input_words data"
    unfolding input_words_def by (intro map_cong refl) (auto simp: drop_take min_def)
  then show ?thesis by (simp add: sha256_compress_def)
qed

lemma length_sha256_compress [simp]: "length (sha256_compress H data) = 8"
proof -
  have "length (add_regs H r) = 8" for r by (cases r) auto
  then show ?thesis by (simp add: sha256_compress_def Let_def)
qed

interpretation sha256_buffer: byte_buffer BlockSize step256 put_byte256 fill_buffer256 flush_full256
  direct_block256 process_blocks256 add256 chain256 pending256 sha256_running
proof unfold_locales
  fix s :: sha256 and b :: u8 and xs :: bytes
  assume run: "sha256_running s"
  show "fill_buffer256 s (b # xs) =
      (if length (pending256 s) < BlockSize then fill_buffer256 (put_byte256 s b) xs else (s, b # xs))"
    using run by (simp add: length_pending256)
  show "process_blocks256 s xs = (if BlockSize \<le> length xs
      then process_blocks256 (direct_block256 s xs) (drop BlockSize xs) else (s, xs))"
    by (subst process_blocks256.simps) simp
  show "add256 s xs = (let (s1, xs1) = if pending256 s \<noteq> [] then fill_buffer256 s xs else (s, xs);
      s2 = flush_full256 s1 in if xs1 = [] then s2
      else let (s3, xs3) = process_blocks256 s2 xs1 in foldl put_byte256 s3 xs3)"
    using run by (simp add: add256_def pending256_Nil)
  show "sha256_running (put_byte256 s b) \<and> chain256 (put_byte256 s b) = chain256 s
      \<and> pending256 (put_byte256 s b) = pending256 s @ [b]" if "length (pending256 s) < BlockSize"
    using that run length_pending256 [OF run]
    by (simp add: put_byte256_def chain256_def sha256_running_def pending256_def take_Suc_conv_app_nth)
  show "flush_full256 s = s" if "length (pending256 s) < BlockSize"
    using that run by (simp add: flush_full256_def length_pending256)
  show "sha256_running (flush_full256 s) \<and> chain256 (flush_full256 s) = step256 (chain256 s) (pending256 s)
      \<and> pending256 (flush_full256 s) = []" if "length (pending256 s) = BlockSize"
    using that run length_pending256 [OF run]
    by (simp add: flush_full256_def chain256_def step256_def sha256_running_def pending256_def processBlock256_def)
  show "sha256_running (direct_block256 s xs) \<and> chain256 (direct_block256 s xs) = step256 (chain256 s) (take BlockSize xs)
      \<and> pending256 (direct_block256 s xs) = []" if "pending256 s = []"
    using that run
    by (simp add: direct_block256_def chain256_def step256_def sha256_running_def pending256_def processBlock256_def
      sha256_compress_take)
qed simp_all

lemma store_at_eq:
  assumes "pos + length xs \<le> length buf"
  shows "store_at buf pos xs = take pos buf @ xs @ drop (pos + length xs) buf"
proof -
  have "foldl (\<lambda>b i. b[pos + i := xs ! i]) buf [0..<n] = take pos buf @ take n xs @ drop (pos + n) buf"
    if "n \<le> length xs" for n
    using that
  proof (induction n)
    case (Suc n)
    then have "drop (pos + n) buf = buf ! (pos + n) # drop (pos + Suc n) buf"
      using assms by (metis Cons_nth_drop_Suc add_Suc_right le_less_trans nat_add_left_cancel_less not_less_eq_eq linorder_not_le)
    with Suc assms show ?case
      by (simp add: list_update_append take_Suc_conv_app_nth)
  qed simp
  then show ?thesis by (simp add: store_at_def)
qed

lemma clear_eq:
  assumes "m \<le> r" and "r \<le> length buf"
  shows "foldl (\<lambda>b i. b[i := 0]) buf [m..<r] = take m buf @ replicate (r - m) 0 @ drop r (buf :: bytes)"
proof (rule nth_equalityI)
  show "length (foldl (\<lambda>b i. b[i := 0]) buf [m..<r]) = length (take m buf @ replicate (r - m) 0 @ drop r buf)"
    using assms by simp
next
  fix i assume "i < length (foldl (\<lambda>b i. b[i := 0]) buf [m..<r])"
  then show "foldl (\<lambda>b i. b[i := 0]) buf [m..<r] ! i = (take m buf @ replicate (r - m) 0 @ drop r buf) ! i"
    using assms by (auto simp: foldl_clear_nth nth_append)
qed

lemma padded_length_eq: "n < 64 \<Longrightarrow> padded_length n = (if n < 56 then 56 else 120)"
  by (auto simp: padded_length_def Let_def)

lemma length_be_bytes64 [simp]: "length (be_bytes64 n) = 8"
  by (simp add: be_bytes64_def)

lemma clear_extra: "length extra = 64 \<Longrightarrow>
  foldl (\<lambda>b i. b[i - 64 := 0]) extra [64..<120] = replicate 56 0 @ drop 56 (extra :: bytes)"
proof -
  assume len: "length extra = 64"
  have "foldl (\<lambda>b i. b[i - 64 := 0]) extra [64..<120] = foldl (\<lambda>b i. b[i := 0]) extra [0..<56]"
    using foldl_map [of "\<lambda>b i. b[i - 64 := (0 :: u8)]" extra "\<lambda>i. i + 64" "[0..<56]"] map_add_upt [of 64 56]
    by simp
  with len show ?thesis using clear_eq [of 0 56 extra] by simp
qed

section \<open>Padding and digest\<close>

lemma absorb_step256:
  "absorb 64 step256 c msg =
     ((fst (absorb 64 fips_compress (fst c) msg), snd c + of_nat (length msg - length msg mod 64)),
      snd (absorb 64 fips_compress (fst c) msg))"
proof (induction "length msg" arbitrary: c msg rule: less_induct)
  case less
  show ?case
  proof (cases "length msg < 64")
    case False
    then have "length (drop 64 msg) < length msg" by (cases msg) auto
    from less [OF this, of "step256 c (take 64 msg)"] False
    have "absorb 64 step256 c msg =
       ((fst (absorb 64 fips_compress (fips_compress (fst c) (take 64 msg)) (drop 64 msg)),
         snd c + 64 + of_nat (length msg - 64 - (length msg - 64) mod 64)),
        snd (absorb 64 fips_compress (fips_compress (fst c) (take 64 msg)) (drop 64 msg)))"
      by (simp add: absorb_block step256_def sha256_compress_fips)
    moreover have "64 + of_nat (length msg - 64 - (length msg - 64) mod 64)
        = (of_nat (length msg - length msg mod 64) :: u64)"
    proof -
      from False have eq: "length msg = 64 + (length msg - 64)" by simp
      then have "length msg mod 64 = (length msg - 64) mod 64" by (metis mod_add_self1)
      moreover have "(length msg - 64) mod 64 \<le> length msg - 64" by simp
      ultimately have "length msg - length msg mod 64 = 64 + (length msg - 64 - (length msg - 64) mod 64)"
        using eq by linarith
      then show ?thesis by (metis of_nat_add of_nat_numeral)
    qed
    ultimately show ?thesis using False by (simp add: absorb_block add.assoc)
  qed (simp add: absorb_short)
qed

definition spill256 :: "nat \<Rightarrow> bytes" where
  "spill256 n = 0x80 # replicate ((119 - n) mod 64) 0"

lemma marked_buffer:
  assumes "length buf = 64" and "n < 64"
  shows "foldl (\<lambda>b i. b[i := 0]) (buf[n := 0x80]) [n + 1..<64] = take n buf @ 0x80 # replicate (63 - n) (0 :: u8)"
proof -
  have "take (n + 1) (buf[n := 0x80]) = take n buf @ [0x80]"
    using assms by (simp add: take_Suc_conv_app_nth)
  then show ?thesis using clear_eq [of "n + 1" 64 "buf[n := 0x80]"] assms by simp
qed

lemma processBuffer256_short:
  assumes "sha256_invar s" and "bufferSize256 s < 56"
  defines "blk \<equiv> pending256 s @ 0x80 # replicate (55 - bufferSize256 s) 0
    @ be_bytes64 (8 * (numBytes256 s + of_nat (bufferSize256 s)))"
  shows "processBuffer256 stack s = (processBlock256 s blk)\<lparr>buffer256 := blk\<rparr>" and "length blk = 64"
proof -
  let ?n = "bufferSize256 s"
  have b: "length (buffer256 s) = 64" using assms(1) by (simp add: sha256_invar_def sha256_running_def)
  note m = marked_buffer [OF b, of ?n]
  have "replicate (63 - ?n) (0 :: u8) = replicate (55 - ?n) 0 @ replicate 8 0"
    using assms(2) by (simp flip: replicate_add)
  moreover have "56 - ?n = Suc (55 - ?n)" using assms(2) by simp
  ultimately have "store_at (take ?n (buffer256 s) @ 0x80 # replicate (63 - ?n) 0) 56
      (be_bytes64 (8 * (numBytes256 s + of_nat ?n))) = blk"
    using assms(2) b by (subst store_at_eq) (simp_all add: blk_def pending256_def)
  then show "processBuffer256 stack s = (processBlock256 s blk)\<lparr>buffer256 := blk\<rparr>"
    using assms(2) m by (simp add: processBuffer256_def Let_def padded_length_eq processBlock256_def)
  show "length blk = 64"
    using assms(2) length_pending256 [of s] assms(1) by (simp add: blk_def sha256_invar_def)
qed

lemma processBuffer256_long:
  assumes "sha256_invar s" and "56 \<le> bufferSize256 s"
  defines "blk \<equiv> pending256 s @ 0x80 # replicate (63 - bufferSize256 s) 0"
    and "blk2 \<equiv> replicate 56 0 @ be_bytes64 (8 * (numBytes256 s + of_nat (bufferSize256 s)))"
  shows "processBuffer256 stack s = (processBlock256 (processBlock256 s blk) blk2)\<lparr>buffer256 := blk\<rparr>"
    and "length blk = 64" and "length blk2 = 64"
proof -
  let ?n = "bufferSize256 s"
  have b: "length (buffer256 s) = 64" and lt: "?n < 64"
    using assms(1) length_pending256 [of s] by (simp_all add: sha256_invar_def sha256_running_def)
  note m = marked_buffer [OF b lt]
  have e: "length (take 64 (stack @ replicate 64 (0 :: u8))) = 64" by simp
  have "store_at (replicate 56 0 @ drop 56 (take 64 (stack @ replicate 64 0))) 56
      (be_bytes64 (8 * (numBytes256 s + of_nat ?n))) = blk2"
    by (subst store_at_eq) (simp_all add: blk2_def)
  then show "processBuffer256 stack s = (processBlock256 (processBlock256 s blk) blk2)\<lparr>buffer256 := blk\<rparr>"
    using assms(2) lt m clear_extra [OF e]
    by (simp add: processBuffer256_def Let_def padded_length_eq processBlock256_def blk_def pending256_def max_def)
  show "length blk = 64" "length blk2 = 64"
    using lt length_pending256 [of s] assms(1) by (simp_all add: blk_def blk2_def sha256_invar_def)
qed

lemma processBuffer256_hash:
  assumes inv: "sha256_invar s"
  shows "hash256 (processBuffer256 stack s) = fst (absorb 64 fips_compress (hash256 s)
      (pending256 s @ spill256 (bufferSize256 s) @ be_bytes64 (8 * (numBytes256 s + of_nat (bufferSize256 s)))))"
proof (cases "bufferSize256 s < 56")
  case True
  note p = processBuffer256_short [OF inv True]
  have "(119 - bufferSize256 s) mod 64 = 55 - bufferSize256 s"
    using True by (simp add: le_mod_geq)
  then show ?thesis
    using p True by (simp add: spill256_def processBlock256_def absorb_one sha256_compress_fips)
next
  case False
  then have n: "56 \<le> bufferSize256 s" by simp
  note p = processBuffer256_long [OF inv n]
  have lt: "bufferSize256 s < 64" using inv length_pending256 [of s] by (simp add: sha256_invar_def)
  then have "(119 - bufferSize256 s) mod 64 = (63 - bufferSize256 s) + 56" using n by simp
  then have "spill256 (bufferSize256 s) = 0x80 # replicate (63 - bufferSize256 s) 0 @ replicate 56 0"
    by (simp only: spill256_def replicate_add)
  then show ?thesis
    using p absorb_two [OF _ p(2,3), of fips_compress "hash256 s"]
    by (simp add: processBlock256_def sha256_compress_fips)
qed

lemma processBuffer256_keeps:
  assumes "sha256_invar s"
  shows "sha256_invar (processBuffer256 stack s)" and "numBytes256 (processBuffer256 stack s) = numBytes256 s"
    and "pending256 (processBuffer256 stack s) = pending256 s"
proof -
  have p: "length (pending256 s) = bufferSize256 s" "length (hash256 s) = 8" "bufferSize256 s < 64"
    using assms length_pending256 [of s] by (auto simp: sha256_invar_def sha256_running_def)
  have "sha256_invar (processBuffer256 stack s) \<and> numBytes256 (processBuffer256 stack s) = numBytes256 s
      \<and> pending256 (processBuffer256 stack s) = pending256 s"
  proof (cases "bufferSize256 s < 56")
    case True
    show ?thesis
      using processBuffer256_short [OF assms True] p
      by (simp add: sha256_invar_def sha256_running_def pending256_def [of "sha256.buffer256_update _ _"] processBlock256_def)
  next
    case False
    show ?thesis
      using processBuffer256_long [OF assms] False p
      by (simp add: sha256_invar_def sha256_running_def pending256_def [of "sha256.buffer256_update _ _"] processBlock256_def)
  qed
  then show "sha256_invar (processBuffer256 stack s)" "numBytes256 (processBuffer256 stack s) = numBytes256 s"
    "pending256 (processBuffer256 stack s) = pending256 s" by blast+
qed

lemma getHash256_stream:
  assumes inv: "sha256_invar s" and view: "(chain256 s, pending256 s) = absorb 64 step256 (sha256_seed, 0) msg"
  shows "fst (getHash256 stack s) = sha256_reference msg"
proof -
  have h: "hash256 s = fst (absorb 64 fips_compress sha256_seed msg)"
    and n: "numBytes256 s = of_nat (length msg - length msg mod 64)"
    and p: "pending256 s = snd (absorb 64 fips_compress sha256_seed msg)"
    using view by (simp_all add: chain256_def absorb_step256)
  have len: "bufferSize256 s = length msg mod 64"
    using inv length_pending256 [of s] p by (simp add: sha256_invar_def absorb_rest_drop)
  have "of_nat (length msg - length msg mod 64) + of_nat (length msg mod 64) = (of_nat (length msg) :: u64)"
    by (simp flip: of_nat_add)
  then have bits: "8 * (numBytes256 s + of_nat (bufferSize256 s)) = (of_nat (8 * length msg) :: u64)"
    using n len by simp
  have "spill256 (bufferSize256 s) @ be_bytes64 (8 * (numBytes256 s + of_nat (bufferSize256 s))) = fips_padding (length msg)"
    unfolding bits by (simp add: spill256_def fips_padding_def len)
  then have "hash256 (processBuffer256 stack s) = fst (absorb 64 fips_compress sha256_seed (msg @ fips_padding (length msg)))"
    using processBuffer256_hash [OF inv, of stack] h p
      absorb_append [of 64 fips_compress sha256_seed msg "fips_padding (length msg)"]
    by (simp add: split_beta)
  then show ?thesis by (simp add: getHash256_def getHash256_raw_def Let_def sha256_reference_def)
qed

lemma getHash256_keeps:
  assumes "sha256_invar s"
  shows "sha256_invar (snd (getHash256 stack s))" and "chain256 (snd (getHash256 stack s)) = chain256 s"
    and "pending256 (snd (getHash256 stack s)) = pending256 s"
proof -
  have g: "snd (getHash256 stack s) = (processBuffer256 stack s)\<lparr>hash256 := hash256 s\<rparr>"
    by (simp add: getHash256_def getHash256_raw_def Let_def)
  have p: "pending256 (t\<lparr>hash256 := h\<rparr>) = pending256 t" for t h by (simp add: pending256_def)
  note k = processBuffer256_keeps [OF assms, of stack]
  show "sha256_invar (snd (getHash256 stack s))"
    using k(1) assms by (simp add: g p sha256_invar_def sha256_running_def)
  show "chain256 (snd (getHash256 stack s)) = chain256 s" "pending256 (snd (getHash256 stack s)) = pending256 s"
    using k(2,3) by (simp_all add: g p chain256_def)
qed

lemma sha256_new: "sha256_invar (SHA256_Legacy garbage)" "chain256 (SHA256_Legacy garbage) = (sha256_seed, 0)"
  "pending256 (SHA256_Legacy garbage) = []"
  by (simp_all add: SHA256_Legacy_def reset256_def sha256_invar_def sha256_running_def chain256_def pending256_def sha256_seed_def)

lemma sha256_reset:
  assumes "sha256_invar s"
  shows "sha256_invar (reset256 s)" "chain256 (reset256 s) = (sha256_seed, 0)" "pending256 (reset256 s) = []"
  using assms by (simp_all add: reset256_def sha256_invar_def sha256_running_def chain256_def pending256_def sha256_seed_def)

lemmas sha256_feeds = sha256_buffer.feeds_absorb [folded sha256_invar_def, unfolded BlockSize_64]

lemmas sha256_invar_feeds = sha256_buffer.invar_feeds [folded sha256_invar_def]

lemma sha256_call_reference:
  assumes "sha256_invar s"
  shows "fst (sha256_call stack s data) = sha256_reference data"
proof -
  note r = sha256_reset [OF assms]
  have "(chain256 (add256 (reset256 s) data), pending256 (add256 (reset256 s) data))
      = absorb 64 step256 (sha256_seed, 0) data"
    using sha256_feeds [OF r(1), of "[data]"] r(2,3) by simp
  moreover have "sha256_invar (add256 (reset256 s) data)" using sha256_invar_feeds [OF r(1), of "[data]"] by simp
  ultimately show ?thesis by (simp add: sha256_call_def getHash256_stream)
qed

section \<open>The digest as bytes\<close>

definition sha256_digest :: "bytes \<Rightarrow> bytes" where
  "sha256_digest msg =
     concat (map be_bytes32 (fst (absorb 64 fips_compress sha256_seed (msg @ fips_padding (length msg)))))"

lemma absorb_keeps_length:
  assumes "\<And>h b. length (f h b) = n" and "length h = n"
  shows "length (fst (absorb bs f h msg)) = n"
  using assms by (induction bs f h msg rule: absorb.induct) (subst absorb.simps, auto)

lemma length_fips_compress: "length (fips_compress H blk) = 8"
proof -
  have "length (add_regs H r) = 8" for r by (cases r) auto
  then show ?thesis by (simp add: fips_compress_def Let_def)
qed

lemma length_sha256_digest: "length (sha256_digest msg) = 32"
proof -
  have "length (concat (map be_bytes32 xs)) = 4 * length xs" for xs
    by (induction xs) (simp_all add: be_bytes32_def)
  then show ?thesis
    by (simp add: sha256_digest_def absorb_keeps_length [of _ 8] length_fips_compress sha256_seed_def)
qed

lemma hex_byte_pair_digits: "hex_byte_pair b = [hex_digit (unat b div 16), hex_digit (unat b mod 16)]"
  by (simp add: hex_byte_pair_def hex_digit_def unat_drop_bit_4 unat_and_15)

lemma to_hex_pairs: "to_hex bs = concat (map hex_byte_pair bs)"
  by (simp add: to_hex_digits hex_byte_pair_digits [abs_def])

lemma sha256_reference_digest: "sha256_reference data = to_hex (sha256_digest data)"
  by (simp add: sha256_reference_def sha256_digest_def to_hex_pairs)

lemma sha256_call_keeps: "sha256_invar s \<Longrightarrow> sha256_invar (snd (sha256_call stack s data))"
  using sha256_invar_feeds [OF sha256_reset(1), of s "[data]"]
  by (simp add: sha256_call_def getHash256_keeps)

section \<open>Properties\<close>

text \<open>
  C23. A call of a \<open>SHA256_Legacy\<close> object returns the FIPS 180-4 digest of its argument: the
  unrolled compression with its interleaved message schedule is the 64-step loop, the byte
  buffering cuts the input into the right blocks, and the padding is right also when it spills
  into a second block. Neither the previous use of the object nor the uninitialised stack
  array matters.
\<close>

theorem sha256_call_is_fips:
  assumes "sha256_invar s"
  shows "fst (sha256_call stack s data) = sha256_reference data"
  using assms by (rule sha256_call_reference)

theorem sha256_call_is_fips_witness:
  "sha256_invar (SHA256_Legacy []) \<and>
   fst (sha256_call [] (SHA256_Legacy []) [97, 98, 99]) = sha256_reference [97, 98, 99]"
  using sha256_new(1) sha256_call_is_fips [OF sha256_new(1), of "[]" "[]" "[97, 98, 99]"] by simp

text \<open>
  Streaming SHA-256: any number of \<open>add\<close> calls gives the digest of the concatenated input, and
  reading the digest in between leaves the stream as it was.
\<close>

lemma sha256_chunks_and_peeking:
  fixes garbage stack stack' :: bytes and chunks more :: "bytes list"
  defines "s \<equiv> foldl add256 (SHA256_Legacy garbage) chunks"
  shows "fst (getHash256 stack s) = sha256_reference (concat chunks)
    \<and> fst (getHash256 stack' (foldl add256 (snd (getHash256 stack s)) more)) = sha256_reference (concat chunks @ concat more)"
proof
  have inv: "sha256_invar s" unfolding s_def by (rule sha256_invar_feeds [OF sha256_new(1)])
  have view: "(chain256 s, pending256 s) = absorb 64 step256 (sha256_seed, 0) (concat chunks)"
    using sha256_feeds [OF sha256_new(1), of garbage chunks] by (simp add: s_def sha256_new)
  then show "fst (getHash256 stack s) = sha256_reference (concat chunks)" by (rule getHash256_stream [OF inv])
  let ?g = "snd (getHash256 stack s)"
  note g = getHash256_keeps [OF inv, of stack]
  have "(chain256 (foldl add256 ?g more), pending256 (foldl add256 ?g more))
      = absorb 64 step256 (sha256_seed, 0) (concat chunks @ concat more)"
    using sha256_feeds [OF g(1), of more] g(2,3) view
      absorb_append [of 64 step256 "(sha256_seed, 0)" "concat chunks" "concat more"]
    by (simp split: prod.splits)
  then show "fst (getHash256 stack' (foldl add256 ?g more)) = sha256_reference (concat chunks @ concat more)"
    by (rule getHash256_stream [OF sha256_invar_feeds [OF g(1)]])
qed

end
