(* ===== verification/Sha512.thy ===== *)
theory Sha512
  imports Sha256
begin

text \<open>
  The class \<open>SHA512\<close> of \<open>crypto/SHA512\<close> and \<open>HMAC_512\<close> of \<open>crypto/HMAC_512\<close>. The class counts bytes
  in \<open>unsigned int\<close>, so lengths are 32-bit words here; the message argument of \<open>update\<close> is the
  memory the pointer gives access to, of which \<open>len\<close> bytes are read. The reference is FIPS 180-4
  with its 128-bit length field, and RFC 2104 for the message authentication code.
\<close>

section \<open>Definitions\<close>

record sha512 =
  m_tot_len :: u32
  m_len :: u32
  m_block :: bytes
  m_h :: "u64 list"

definition sha512_k :: "u64 list" where
  "sha512_k = concat [
     [0x428a2f98d728ae22, 0x7137449123ef65cd], [0xb5c0fbcfec4d3b2f, 0xe9b5dba58189dbbc],
     [0x3956c25bf348b538, 0x59f111f1b605d019], [0x923f82a4af194f9b, 0xab1c5ed5da6d8118],
     [0xd807aa98a3030242, 0x12835b0145706fbe], [0x243185be4ee4b28c, 0x550c7dc3d5ffb4e2],
     [0x72be5d74f27b896f, 0x80deb1fe3b1696b1], [0x9bdc06a725c71235, 0xc19bf174cf692694],
     [0xe49b69c19ef14ad2, 0xefbe4786384f25e3], [0x0fc19dc68b8cd5b5, 0x240ca1cc77ac9c65],
     [0x2de92c6f592b0275, 0x4a7484aa6ea6e483], [0x5cb0a9dcbd41fbd4, 0x76f988da831153b5],
     [0x983e5152ee66dfab, 0xa831c66d2db43210], [0xb00327c898fb213f, 0xbf597fc7beef0ee4],
     [0xc6e00bf33da88fc2, 0xd5a79147930aa725], [0x06ca6351e003826f, 0x142929670a0e6e70],
     [0x27b70a8546d22ffc, 0x2e1b21385c26c926], [0x4d2c6dfc5ac42aed, 0x53380d139d95b3df],
     [0x650a73548baf63de, 0x766a0abb3c77b2a8], [0x81c2c92e47edaee6, 0x92722c851482353b],
     [0xa2bfe8a14cf10364, 0xa81a664bbc423001], [0xc24b8b70d0f89791, 0xc76c51a30654be30],
     [0xd192e819d6ef5218, 0xd69906245565a910], [0xf40e35855771202a, 0x106aa07032bbd1b8],
     [0x19a4c116b8d2d0c8, 0x1e376c085141ab53], [0x2748774cdf8eeb99, 0x34b0bcb5e19b48a8],
     [0x391c0cb3c5c95a63, 0x4ed8aa4ae3418acb], [0x5b9cca4f7763e373, 0x682e6ff3d6b2b8a3],
     [0x748f82ee5defb2fc, 0x78a5636f43172f60], [0x84c87814a1f0ab72, 0x8cc702081a6439ec],
     [0x90befffa23631e28, 0xa4506cebde82bde9], [0xbef9a3f7b2c67915, 0xc67178f2e372532b],
     [0xca273eceea26619c, 0xd186b8c721c0c207], [0xeada7dd6cde0eb1e, 0xf57d4f7fee6ed178],
     [0x06f067aa72176fba, 0x0a637dc5a2c898a6], [0x113f9804bef90dae, 0x1b710b35131c471b],
     [0x28db77f523047d84, 0x32caab7b40c72493], [0x3c9ebe0a15c9bebc, 0x431d67c49c100d4c],
     [0x4cc5d4becb3e42b6, 0x597f299cfc657e2a], [0x5fcb6fab3ad6faec, 0x6c44198c4a475817]]"

definition SHA2_ROTR :: "u64 \<Rightarrow> nat \<Rightarrow> u64" where
  "SHA2_ROTR x n = drop_bit n x OR push_bit (64 - n) x"

definition SHA2_CH :: "u64 \<Rightarrow> u64 \<Rightarrow> u64 \<Rightarrow> u64" where
  "SHA2_CH x y z = (x AND y) XOR (NOT x AND z)"

definition SHA2_MAJ :: "u64 \<Rightarrow> u64 \<Rightarrow> u64 \<Rightarrow> u64" where
  "SHA2_MAJ x y z = (x AND y) XOR (x AND z) XOR (y AND z)"

definition SHA512_F1 :: "u64 \<Rightarrow> u64" where
  "SHA512_F1 x = SHA2_ROTR x 28 XOR SHA2_ROTR x 34 XOR SHA2_ROTR x 39"

definition SHA512_F2 :: "u64 \<Rightarrow> u64" where
  "SHA512_F2 x = SHA2_ROTR x 14 XOR SHA2_ROTR x 18 XOR SHA2_ROTR x 41"

definition SHA512_F3 :: "u64 \<Rightarrow> u64" where
  "SHA512_F3 x = SHA2_ROTR x 1 XOR SHA2_ROTR x 8 XOR drop_bit 7 x"

definition SHA512_F4 :: "u64 \<Rightarrow> u64" where
  "SHA512_F4 x = SHA2_ROTR x 19 XOR SHA2_ROTR x 61 XOR drop_bit 6 x"

definition SHA2_PACK64 :: "bytes \<Rightarrow> u64" where
  "SHA2_PACK64 str =
     ucast (str ! 7) OR push_bit 8 (ucast (str ! 6)) OR push_bit 16 (ucast (str ! 5)) OR push_bit 24 (ucast (str ! 4)) OR
     push_bit 32 (ucast (str ! 3)) OR push_bit 40 (ucast (str ! 2)) OR push_bit 48 (ucast (str ! 1)) OR push_bit 56 (ucast (str ! 0))"

text \<open>One block of \<open>transform\<close>: the word array \<open>w\<close>, then the array \<open>wv\<close> shifted in place 80 times.\<close>

definition schedule_word :: "u64 list \<Rightarrow> u64 list" where
  "schedule_word w =
     (let j = length w in
      w @ [SHA512_F4 (w ! (j - 2)) + w ! (j - 7) + SHA512_F3 (w ! (j - 15)) + w ! (j - 16)])"

definition wv_step :: "u64 list \<Rightarrow> u64 list \<Rightarrow> nat \<Rightarrow> u64 list" where
  "wv_step w wv j =
     (let t1 = wv ! 7 + SHA512_F2 (wv ! 4) + SHA2_CH (wv ! 4) (wv ! 5) (wv ! 6) + sha512_k ! j + w ! j;
          t2 = SHA512_F1 (wv ! 0) + SHA2_MAJ (wv ! 0) (wv ! 1) (wv ! 2);
          wv = wv[7 := wv ! 6];
          wv = wv[6 := wv ! 5];
          wv = wv[5 := wv ! 4];
          wv = wv[4 := wv ! 3 + t1];
          wv = wv[3 := wv ! 2];
          wv = wv[2 := wv ! 1];
          wv = wv[1 := wv ! 0]
      in wv[0 := t1 + t2])"

definition sha512_compress :: "u64 list \<Rightarrow> bytes \<Rightarrow> u64 list" where
  "sha512_compress H sub_block =
     (let w = map (\<lambda>j. SHA2_PACK64 (drop (8 * j) sub_block)) [0..<16];
          w = (schedule_word ^^ 64) w;
          wv = foldl (wv_step w) (map (\<lambda>j. H ! j) [0..<8]) [0..<80]
      in foldl (\<lambda>H j. H[j := H ! j + wv ! j]) H [0..<8])"

definition transform :: "sha512 \<Rightarrow> bytes \<Rightarrow> u32 \<Rightarrow> sha512" where
  "transform s message block_nb =
     s\<lparr>m_h := foldl (\<lambda>H i. sha512_compress H (drop (128 * i) message)) (m_h s) [0..<unat block_nb]\<rparr>"

definition sha512_seed :: "u64 list" where
  "sha512_seed = [0x6a09e667f3bcc908, 0xbb67ae8584caa73b, 0x3c6ef372fe94f82b, 0xa54ff53a5f1d36f1,
                  0x510e527fade682d1, 0x9b05688c2b3e6c1f, 0x1f83d9abfb41bd6b, 0x5be0cd19137e2179]"

definition init512 :: "sha512 \<Rightarrow> sha512" where
  "init512 s = s\<lparr>m_h := sha512_seed, m_len := 0, m_tot_len := 0\<rparr>"

definition SHA384_512_BLOCK_SIZE :: u32 where "SHA384_512_BLOCK_SIZE = 1024 div 8"

definition DIGEST_SIZE :: nat where "DIGEST_SIZE = 512 div 8"

definition update512 :: "sha512 \<Rightarrow> bytes \<Rightarrow> u32 \<Rightarrow> sha512" where
  "update512 s message len =
     (let tmp_len = SHA384_512_BLOCK_SIZE - m_len s;
          rem_len = (if len < tmp_len then len else tmp_len);
          s = s\<lparr>m_block := store_at (m_block s) (unat (m_len s)) (take (unat rem_len) message)\<rparr>
      in if m_len s + len < SHA384_512_BLOCK_SIZE then s\<lparr>m_len := m_len s + len\<rparr>
         else
          (let new_len = len - rem_len;
               block_nb = new_len div SHA384_512_BLOCK_SIZE;
               shifted_message = drop (unat rem_len) message;
               s = transform s (m_block s) 1;
               s = transform s shifted_message block_nb;
               rem_len = new_len mod SHA384_512_BLOCK_SIZE;
               s = s\<lparr>m_block := store_at (m_block s) 0 (take (unat rem_len) (drop (unat (push_bit 7 block_nb)) shifted_message))\<rparr>
           in s\<lparr>m_len := rem_len, m_tot_len := m_tot_len s + push_bit 7 (block_nb + 1)\<rparr>))"

definition unpack64 :: "u64 \<Rightarrow> bytes" where
  "unpack64 x = map (\<lambda>k. ucast (drop_bit k x)) [56, 48, 40, 32, 24, 16, 8, 0]"

definition final512 :: "sha512 \<Rightarrow> bytes \<times> sha512" where
  "final512 s =
     (let block_nb = 1 + (if SHA384_512_BLOCK_SIZE - 17 < m_len s mod SHA384_512_BLOCK_SIZE then 1 else 0);
          len_b = push_bit 3 (m_tot_len s + m_len s);
          pm_len = push_bit 7 block_nb;
          block = store_at (m_block s) (unat (m_len s)) (replicate (unat (pm_len - m_len s)) 0);
          block = block[unat (m_len s) := 0x80];
          block = store_at block (unat (pm_len - 4)) (be_bytes32 len_b);
          s = transform (s\<lparr>m_block := block\<rparr>) block block_nb
      in (concat (map unpack64 (m_h s)), s))"

text \<open>
  \<open>SHA512 ctx = SHA512()\<close> value-initialises the members; \<open>input.length()\<close> is converted to
  \<open>unsigned int\<close> by the call.
\<close>

definition SHA512_new :: sha512 where
  "SHA512_new = \<lparr>m_tot_len = 0, m_len = 0, m_block = replicate 256 0, m_h = replicate 8 0\<rparr>"

definition get_hash :: "bytes \<Rightarrow> bytes" where
  "get_hash input = fst (final512 (update512 (init512 SHA512_new) input (of_nat (length input))))"

definition sha512_hex :: "bytes \<Rightarrow> string" where
  "sha512_hex input = concat (map hex_byte_pair (get_hash input))"

definition get_hmac_raw :: "bytes \<Rightarrow> bytes \<Rightarrow> bytes" where
  "get_hmac_raw key msg =
     (let block_size = unat SHA384_512_BLOCK_SIZE;
          key = (if length key < block_size then key @ replicate (block_size - length key) 0 else key);
          ikeypad = map (\<lambda>i. 0x36 XOR key ! i) [0..<block_size];
          okeypad = map (\<lambda>i. 0x5c XOR key ! i) [0..<block_size]
      in get_hash (okeypad @ get_hash (ikeypad @ msg)))"

definition get_hmac :: "bytes \<Rightarrow> bytes \<Rightarrow> bool \<Rightarrow> string" where
  "get_hmac key msg hex_out =
     (if hex_out then to_hex (get_hmac_raw key msg) else string_of_bytes (get_hmac_raw key msg))"

section \<open>The references\<close>

fun fips512_step :: "u64 list \<Rightarrow> u64 \<times> u64 \<Rightarrow> u64 list" where
  "fips512_step [a, b, c, d, e, f, g, h] (k, w) =
     (let T1 = h + (word_rotr 14 e XOR word_rotr 18 e XOR word_rotr 41 e) + ((e AND f) XOR (NOT e AND g)) + k + w;
          T2 = (word_rotr 28 a XOR word_rotr 34 a XOR word_rotr 39 a) + ((a AND b) XOR (a AND c) XOR (b AND c))
      in [T1 + T2, a, b, c, d + T1, e, f, g])"
| "fips512_step regs kw = regs"

fun fips512_schedule :: "nat \<Rightarrow> u64 list \<Rightarrow> u64 list" where
  "fips512_schedule 0 W = W"
| "fips512_schedule (Suc n) W =
     (let t = length W in
      fips512_schedule n (W @ [
        (word_rotr 19 (W ! (t - 2)) XOR word_rotr 61 (W ! (t - 2)) XOR drop_bit 6 (W ! (t - 2))) + W ! (t - 7) +
        (word_rotr 1 (W ! (t - 15)) XOR word_rotr 8 (W ! (t - 15)) XOR drop_bit 7 (W ! (t - 15))) + W ! (t - 16)]))"

definition load_be64 :: "bytes \<Rightarrow> u64" where
  "load_be64 bs = foldl (\<lambda>acc b. push_bit 8 acc OR ucast b) 0 bs"

definition fips512_compress :: "u64 list \<Rightarrow> bytes \<Rightarrow> u64 list" where
  "fips512_compress H block =
     (let W = fips512_schedule 64 (map (\<lambda>i. load_be64 (take 8 (drop (8 * i) block))) [0..<16])
      in map2 (+) H (foldl fips512_step H (zip sha512_k W)))"

definition be_bytes128 :: "nat \<Rightarrow> bytes" where
  "be_bytes128 n = map (\<lambda>k. of_nat (n div 256 ^ k)) (rev [0..<16])"

definition fips512_padding :: "nat \<Rightarrow> bytes" where
  "fips512_padding len = 0x80 # replicate ((239 - len mod 128) mod 128) 0 @ be_bytes128 (8 * len)"

definition sha512_reference :: "bytes \<Rightarrow> bytes" where
  "sha512_reference msg =
     concat (map unpack64 (fst (absorb 128 fips512_compress sha512_seed (msg @ fips512_padding (length msg)))))"

text \<open>RFC 2104: a key longer than the block is hashed first.\<close>

definition hmac_reference :: "(bytes \<Rightarrow> bytes) \<Rightarrow> bytes \<Rightarrow> bytes \<Rightarrow> bytes" where
  "hmac_reference hash key msg =
     (let k = (if 128 < length key then hash key else key);
          k = k @ replicate (128 - length k) 0
      in hash (map ((XOR) 0x5c) k @ hash (map ((XOR) 0x36) k @ msg)))"

section \<open>The compression\<close>

lemma SHA2_ROTR_rotr: "0 < c \<Longrightarrow> c < 64 \<Longrightarrow> SHA2_ROTR x c = word_rotr c x"
  using shifts_word_rotr [of c x] by (simp add: SHA2_ROTR_def)

lemma SHA2_PACK64_be: "8 \<le> length str \<Longrightarrow> SHA2_PACK64 str = load_be64 (take 8 str)"
proof -
  assume "8 \<le> length str"
  then have "length (take 8 str) = 8" by simp
  then obtain b0 b1 b2 b3 b4 b5 b6 b7 where t: "take 8 str = [b0, b1, b2, b3, b4, b5, b6, b7]"
    by (rule list_of_length_8)
  have n: "str ! j = take 8 str ! j" if "j < 8" for j using that by simp
  have "str ! 0 = b0" "str ! Suc 0 = b1" "str ! 2 = b2" "str ! 3 = b3" "str ! 4 = b4" "str ! 5 = b5" "str ! 6 = b6" "str ! 7 = b7"
    by (simp_all add: n t del: nth_take)
  then show ?thesis
    by (simp add: SHA2_PACK64_def load_be64_def t push_bit_or ac_simps or.assoc or.left_commute or.commute)
qed

lemma schedule_word_fips: "fips512_schedule n W = (schedule_word ^^ n) W"
proof (induction n arbitrary: W)
  case (Suc n)
  have "fips512_schedule (Suc n) W = fips512_schedule n (schedule_word W)"
    by (simp add: schedule_word_def SHA512_F3_def SHA512_F4_def SHA2_ROTR_rotr Let_def)
  then show ?case by (simp add: Suc funpow_Suc_right del: funpow.simps fips512_schedule.simps)
qed simp

lemma length_schedule_words [simp]: "length ((schedule_word ^^ n) W) = length W + n"
  by (induction n) (simp_all add: schedule_word_def [of "(schedule_word ^^ _) W"] Let_def)

lemma wv_step_fips:
  assumes "length wv = 8"
  shows "wv_step w wv j = fips512_step wv (sha512_k ! j, w ! j)" and "length (wv_step w wv j) = 8"
proof -
  obtain a b c d e f g h where wv: "wv = [a, b, c, d, e, f, g, h]" using assms by (rule list_of_length_8)
  show "wv_step w wv j = fips512_step wv (sha512_k ! j, w ! j)"
    by (simp add: wv wv_step_def Let_def SHA512_F1_def SHA512_F2_def SHA2_CH_def SHA2_MAJ_def SHA2_ROTR_rotr numeral_eq_Suc)
  show "length (wv_step w wv j) = 8" using assms by (simp add: wv_step_def Let_def)
qed

lemma wv_steps_fips:
  assumes "length wv = 8" and "length w = 80"
  shows "foldl (wv_step w) wv [0..<80] = foldl fips512_step wv (zip sha512_k w)"
    and "length (foldl (wv_step w) wv [0..<80]) = 8"
proof -
  have k: "length sha512_k = 80" by (simp add: sha512_k_def)
  have "foldl (wv_step w) wv [0..<n] = foldl fips512_step wv (take n (zip sha512_k w))
      \<and> length (foldl (wv_step w) wv [0..<n]) = 8" if "n \<le> 80" for n
    using that
  proof (induction n)
    case (Suc n)
    let ?v = "foldl (wv_step w) wv [0..<n]"
    from Suc have v: "?v = foldl fips512_step wv (take n (zip sha512_k w))" "length ?v = 8" by auto
    then show ?case
      using Suc.prems assms k wv_step_fips [OF v(2), of w n] by (simp add: take_Suc_conv_app_nth)
  qed (use assms in simp)
  from this [of 80] show "foldl (wv_step w) wv [0..<80] = foldl fips512_step wv (zip sha512_k w)"
    and "length (foldl (wv_step w) wv [0..<80]) = 8" using assms k by auto
qed

lemma sha512_compress_fips:
  assumes "length H = 8" and "128 \<le> length blk"
  shows "sha512_compress H blk = fips512_compress H blk"
proof -
  let ?W0 = "map (\<lambda>i. load_be64 (take 8 (drop (8 * i) blk))) [0..<16]"
  have W0: "map (\<lambda>j. SHA2_PACK64 (drop (8 * j) blk)) [0..<16] = ?W0"
    using assms(2) by (intro map_cong refl SHA2_PACK64_be) auto
  define W where "W = fips512_schedule 64 ?W0"
  have W: "length W = 80" "(schedule_word ^^ 64) ?W0 = W" by (simp_all add: W_def schedule_word_fips)
  have id: "map (\<lambda>j. H ! j) [0..<8] = H" using assms(1) map_nth [of H] by simp
  note st = wv_steps_fips [OF assms(1) W(1)]
  obtain a b c d e f g h where H: "H = [a, b, c, d, e, f, g, h]" using assms(1) by (rule list_of_length_8)
  obtain a' b' c' d' e' f' g' h' where wv: "foldl (wv_step W) H [0..<80] = [a', b', c', d', e', f', g', h']"
    using st(2) by (rule list_of_length_8)
  have upt8: "[0..<8] = [0, 1, 2, 3, 4, 5, 6, 7 :: nat]" by code_simp
  have add: "foldl (\<lambda>H j. H[j := H ! j + wv ! j]) H [0..<8] = map2 (+) H wv" if "length wv = 8" for wv
    using that by (elim list_of_length_8) (simp add: H upt8)
  show ?thesis
    unfolding sha512_compress_def fips512_compress_def Let_def W0 W(2) id W_def [symmetric]
    using add [OF st(2)] st(1) by simp
qed

lemma sha512_compress_take: "sha512_compress H (take 128 blk) = sha512_compress H blk"
proof -
  have "SHA2_PACK64 (drop (8 * j) (take 128 blk)) = SHA2_PACK64 (drop (8 * j) blk)" if "j < 16" "128 \<le> length blk" for j
    using that by (subst SHA2_PACK64_be, simp) (simp add: SHA2_PACK64_be drop_take min_def)
  then have eq: "map (\<lambda>j. SHA2_PACK64 (drop (8 * j) (take 128 blk))) [0..<16] = map (\<lambda>j. SHA2_PACK64 (drop (8 * j) blk)) [0..<16]"
    if "128 \<le> length blk" using that by (intro map_cong refl) auto
  show ?thesis
  proof (cases "128 \<le> length blk")
    case True
    show ?thesis unfolding sha512_compress_def eq [OF True] ..
  qed simp
qed

lemma length_sha512_compress: "length (sha512_compress H blk) = length H"
proof -
  have "length (foldl (\<lambda>H j. H[j := H ! j + f j]) H js) = length H" for f js
    by (induction js arbitrary: H) auto
  then show ?thesis by (simp add: sha512_compress_def Let_def)
qed

section \<open>Updates\<close>

type_synonym chain512 = "u64 list \<times> u32"

definition chain512 :: "sha512 \<Rightarrow> chain512" where
  "chain512 s = (m_h s, m_tot_len s)"

definition step512 :: "chain512 \<Rightarrow> bytes \<Rightarrow> chain512" where
  "step512 c blk = (sha512_compress (fst c) blk, snd c + 128)"

definition pending512 :: "sha512 \<Rightarrow> bytes" where
  "pending512 s = take (unat (m_len s)) (m_block s)"

definition sha512_invar :: "sha512 \<Rightarrow> bool" where
  "sha512_invar s \<longleftrightarrow> length (m_block s) = 256 \<and> length (m_h s) = 8 \<and> unat (m_len s) < 128"

lemma transform_absorb:
  assumes "128 * n \<le> length message"
  shows "absorb 128 step512 (H, t) (take (128 * n) message)
    = ((foldl (\<lambda>H i. sha512_compress H (drop (128 * i) message)) H [0..<n], t + of_nat (128 * n)), [])"
  using assms
proof (induction n)
  case (Suc n)
  have "take (128 * Suc n) message = take (128 * n) message @ take 128 (drop (128 * n) message)"
    by (metis add.commute mult_Suc_right take_add)
  moreover have "absorb 128 step512 (h, u) (take 128 (drop (128 * n) message))
      = ((sha512_compress h (drop (128 * n) message), u + 128), [])" for h u
    using Suc.prems by (subst absorb_one) (simp_all add: step512_def sha512_compress_take)
  moreover have "absorb 128 step512 (H, t) (take (128 * n) message)
    = ((foldl (\<lambda>H i. sha512_compress H (drop (128 * i) message)) H [0..<n], t + of_nat (128 * n)), [])"
    using Suc by simp
  moreover have "t + of_nat (128 * n) + 128 = (t + of_nat (128 * Suc n) :: u32)" by simp
  moreover note absorb_append [of 128 step512 "(H, t)" "take (128 * n) message" "take 128 (drop (128 * n) message)"]
  ultimately show ?case
    by (simp only: zero_less_numeral prod.case append_Nil upt_Suc_append foldl_append foldl.simps le0)
qed (simp add: absorb_short)

lemma update512_short:
  assumes "sha512_invar s" and "unat (m_len s) + length xs < 128"
  shows "update512 s xs (of_nat (length xs)) =
    s\<lparr>m_block := store_at (m_block s) (unat (m_len s)) xs, m_len := m_len s + of_nat (length xs)\<rparr>"
proof -
  have lt: "(of_nat (length xs) :: u32) < 128 - m_len s"
    using assms by (simp add: word_less_nat_alt unat_sub word_le_nat_alt unat_of_nat_small)
  have "m_len s + (of_nat (length xs) :: u32) < 128"
    using assms by (simp add: word_less_nat_alt unat_word_ariths unat_of_nat_small)
  with lt show ?thesis
    using assms(2) by (simp add: update512_def SHA384_512_BLOCK_SIZE_def Let_def unat_of_nat_small)
qed

lemma update512_long:
  assumes "sha512_invar s" and "128 \<le> unat (m_len s) + length xs" and "length xs + 256 < 2 ^ 32"
  defines "r \<equiv> 128 - unat (m_len s)"
  defines "nb \<equiv> (length xs - r) div 128"
  shows "update512 s xs (of_nat (length xs)) =
    (let b = store_at (m_block s) (unat (m_len s)) (take r xs);
         H = sha512_compress (m_h s) b;
         ys = drop r xs
     in s\<lparr>m_h := foldl (\<lambda>H i. sha512_compress H (drop (128 * i) ys)) H [0..<nb],
          m_block := store_at b 0 (drop (128 * nb) ys),
          m_len := of_nat ((length xs - r) mod 128), m_tot_len := m_tot_len s + of_nat (128 * Suc nb)\<rparr>)"
proof -
  let ?n = "length xs" and ?m = "m_len s"
  let ?len = "of_nat ?n :: u32"
  have L: "unat ?m < 128" and n: "unat ?len = ?n" "r \<le> ?n"
    using assms by (simp_all add: sha512_invar_def unat_of_nat_small r_def)
  have tmp: "unat (128 - ?m) = r"
    using L by (simp add: r_def unat_sub word_le_nat_alt)
  have c1: "\<not> ?len < 128 - ?m" using n tmp by (simp add: word_less_nat_alt)
  have c2: "\<not> ?m + ?len < 128"
    using assms(2,3) L n by (simp add: word_less_nat_alt unat_word_ariths)
  have new: "unat (?len - (128 - ?m)) = ?n - r"
    using c1 n tmp by (simp add: unat_sub)
  define q where "q = (?len - (128 - ?m)) div 128"
  have q: "unat q = nb" using new by (simp add: q_def nb_def unat_div)
  have nb: "128 * nb \<le> ?n - r" "?n - r - 128 * nb = (?n - r) mod 128"
    by (simp_all add: nb_def minus_mult_div_eq_mod)
  have push: "push_bit 7 x = 128 * x" for x :: u32 by (simp add: push_bit_eq_mult mult.commute)
  have sh: "unat (push_bit 7 q) = 128 * nb"
    using q nb assms(3) by (simp add: push unat_word_ariths)
  have q_nat: "q = of_nat nb" using q by (metis unat_of_nat_inverse)
  have tot: "push_bit 7 (q + 1) = (of_nat (128 * Suc nb) :: u32)" by (simp add: push q_nat)
  have md: "unat ((?len - (128 - ?m)) mod 128) = (?n - r) mod 128" using new by (simp add: unat_mod)
  then have md_nat: "(?len - (128 - ?m)) mod 128 = of_nat ((?n - r) mod 128)" by (metis unat_of_nat_inverse)
  have rest: "take ((?n - r) mod 128) (drop (128 * nb + r) xs) = drop (128 * nb + r) xs"
    using nb by simp
  show ?thesis
    unfolding update512_def SHA384_512_BLOCK_SIZE_def Let_def
    using c1 c2
    by (simp add: tmp transform_def q_def [symmetric] q sh tot md rest)
       (simp add: md_nat)
qed

lemma length_pending512: "sha512_invar s \<Longrightarrow> length (pending512 s) = unat (m_len s)"
  by (simp add: sha512_invar_def pending512_def)

lemma length_store_at [simp]: "length (store_at buf pos xs) = length buf"
  unfolding store_at_def by (rule length_foldl_const) simp

lemma length_compress_blocks:
  "length (foldl (\<lambda>H i. sha512_compress H (f i)) H is) = length H"
  by (rule length_foldl_const) (rule length_sha512_compress)

lemma update512_short_absorb:
  assumes inv: "sha512_invar s" and short: "unat (m_len s) + length xs < 128"
  defines "s' \<equiv> update512 s xs (of_nat (length xs))"
  shows "(chain512 s', pending512 s') = absorb 128 step512 (chain512 s) (pending512 s @ xs) \<and> sha512_invar s'"
proof -
  have b: "length (m_block s) = 256" "length (m_h s) = 8" using inv by (simp_all add: sha512_invar_def)
  have len: "unat (m_len s + of_nat (length xs)) = unat (m_len s) + length xs"
    using short by (simp add: unat_word_ariths unat_of_nat_small)
  have s': "s' = s\<lparr>m_block := take (unat (m_len s)) (m_block s) @ xs @ drop (unat (m_len s) + length xs) (m_block s),
      m_len := m_len s + of_nat (length xs)\<rparr>"
    using short b by (simp add: s'_def update512_short [OF inv short] store_at_eq)
  show ?thesis
    using short b len length_pending512 [OF inv]
    by (simp add: s' absorb_short chain512_def pending512_def sha512_invar_def)
qed

lemma update512_long_absorb:
  assumes inv: "sha512_invar s" and long: "128 \<le> unat (m_len s) + length xs" and fits: "length xs + 256 < 2 ^ 32"
  defines "s' \<equiv> update512 s xs (of_nat (length xs))"
  shows "(chain512 s', pending512 s') = absorb 128 step512 (chain512 s) (pending512 s @ xs) \<and> sha512_invar s'"
proof -
  define r where "r = 128 - unat (m_len s)"
  define nb where "nb = (length xs - r) div 128"
  let ?b = "store_at (m_block s) (unat (m_len s)) (take r xs)"
  let ?H = "sha512_compress (m_h s) ?b" and ?ys = "drop r xs"
  let ?F = "foldl (\<lambda>H i. sha512_compress H (drop (128 * i) ?ys)) ?H [0..<nb]"
  have b: "length (m_block s) = 256" "length (m_h s) = 8" "unat (m_len s) < 128"
    using inv by (simp_all add: sha512_invar_def)
  have r: "unat (m_len s) + r = 128" "r \<le> length xs" using b(3) long by (simp_all add: r_def)
  have len: "length (drop (128 * nb) ?ys) = (length xs - r) mod 128" "128 * nb \<le> length ?ys"
    using minus_mult_div_eq_mod [of "length xs - r" 128] by (simp_all add: nb_def add.commute)
  have s': "s' = s\<lparr>m_h := ?F, m_block := store_at ?b 0 (drop (128 * nb) ?ys),
      m_len := of_nat ((length xs - r) mod 128), m_tot_len := m_tot_len s + of_nat (128 * Suc nb)\<rparr>"
    using update512_long [OF inv long fits] by (simp only: s'_def r_def nb_def Let_def)
  have take_b: "take 128 ?b = pending512 s @ take r xs"
    using b r by (subst store_at_eq) (simp_all add: pending512_def r_def)
  have blk: "length (pending512 s @ take r xs) = 128" using r length_pending512 [OF inv] by simp
  have "absorb 128 step512 (chain512 s) (pending512 s @ xs) = absorb 128 step512 (step512 (chain512 s) (pending512 s @ take r xs)) ?ys"
    using absorb_exact [OF _ blk, of step512 "chain512 s" ?ys] by simp
  also have "step512 (chain512 s) (pending512 s @ take r xs) = (?H, m_tot_len s + 128)"
    by (simp add: step512_def chain512_def sha512_compress_take flip: take_b)
  also have "absorb 128 step512 (?H, m_tot_len s + 128) ?ys
      = absorb 128 step512 (?F, m_tot_len s + 128 + of_nat (128 * nb)) (drop (128 * nb) ?ys)"
    using absorb_append [of 128 step512 "(?H, m_tot_len s + 128)" "take (128 * nb) ?ys" "drop (128 * nb) ?ys"]
      transform_absorb [OF len(2), of ?H "m_tot_len s + 128"]
    by (simp only: append_take_drop_id zero_less_numeral prod.case append_Nil)
  also have "\<dots> = ((?F, m_tot_len s + 128 + of_nat (128 * nb)), drop (128 * nb) ?ys)"
    by (intro absorb_short) (metis len(1) mod_less_divisor zero_less_numeral)
  finally have ab: "absorb 128 step512 (chain512 s) (pending512 s @ xs)
      = ((?F, m_tot_len s + 128 + of_nat (128 * nb)), drop (128 * nb) ?ys)" .
  have "(length xs - r) mod 128 < 128" by simp
  then have m: "unat (of_nat ((length xs - r) mod 128) :: u32) = (length xs - r) mod 128"
    by (intro unat_of_nat_small) (simp add: less_trans [of _ 128])
  have "take ((length xs - r) mod 128) (store_at ?b 0 (drop (128 * nb) ?ys)) = drop (128 * nb) ?ys"
    using len(1) b(1) \<open>(length xs - r) mod 128 < 128\<close> by (subst store_at_eq) (simp_all only: length_store_at, simp_all)
  then show ?thesis
    unfolding ab by (simp add: s' chain512_def pending512_def sha512_invar_def m b length_compress_blocks length_sha512_compress)
qed

lemma update512_absorb:
  assumes "sha512_invar s" and "length xs + 256 < 2 ^ 32"
  defines "s' \<equiv> update512 s xs (of_nat (length xs))"
  shows "(chain512 s', pending512 s') = absorb 128 step512 (chain512 s) (pending512 s @ xs)" and "sha512_invar s'"
  using update512_short_absorb [OF assms(1), of xs] update512_long_absorb [OF assms(1) _ assms(2)]
  by (cases "unat (m_len s) + length xs < 128"; simp add: s'_def)+


section \<open>Digest\<close>

lemma absorb_step512:
  "length (fst c) = 8 \<Longrightarrow> absorb 128 step512 c msg =
     ((fst (absorb 128 fips512_compress (fst c) msg), snd c + of_nat (length msg - length msg mod 128)),
      snd (absorb 128 fips512_compress (fst c) msg))"
proof (induction "length msg" arbitrary: c msg rule: less_induct)
  case less
  show ?case
  proof (cases "length msg < 128")
    case False
    then have "length (drop 128 msg) < length msg" by (cases msg) auto
    moreover have "length (fst (step512 c (take 128 msg))) = 8" using less.prems by (simp add: step512_def length_sha512_compress)
    ultimately have "absorb 128 step512 c msg =
       ((fst (absorb 128 fips512_compress (fips512_compress (fst c) (take 128 msg)) (drop 128 msg)),
         snd c + 128 + of_nat (length msg - 128 - (length msg - 128) mod 128)),
        snd (absorb 128 fips512_compress (fips512_compress (fst c) (take 128 msg)) (drop 128 msg)))"
      using less.hyps [of "drop 128 msg" "step512 c (take 128 msg)"] False less.prems
      by (simp add: absorb_block step512_def sha512_compress_fips)
    moreover have "128 + of_nat (length msg - 128 - (length msg - 128) mod 128)
        = (of_nat (length msg - length msg mod 128) :: u32)"
    proof -
      from False have eq: "length msg = 128 + (length msg - 128)" by simp
      then have "length msg mod 128 = (length msg - 128) mod 128" by (metis mod_add_self1)
      moreover have "(length msg - 128) mod 128 \<le> length msg - 128" by simp
      ultimately have "length msg - length msg mod 128 = 128 + (length msg - 128 - (length msg - 128) mod 128)"
        using eq by linarith
      then show ?thesis by (metis of_nat_add of_nat_numeral)
    qed
    ultimately show ?thesis using False by (simp add: absorb_block add.assoc)
  qed (simp add: absorb_short)
qed

lemma length_be_bytes32 [simp]: "length (be_bytes32 w) = 4"
  by (simp add: be_bytes32_def)

lemma be_bytes128_small: "n < 2 ^ 32 \<Longrightarrow> be_bytes128 n = replicate 12 0 @ be_bytes32 (of_nat n)"
proof -
  assume n: "n < 2 ^ 32"
  have up: "rev [0..<16] = [15, 14, 13, 12, 11, 10, 9, 8, 7, 6, 5, 4, 3, 2, 1, 0 :: nat]" by code_simp
  have zero: "n div 256 ^ k = 0" if "4 \<le> k" for k
  proof -
    have "(256 :: nat) ^ 4 \<le> 256 ^ k" using that by (rule power_increasing) simp
    then show ?thesis using n by simp
  qed
  have byte: "ucast (drop_bit (8 * k) (of_nat n :: u32)) = (of_nat (n div 256 ^ k) :: u8)" for k
  proof -
    have "(256 :: nat) ^ k = 2 ^ (8 * k)" by (simp add: power_mult)
    then have "unat (drop_bit (8 * k) (of_nat n :: u32)) = n div 256 ^ k"
      using unat_of_nat_small [OF n] by (subst unat_drop_bit_eq) (simp add: drop_bit_eq_div)
    then show ?thesis by (metis of_nat_unat)
  qed
  have low: "be_bytes32 (of_nat n) = map (\<lambda>k. of_nat (n div 256 ^ k)) [3, 2, 1, 0]"
    using byte [of 3] byte [of 2] byte [of 1] byte [of 0] by (simp add: be_bytes32_def)
  have "be_bytes128 n = map (\<lambda>k. of_nat (n div 256 ^ k)) [15, 14, 13, 12, 11, 10, 9, 8, 7, 6, 5, 4]
      @ map (\<lambda>k. of_nat (n div 256 ^ k)) [3, 2, 1, 0]"
    unfolding be_bytes128_def up by simp
  also have "map (\<lambda>k. of_nat (n div 256 ^ k)) [15, 14, 13, 12, 11, 10, 9, 8, 7, 6, 5, 4] = replicate 12 (0 :: u8)"
    by (simp only: list.map zero numeral_le_iff semiring_norm of_nat_0) code_simp
  finally show ?thesis by (simp only: low)
qed

lemma padded_block:
  assumes "length buf = 256" and "n + 5 \<le> p" and "p \<le> 256" and "length l = 4"
  shows "take p (store_at ((store_at buf n (replicate (p - n) 0))[n := 0x80]) (p - 4) l)
     = take n buf @ 0x80 # replicate (p - n - 5) 0 @ l"
proof -
  have "store_at buf n (replicate (p - n) 0) = take n buf @ replicate (p - n) 0 @ drop p buf"
    using assms by (simp add: store_at_eq)
  moreover have "replicate (p - n) (0 :: u8) = 0 # replicate (p - n - 5) 0 @ replicate 4 0"
    using assms(2) by (simp add: replicate_add [symmetric] flip: replicate_Suc)
  ultimately have e: "(store_at buf n (replicate (p - n) 0))[n := 0x80]
      = take n buf @ 0x80 # replicate (p - n - 5) 0 @ replicate 4 0 @ drop p buf"
    using assms by (simp add: list_update_append)
  let ?E = "take n buf @ 0x80 # replicate (p - n - 5) 0 @ replicate 4 0 @ drop p buf"
  let ?A = "take n buf @ 0x80 # replicate (p - n - 5) 0 @ l"
  have "length (take n buf @ 0x80 # replicate (p - n - 5) 0) = p - 4" using assms by simp
  then have "take (p - 4) ?E = take n buf @ 0x80 # replicate (p - n - 5) 0"
    by (metis append_Cons append_assoc append_eq_conv_conj)
  then have st: "store_at ?E (p - 4) l = ?A @ drop p ?E"
    using assms by (subst store_at_eq) simp_all
  have "length ?A = p" using assms by simp
  then show ?thesis unfolding e st by (metis append_eq_conv_conj)
qed

lemma final512_hash:
  assumes inv: "sha512_invar s"
  defines "n \<equiv> unat (m_len s)"
  shows "m_h (snd (final512 s)) = fst (absorb 128 fips512_compress (m_h s)
    (pending512 s @ 0x80 # replicate ((239 - n) mod 128 + 12) 0 @ be_bytes32 (push_bit 3 (m_tot_len s + m_len s))))"
    and "fst (final512 s) = concat (map unpack64 (m_h (snd (final512 s))))"
proof -
  have b: "length (m_block s) = 256" "length (m_h s) = 8" "n < 128" using inv by (simp_all add: sha512_invar_def n_def)
  have md: "m_len s mod 128 = m_len s" using b(3) by (simp add: n_def word_unat_eq_iff unat_mod)
  define nb :: u32 where "nb = 1 + (if 111 < m_len s then 1 else 0)"
  define p :: nat where "p = 128 * unat nb"
  have p: "p = (if n \<le> 111 then 128 else 256)" by (simp add: p_def nb_def n_def word_less_nat_alt)
  have pw: "unat (push_bit 7 nb - m_len s) = p - n" "unat (push_bit 7 nb - 4) = p - 4"
    using b(3) by (simp_all add: nb_def p n_def word_less_nat_alt unat_sub word_le_nat_alt)
  let ?l = "be_bytes32 (push_bit 3 (m_tot_len s + m_len s))"
  define blk where "blk = store_at ((store_at (m_block s) n (replicate (p - n) 0))[n := 0x80]) (p - 4) ?l"
  have fin: "m_h (snd (final512 s)) = foldl (\<lambda>H i. sha512_compress H (drop (128 * i) blk)) (m_h s) [0..<unat nb]"
    unfolding final512_def SHA384_512_BLOCK_SIZE_def Let_def
    by (simp add: md transform_def nb_def [symmetric] pw blk_def flip: n_def)
  have "128 * unat nb \<le> length blk" using p b by (simp add: blk_def p_def [symmetric])
  from transform_absorb [OF this, of "m_h s" 0]
  have "absorb 128 step512 (m_h s, 0) (take p blk) = ((m_h (snd (final512 s)), of_nat p), [])"
    by (simp add: fin p_def)
  then have "m_h (snd (final512 s)) = fst (absorb 128 fips512_compress (m_h s) (take p blk))"
    using absorb_step512 [of "(m_h s, 0)" "take p blk"] b(2) by simp
  moreover have "take p blk = pending512 s @ 0x80 # replicate (p - n - 5) 0 @ ?l"
    unfolding blk_def pending512_def n_def [symmetric] using b p by (intro padded_block) auto
  moreover have "p - n - 5 = (239 - n) mod 128 + 12"
    using b(3) p by (auto simp: le_mod_geq)
  ultimately show "m_h (snd (final512 s)) = fst (absorb 128 fips512_compress (m_h s)
    (pending512 s @ 0x80 # replicate ((239 - n) mod 128 + 12) 0 @ ?l))" by simp
  show "fst (final512 s) = concat (map unpack64 (m_h (snd (final512 s))))"
    by (simp add: final512_def Let_def)
qed

lemma final512_reference:
  assumes inv: "sha512_invar s" and view: "(chain512 s, pending512 s) = absorb 128 step512 (sha512_seed, 0) msg"
    and fits: "length msg < 2 ^ 29"
  shows "fst (final512 s) = sha512_reference msg"
proof -
  have seed: "length sha512_seed = 8" by (simp add: sha512_seed_def)
  have h: "m_h s = fst (absorb 128 fips512_compress sha512_seed msg)"
    and n: "m_tot_len s = of_nat (length msg - length msg mod 128)"
    and p: "pending512 s = snd (absorb 128 fips512_compress sha512_seed msg)"
    using view by (simp_all add: chain512_def absorb_step512 seed)
  have len: "unat (m_len s) = length msg mod 128"
    using length_pending512 [OF inv] p by (simp add: absorb_rest_drop)
  then have ml: "m_len s = of_nat (length msg mod 128)" by (metis unat_of_nat_inverse)
  have "of_nat (length msg - length msg mod 128) + of_nat (length msg mod 128) = (of_nat (length msg) :: u32)"
    by (simp flip: of_nat_add)
  then have bits: "push_bit 3 (m_tot_len s + m_len s) = (of_nat (8 * length msg) :: u32)"
    using n ml by (simp add: push_bit_eq_mult)
  have "0x80 # replicate ((239 - unat (m_len s)) mod 128 + 12) 0 @ be_bytes32 (push_bit 3 (m_tot_len s + m_len s))
      = fips512_padding (length msg)"
    unfolding bits using fits by (simp add: fips512_padding_def len be_bytes128_small replicate_add)
  then have "m_h (snd (final512 s)) = fst (absorb 128 fips512_compress sha512_seed (msg @ fips512_padding (length msg)))"
    using final512_hash(1) [OF inv] h p
      absorb_append [of 128 fips512_compress sha512_seed msg "fips512_padding (length msg)"]
    by (simp add: split_beta)
  then show ?thesis using final512_hash(2) [OF inv] by (simp add: sha512_reference_def)
qed

lemma sha512_init: "sha512_invar (init512 SHA512_new)" "chain512 (init512 SHA512_new) = (sha512_seed, 0)"
  "pending512 (init512 SHA512_new) = []"
  by (simp_all add: init512_def SHA512_new_def sha512_invar_def chain512_def pending512_def sha512_seed_def)

lemma get_hash_reference: "length input < 2 ^ 29 \<Longrightarrow> get_hash input = sha512_reference input"
proof -
  assume fits: "length input < 2 ^ 29"
  then have "length input + 256 < 2 ^ 32" by simp
  from update512_absorb [OF sha512_init(1) this] show ?thesis
    unfolding get_hash_def using fits by (intro final512_reference) (simp_all add: sha512_init)
qed


lemma length_transform: "length (m_h (transform s message n)) = length (m_h s)"
  by (simp add: transform_def length_compress_blocks)

lemma length_update512: "length (m_h (update512 s message len)) = length (m_h s)"
  by (simp add: update512_def Let_def length_transform)

lemma length_get_hash: "length (get_hash input) = 64"
proof -
  have "length (m_h (snd (final512 s))) = length (m_h s)" for s
    by (simp add: final512_def Let_def length_transform)
  then have "length (m_h (snd (final512 (update512 (init512 SHA512_new) input n)))) = 8" for n
    by (simp add: length_update512 init512_def sha512_seed_def)
  moreover have "length (unpack64 x) = 8" for x by (simp add: unpack64_def)
  then have "length (concat (map unpack64 xs)) = 8 * length xs" for xs by (induction xs) auto
  moreover have "fst (final512 s) = concat (map unpack64 (m_h (snd (final512 s))))" for s
    by (simp add: final512_def Let_def)
  ultimately show ?thesis by (simp add: get_hash_def)
qed

section \<open>Properties\<close>

text \<open>
  C24. SHA-512 of every message shorter than \<open>2 ^ 29\<close> bytes is the FIPS 180-4 digest: the 32-bit
  byte counters do not wrap and the 32-bit length field, extended by zeros, is the 128-bit one.
\<close>

theorem sha512_is_fips:
  assumes "length input < 2 ^ 29"
  shows "get_hash input = sha512_reference input"
  using assms by (rule get_hash_reference)

theorem sha512_is_fips_witness:
  "length [97, 98, 99 :: u8] < 2 ^ 29 \<and> get_hash [97, 98, 99] = sha512_reference [97, 98, 99]"
  using sha512_is_fips [of "[97, 98, 99]"] by simp

text \<open>
  C25. \<open>get_hmac\<close> is HMAC-SHA-512 of RFC 2104 for keys of at most one block.
\<close>

theorem get_hmac_is_rfc2104:
  assumes "length key \<le> 128" and "length msg + 128 < 2 ^ 29"
  shows "get_hmac key msg True = to_hex (hmac_reference sha512_reference key msg)"
proof -
  let ?k = "key @ replicate (128 - length key) 0"
  have bs: "unat SHA384_512_BLOCK_SIZE = 128" by (simp add: SHA384_512_BLOCK_SIZE_def)
  have pad: "map (\<lambda>i. c XOR ?k ! i) [0..<128] = map ((XOR) c) ?k" for c :: u8
    using assms(1) by (intro nth_equalityI) (simp_all del: map_append)
  have len: "length (map ((XOR) c) ?k) = 128" for c using assms(1) by simp
  have key: "(if length key < 128 then ?k else key) = ?k" using assms(1) by simp
  have "get_hmac_raw key msg = get_hash (map ((XOR) 0x5c) ?k @ get_hash (map ((XOR) 0x36) ?k @ msg))"
    by (simp only: get_hmac_raw_def Let_def bs key pad)
  also have "get_hash (map ((XOR) 0x36) ?k @ msg) = sha512_reference (map ((XOR) 0x36) ?k @ msg)"
    using assms(2) len [of "0x36"] by (intro get_hash_reference) simp
  finally have "get_hmac_raw key msg = get_hash (map ((XOR) 0x5c) ?k @ sha512_reference (map ((XOR) 0x36) ?k @ msg))" .
  also have "\<dots> = sha512_reference (map ((XOR) 0x5c) ?k @ sha512_reference (map ((XOR) 0x36) ?k @ msg))"
  proof (rule get_hash_reference)
    have "length (sha512_reference (map ((XOR) 0x36) ?k @ msg)) = 64"
      using assms(2) len [of "0x36"] length_get_hash [of "map ((XOR) 0x36) ?k @ msg"]
      by (subst get_hash_reference [symmetric]) simp_all
    then show "length (map ((XOR) 0x5c) ?k @ sha512_reference (map ((XOR) 0x36) ?k @ msg)) < 2 ^ 29"
      using len [of "0x5c"] by simp
  qed
  finally show ?thesis using assms(1) by (simp add: get_hmac_def hmac_reference_def)
qed

theorem get_hmac_is_rfc2104_witness:
  "length [107, 101, 121 :: u8] \<le> 128 \<and> length [97, 98, 99 :: u8] + 128 < 2 ^ 29 \<and>
   get_hmac [107, 101, 121] [97, 98, 99] True
     = to_hex (hmac_reference sha512_reference [107, 101, 121] [97, 98, 99])"
  using get_hmac_is_rfc2104 [of "[107, 101, 121]" "[97, 98, 99]"] by simp

text \<open>
  A longer key is cut to its first block instead of being hashed: all keys that agree on
  their first 128 bytes give the same authentication code for every message.
\<close>

lemma get_hmac_truncates_keys:
  assumes "128 \<le> length key"
  shows "get_hmac (key @ extra) msg True = get_hmac (key @ extra') msg True"
proof -
  have "map (\<lambda>i. c XOR (key @ extra) ! i) [0..<128] = map (\<lambda>i. c XOR (key @ extra') ! i) [0..<128]" for c :: u8
    using assms by (intro map_cong refl) (simp add: nth_append)
  moreover have "\<not> length (key @ e) < 128" for e using assms by simp
  moreover have "unat SHA384_512_BLOCK_SIZE = 128" by (simp add: SHA384_512_BLOCK_SIZE_def)
  ultimately have "get_hmac_raw (key @ extra) msg = get_hmac_raw (key @ extra') msg"
    by (simp only: get_hmac_raw_def Let_def if_False)
  then show ?thesis by (simp add: get_hmac_def)
qed

end
