(* ===== verification/Bip39_Words.thy ===== *)
theory Bip39_Words
  imports Unit_Prelude
begin

text \<open>
  The mnemonic word list of \<open>bip44/BIP39.hpp\<close> (member \<open>words\<close>), in sixteen parts of 128 words, and
  the facts the mnemonic code relies on: it has 2048 entries, which are strictly increasing and
  therefore distinct except for the one at index 238, which repeats the one at index 691.
\<close>

section \<open>The list\<close>

definition words_0 :: "string list" where
  "words_0 = [
     ''abandon'', ''ability'', ''able'', ''about'', ''above'', ''absent'', ''absorb'',
     ''abstract'', ''absurd'', ''abuse'', ''access'', ''accident'', ''account'', ''accuse'',
     ''achieve'', ''acid'', ''acoustic'', ''acquire'', ''across'', ''act'', ''action'', ''actor'',
     ''actress'', ''actual'', ''adapt'', ''add'', ''addict'', ''address'', ''adjust'', ''admit'',
     ''adult'', ''advance'', ''advice'', ''aerobic'', ''affair'', ''afford'', ''afraid'',
     ''again'', ''age'', ''agent'', ''agree'', ''ahead'', ''aim'', ''air'', ''airport'', ''aisle'',
     ''alarm'', ''album'', ''alcohol'', ''alert'', ''alien'', ''all'', ''alley'', ''allow'',
     ''almost'', ''alone'', ''alpha'', ''already'', ''also'', ''alter'', ''always'', ''amateur'',
     ''amazing'', ''among'', ''amount'', ''amused'', ''analyst'', ''anchor'', ''ancient'',
     ''anger'', ''angle'', ''angry'', ''animal'', ''ankle'', ''announce'', ''annual'', ''another'',
     ''answer'', ''antenna'', ''antique'', ''anxiety'', ''any'', ''apart'', ''apology'',
     ''appear'', ''apple'', ''approve'', ''april'', ''arch'', ''arctic'', ''area'', ''arena'',
     ''argue'', ''arm'', ''armed'', ''armor'', ''army'', ''around'', ''arrange'', ''arrest'',
     ''arrive'', ''arrow'', ''art'', ''artefact'', ''artist'', ''artwork'', ''ask'', ''aspect'',
     ''assault'', ''asset'', ''assist'', ''assume'', ''asthma'', ''athlete'', ''atom'', ''attack'',
     ''attend'', ''attitude'', ''attract'', ''auction'', ''audit'', ''august'', ''aunt'',
     ''author'', ''auto'', ''autumn'', ''average'', ''avocado'']"

definition words_1 :: "string list" where
  "words_1 = [
     ''avoid'', ''awake'', ''aware'', ''away'', ''awesome'', ''awful'', ''awkward'', ''axis'',
     ''baby'', ''bachelor'', ''bacon'', ''badge'', ''bag'', ''balance'', ''balcony'', ''ball'',
     ''bamboo'', ''banana'', ''banner'', ''bar'', ''barely'', ''bargain'', ''barrel'', ''base'',
     ''basic'', ''basket'', ''battle'', ''beach'', ''bean'', ''beauty'', ''because'', ''become'',
     ''beef'', ''before'', ''begin'', ''behave'', ''behind'', ''believe'', ''below'', ''belt'',
     ''bench'', ''benefit'', ''best'', ''betray'', ''better'', ''between'', ''beyond'',
     ''bicycle'', ''bid'', ''bike'', ''bind'', ''biology'', ''bird'', ''birth'', ''bitter'',
     ''black'', ''blade'', ''blame'', ''blanket'', ''blast'', ''bleak'', ''bless'', ''blind'',
     ''blood'', ''blossom'', ''blouse'', ''blue'', ''blur'', ''blush'', ''board'', ''boat'',
     ''body'', ''boil'', ''bomb'', ''bone'', ''bonus'', ''book'', ''boost'', ''border'',
     ''boring'', ''borrow'', ''boss'', ''bottom'', ''bounce'', ''box'', ''boy'', ''bracket'',
     ''brain'', ''brand'', ''brass'', ''brave'', ''bread'', ''breeze'', ''brick'', ''bridge'',
     ''brief'', ''bright'', ''bring'', ''brisk'', ''broccoli'', ''broken'', ''bronze'', ''broom'',
     ''brother'', ''brown'', ''brush'', ''bubble'', ''buddy'', ''budget'', ''buffalo'', ''filter'',
     ''bulb'', ''bulk'', ''bullet'', ''bundle'', ''bunker'', ''burden'', ''burger'', ''burst'',
     ''bus'', ''business'', ''busy'', ''butter'', ''buyer'', ''buzz'', ''cabbage'', ''cabin'',
     ''cable'']"

definition words_2 :: "string list" where
  "words_2 = [
     ''cactus'', ''cage'', ''cake'', ''call'', ''calm'', ''camera'', ''camp'', ''can'', ''canal'',
     ''cancel'', ''candy'', ''cannon'', ''canoe'', ''canvas'', ''canyon'', ''capable'',
     ''capital'', ''captain'', ''car'', ''carbon'', ''card'', ''cargo'', ''carpet'', ''carry'',
     ''cart'', ''case'', ''cash'', ''casino'', ''castle'', ''casual'', ''cat'', ''catalog'',
     ''catch'', ''category'', ''cattle'', ''caught'', ''cause'', ''caution'', ''cave'',
     ''ceiling'', ''celery'', ''cement'', ''census'', ''century'', ''cereal'', ''certain'',
     ''chair'', ''chalk'', ''champion'', ''change'', ''chaos'', ''chapter'', ''charge'', ''chase'',
     ''chat'', ''cheap'', ''check'', ''cheese'', ''chef'', ''cherry'', ''chest'', ''chicken'',
     ''chief'', ''child'', ''chimney'', ''choice'', ''choose'', ''chronic'', ''chuckle'',
     ''chunk'', ''churn'', ''cigar'', ''cinnamon'', ''circle'', ''citizen'', ''city'', ''civil'',
     ''claim'', ''clap'', ''clarify'', ''claw'', ''clay'', ''clean'', ''clerk'', ''clever'',
     ''click'', ''client'', ''cliff'', ''climb'', ''clinic'', ''clip'', ''clock'', ''clog'',
     ''close'', ''cloth'', ''cloud'', ''clown'', ''club'', ''clump'', ''cluster'', ''clutch'',
     ''coach'', ''coast'', ''coconut'', ''code'', ''coffee'', ''coil'', ''coin'', ''collect'',
     ''color'', ''column'', ''combine'', ''come'', ''comfort'', ''comic'', ''common'', ''company'',
     ''concert'', ''conduct'', ''confirm'', ''congress'', ''connect'', ''consider'', ''control'',
     ''convince'', ''cook'', ''cool'', ''copper'']"

definition words_3 :: "string list" where
  "words_3 = [
     ''copy'', ''coral'', ''core'', ''corn'', ''correct'', ''cost'', ''cotton'', ''couch'',
     ''country'', ''couple'', ''course'', ''cousin'', ''cover'', ''coyote'', ''crack'', ''cradle'',
     ''craft'', ''cram'', ''crane'', ''crash'', ''crater'', ''crawl'', ''crazy'', ''cream'',
     ''credit'', ''creek'', ''crew'', ''cricket'', ''crime'', ''crisp'', ''critic'', ''crop'',
     ''cross'', ''crouch'', ''crowd'', ''crucial'', ''cruel'', ''cruise'', ''crumble'', ''crunch'',
     ''crush'', ''cry'', ''crystal'', ''cube'', ''culture'', ''cup'', ''cupboard'', ''curious'',
     ''current'', ''curtain'', ''curve'', ''cushion'', ''custom'', ''cute'', ''cycle'', ''dad'',
     ''damage'', ''damp'', ''dance'', ''danger'', ''daring'', ''dash'', ''daughter'', ''dawn'',
     ''day'', ''deal'', ''debate'', ''debris'', ''decade'', ''december'', ''decide'', ''decline'',
     ''decorate'', ''decrease'', ''deer'', ''defense'', ''define'', ''defy'', ''degree'',
     ''delay'', ''deliver'', ''demand'', ''demise'', ''denial'', ''dentist'', ''deny'', ''depart'',
     ''depend'', ''deposit'', ''depth'', ''deputy'', ''derive'', ''describe'', ''desert'',
     ''design'', ''desk'', ''despair'', ''destroy'', ''detail'', ''detect'', ''develop'',
     ''device'', ''devote'', ''diagram'', ''dial'', ''diamond'', ''diary'', ''dice'', ''diesel'',
     ''diet'', ''differ'', ''digital'', ''dignity'', ''dilemma'', ''dinner'', ''dinosaur'',
     ''direct'', ''dirt'', ''disagree'', ''discover'', ''disease'', ''dish'', ''dismiss'',
     ''disorder'', ''display'', ''distance'', ''divert'', ''divide'']"

definition words_4 :: "string list" where
  "words_4 = [
     ''divorce'', ''dizzy'', ''doctor'', ''document'', ''dog'', ''doll'', ''dolphin'', ''domain'',
     ''donate'', ''donkey'', ''donor'', ''door'', ''dose'', ''double'', ''dove'', ''draft'',
     ''dragon'', ''drama'', ''drastic'', ''draw'', ''dream'', ''dress'', ''drift'', ''drill'',
     ''drink'', ''drip'', ''drive'', ''drop'', ''drum'', ''dry'', ''duck'', ''dumb'', ''dune'',
     ''during'', ''dust'', ''dutch'', ''duty'', ''dwarf'', ''dynamic'', ''eager'', ''eagle'',
     ''early'', ''earn'', ''earth'', ''easily'', ''east'', ''easy'', ''echo'', ''ecology'',
     ''economy'', ''edge'', ''edit'', ''educate'', ''effort'', ''egg'', ''eight'', ''either'',
     ''elbow'', ''elder'', ''electric'', ''elegant'', ''element'', ''elephant'', ''elevator'',
     ''elite'', ''else'', ''embark'', ''embody'', ''embrace'', ''emerge'', ''emotion'', ''employ'',
     ''empower'', ''empty'', ''enable'', ''enact'', ''end'', ''endless'', ''endorse'', ''enemy'',
     ''energy'', ''enforce'', ''engage'', ''engine'', ''enhance'', ''enjoy'', ''enlist'',
     ''enough'', ''enrich'', ''enroll'', ''ensure'', ''enter'', ''entire'', ''entry'',
     ''envelope'', ''episode'', ''equal'', ''equip'', ''era'', ''erase'', ''erode'', ''erosion'',
     ''error'', ''erupt'', ''escape'', ''essay'', ''essence'', ''estate'', ''eternal'', ''ethics'',
     ''evidence'', ''evil'', ''evoke'', ''evolve'', ''exact'', ''example'', ''excess'',
     ''exchange'', ''excite'', ''exclude'', ''excuse'', ''execute'', ''exercise'', ''exhaust'',
     ''exhibit'', ''exile'', ''exist'', ''exit'']"

definition words_5 :: "string list" where
  "words_5 = [
     ''exotic'', ''expand'', ''expect'', ''expire'', ''explain'', ''expose'', ''express'',
     ''extend'', ''extra'', ''eye'', ''eyebrow'', ''fabric'', ''face'', ''faculty'', ''fade'',
     ''faint'', ''faith'', ''fall'', ''false'', ''fame'', ''family'', ''famous'', ''fan'',
     ''fancy'', ''fantasy'', ''farm'', ''fashion'', ''fat'', ''fatal'', ''father'', ''fatigue'',
     ''fault'', ''favorite'', ''feature'', ''february'', ''federal'', ''fee'', ''feed'', ''feel'',
     ''female'', ''fence'', ''festival'', ''fetch'', ''fever'', ''few'', ''fiber'', ''fiction'',
     ''field'', ''figure'', ''file'', ''film'', ''filter'', ''final'', ''find'', ''fine'',
     ''finger'', ''finish'', ''fire'', ''firm'', ''first'', ''fiscal'', ''fish'', ''fit'',
     ''fitness'', ''fix'', ''flag'', ''flame'', ''flash'', ''flat'', ''flavor'', ''flee'',
     ''flight'', ''flip'', ''float'', ''flock'', ''floor'', ''flower'', ''fluid'', ''flush'',
     ''fly'', ''foam'', ''focus'', ''fog'', ''foil'', ''fold'', ''follow'', ''food'', ''foot'',
     ''force'', ''forest'', ''forget'', ''fork'', ''fortune'', ''forum'', ''forward'', ''fossil'',
     ''foster'', ''found'', ''fox'', ''fragile'', ''frame'', ''frequent'', ''fresh'', ''friend'',
     ''fringe'', ''frog'', ''front'', ''frost'', ''frown'', ''frozen'', ''fruit'', ''fuel'',
     ''fun'', ''funny'', ''furnace'', ''fury'', ''future'', ''gadget'', ''gain'', ''galaxy'',
     ''gallery'', ''game'', ''gap'', ''garage'', ''garbage'', ''garden'', ''garlic'', ''garment'']"

definition words_6 :: "string list" where
  "words_6 = [
     ''gas'', ''gasp'', ''gate'', ''gather'', ''gauge'', ''gaze'', ''general'', ''genius'',
     ''genre'', ''gentle'', ''genuine'', ''gesture'', ''ghost'', ''giant'', ''gift'', ''giggle'',
     ''ginger'', ''giraffe'', ''girl'', ''give'', ''glad'', ''glance'', ''glare'', ''glass'',
     ''glide'', ''glimpse'', ''globe'', ''gloom'', ''glory'', ''glove'', ''glow'', ''glue'',
     ''goat'', ''goddess'', ''gold'', ''good'', ''goose'', ''gorilla'', ''gospel'', ''gossip'',
     ''govern'', ''gown'', ''grab'', ''grace'', ''grain'', ''grant'', ''grape'', ''grass'',
     ''gravity'', ''great'', ''green'', ''grid'', ''grief'', ''grit'', ''grocery'', ''group'',
     ''grow'', ''grunt'', ''guard'', ''guess'', ''guide'', ''guilt'', ''guitar'', ''gun'', ''gym'',
     ''habit'', ''hair'', ''half'', ''hammer'', ''hamster'', ''hand'', ''happy'', ''harbor'',
     ''hard'', ''harsh'', ''harvest'', ''hat'', ''have'', ''hawk'', ''hazard'', ''head'',
     ''health'', ''heart'', ''heavy'', ''hedgehog'', ''height'', ''hello'', ''helmet'', ''help'',
     ''hen'', ''hero'', ''hidden'', ''high'', ''hill'', ''hint'', ''hip'', ''hire'', ''history'',
     ''hobby'', ''hockey'', ''hold'', ''hole'', ''holiday'', ''hollow'', ''home'', ''honey'',
     ''hood'', ''hope'', ''horn'', ''horror'', ''horse'', ''hospital'', ''host'', ''hotel'',
     ''hour'', ''hover'', ''hub'', ''huge'', ''human'', ''humble'', ''humor'', ''hundred'',
     ''hungry'', ''hunt'', ''hurdle'', ''hurry'', ''hurt'', ''husband'']"

definition words_7 :: "string list" where
  "words_7 = [
     ''hybrid'', ''ice'', ''icon'', ''idea'', ''identify'', ''idle'', ''ignore'', ''ill'',
     ''illegal'', ''illness'', ''image'', ''imitate'', ''immense'', ''immune'', ''impact'',
     ''impose'', ''improve'', ''impulse'', ''inch'', ''include'', ''income'', ''increase'',
     ''index'', ''indicate'', ''indoor'', ''industry'', ''infant'', ''inflict'', ''inform'',
     ''inhale'', ''inherit'', ''initial'', ''inject'', ''injury'', ''inmate'', ''inner'',
     ''innocent'', ''input'', ''inquiry'', ''insane'', ''insect'', ''inside'', ''inspire'',
     ''install'', ''intact'', ''interest'', ''into'', ''invest'', ''invite'', ''involve'',
     ''iron'', ''island'', ''isolate'', ''issue'', ''item'', ''ivory'', ''jacket'', ''jaguar'',
     ''jar'', ''jazz'', ''jealous'', ''jeans'', ''jelly'', ''jewel'', ''job'', ''join'', ''joke'',
     ''journey'', ''joy'', ''judge'', ''juice'', ''jump'', ''jungle'', ''junior'', ''junk'',
     ''just'', ''kangaroo'', ''keen'', ''keep'', ''ketchup'', ''key'', ''kick'', ''kid'',
     ''kidney'', ''kind'', ''kingdom'', ''kiss'', ''kit'', ''kitchen'', ''kite'', ''kitten'',
     ''kiwi'', ''knee'', ''knife'', ''knock'', ''know'', ''lab'', ''label'', ''labor'', ''ladder'',
     ''lady'', ''lake'', ''lamp'', ''language'', ''laptop'', ''large'', ''later'', ''latin'',
     ''laugh'', ''laundry'', ''lava'', ''law'', ''lawn'', ''lawsuit'', ''layer'', ''lazy'',
     ''leader'', ''leaf'', ''learn'', ''leave'', ''lecture'', ''left'', ''leg'', ''legal'',
     ''legend'', ''leisure'', ''lemon'', ''lend'']"

definition words_8 :: "string list" where
  "words_8 = [
     ''length'', ''lens'', ''leopard'', ''lesson'', ''letter'', ''level'', ''liar'', ''liberty'',
     ''library'', ''license'', ''life'', ''lift'', ''light'', ''like'', ''limb'', ''limit'',
     ''link'', ''lion'', ''liquid'', ''list'', ''little'', ''live'', ''lizard'', ''load'',
     ''loan'', ''lobster'', ''local'', ''lock'', ''logic'', ''lonely'', ''long'', ''loop'',
     ''lottery'', ''loud'', ''lounge'', ''love'', ''loyal'', ''lucky'', ''luggage'', ''lumber'',
     ''lunar'', ''lunch'', ''luxury'', ''lyrics'', ''machine'', ''mad'', ''magic'', ''magnet'',
     ''maid'', ''mail'', ''main'', ''major'', ''make'', ''mammal'', ''man'', ''manage'',
     ''mandate'', ''mango'', ''mansion'', ''manual'', ''maple'', ''marble'', ''march'', ''margin'',
     ''marine'', ''market'', ''marriage'', ''mask'', ''mass'', ''master'', ''match'', ''material'',
     ''math'', ''matrix'', ''matter'', ''maximum'', ''maze'', ''meadow'', ''mean'', ''measure'',
     ''meat'', ''mechanic'', ''medal'', ''media'', ''melody'', ''melt'', ''member'', ''memory'',
     ''mention'', ''menu'', ''mercy'', ''merge'', ''merit'', ''merry'', ''mesh'', ''message'',
     ''metal'', ''method'', ''middle'', ''midnight'', ''milk'', ''million'', ''mimic'', ''mind'',
     ''minimum'', ''minor'', ''minute'', ''miracle'', ''mirror'', ''misery'', ''miss'',
     ''mistake'', ''mix'', ''mixed'', ''mixture'', ''mobile'', ''model'', ''modify'', ''mom'',
     ''moment'', ''monitor'', ''monkey'', ''monster'', ''month'', ''moon'', ''moral'', ''more'',
     ''morning'']"

definition words_9 :: "string list" where
  "words_9 = [
     ''mosquito'', ''mother'', ''motion'', ''motor'', ''mountain'', ''mouse'', ''move'', ''movie'',
     ''much'', ''muffin'', ''mule'', ''multiply'', ''muscle'', ''museum'', ''mushroom'', ''music'',
     ''must'', ''mutual'', ''myself'', ''mystery'', ''myth'', ''naive'', ''name'', ''napkin'',
     ''narrow'', ''nasty'', ''nation'', ''nature'', ''near'', ''neck'', ''need'', ''negative'',
     ''neglect'', ''neither'', ''nephew'', ''nerve'', ''nest'', ''net'', ''network'', ''neutral'',
     ''never'', ''news'', ''next'', ''nice'', ''night'', ''noble'', ''noise'', ''nominee'',
     ''noodle'', ''normal'', ''north'', ''nose'', ''notable'', ''note'', ''nothing'', ''notice'',
     ''novel'', ''now'', ''nuclear'', ''number'', ''nurse'', ''nut'', ''oak'', ''obey'',
     ''object'', ''oblige'', ''obscure'', ''observe'', ''obtain'', ''obvious'', ''occur'',
     ''ocean'', ''october'', ''odor'', ''off'', ''offer'', ''office'', ''often'', ''oil'',
     ''okay'', ''old'', ''olive'', ''olympic'', ''omit'', ''once'', ''one'', ''onion'', ''online'',
     ''only'', ''open'', ''opera'', ''opinion'', ''oppose'', ''option'', ''orange'', ''orbit'',
     ''orchard'', ''order'', ''ordinary'', ''organ'', ''orient'', ''original'', ''orphan'',
     ''ostrich'', ''other'', ''outdoor'', ''outer'', ''output'', ''outside'', ''oval'', ''oven'',
     ''over'', ''own'', ''owner'', ''oxygen'', ''oyster'', ''ozone'', ''pact'', ''paddle'',
     ''page'', ''pair'', ''palace'', ''palm'', ''panda'', ''panel'', ''panic'', ''panther'',
     ''paper'']"

definition words_10 :: "string list" where
  "words_10 = [
     ''parade'', ''parent'', ''park'', ''parrot'', ''party'', ''pass'', ''patch'', ''path'',
     ''patient'', ''patrol'', ''pattern'', ''pause'', ''pave'', ''payment'', ''peace'', ''peanut'',
     ''pear'', ''peasant'', ''pelican'', ''pen'', ''penalty'', ''pencil'', ''people'', ''pepper'',
     ''perfect'', ''permit'', ''person'', ''pet'', ''phone'', ''photo'', ''phrase'', ''physical'',
     ''piano'', ''picnic'', ''picture'', ''piece'', ''pig'', ''pigeon'', ''pill'', ''pilot'',
     ''pink'', ''pioneer'', ''pipe'', ''pistol'', ''pitch'', ''pizza'', ''place'', ''planet'',
     ''plastic'', ''plate'', ''play'', ''please'', ''pledge'', ''pluck'', ''plug'', ''plunge'',
     ''poem'', ''poet'', ''point'', ''polar'', ''pole'', ''police'', ''pond'', ''pony'', ''pool'',
     ''popular'', ''portion'', ''position'', ''possible'', ''post'', ''potato'', ''pottery'',
     ''poverty'', ''powder'', ''power'', ''practice'', ''praise'', ''predict'', ''prefer'',
     ''prepare'', ''present'', ''pretty'', ''prevent'', ''price'', ''pride'', ''primary'',
     ''print'', ''priority'', ''prison'', ''private'', ''prize'', ''problem'', ''process'',
     ''produce'', ''profit'', ''program'', ''project'', ''promote'', ''proof'', ''property'',
     ''prosper'', ''protect'', ''proud'', ''provide'', ''public'', ''pudding'', ''pull'', ''pulp'',
     ''pulse'', ''pumpkin'', ''punch'', ''pupil'', ''puppy'', ''purchase'', ''purity'',
     ''purpose'', ''purse'', ''push'', ''put'', ''puzzle'', ''pyramid'', ''quality'', ''quantum'',
     ''quarter'', ''question'', ''quick'', ''quit'', ''quiz'']"

definition words_11 :: "string list" where
  "words_11 = [
     ''quote'', ''rabbit'', ''raccoon'', ''race'', ''rack'', ''radar'', ''radio'', ''rail'',
     ''rain'', ''raise'', ''rally'', ''ramp'', ''ranch'', ''random'', ''range'', ''rapid'',
     ''rare'', ''rate'', ''rather'', ''raven'', ''raw'', ''razor'', ''ready'', ''real'',
     ''reason'', ''rebel'', ''rebuild'', ''recall'', ''receive'', ''recipe'', ''record'',
     ''recycle'', ''reduce'', ''reflect'', ''reform'', ''refuse'', ''region'', ''regret'',
     ''regular'', ''reject'', ''relax'', ''release'', ''relief'', ''rely'', ''remain'',
     ''remember'', ''remind'', ''remove'', ''render'', ''renew'', ''rent'', ''reopen'', ''repair'',
     ''repeat'', ''replace'', ''report'', ''require'', ''rescue'', ''resemble'', ''resist'',
     ''resource'', ''response'', ''result'', ''retire'', ''retreat'', ''return'', ''reunion'',
     ''reveal'', ''review'', ''reward'', ''rhythm'', ''rib'', ''ribbon'', ''rice'', ''rich'',
     ''ride'', ''ridge'', ''rifle'', ''right'', ''rigid'', ''ring'', ''riot'', ''ripple'',
     ''risk'', ''ritual'', ''rival'', ''river'', ''road'', ''roast'', ''robot'', ''robust'',
     ''rocket'', ''romance'', ''roof'', ''rookie'', ''room'', ''rose'', ''rotate'', ''rough'',
     ''round'', ''route'', ''royal'', ''rubber'', ''rude'', ''rug'', ''rule'', ''run'', ''runway'',
     ''rural'', ''sad'', ''saddle'', ''sadness'', ''safe'', ''sail'', ''salad'', ''salmon'',
     ''salon'', ''salt'', ''salute'', ''same'', ''sample'', ''sand'', ''satisfy'', ''satoshi'',
     ''sauce'', ''sausage'', ''save'', ''say'']"

definition words_12 :: "string list" where
  "words_12 = [
     ''scale'', ''scan'', ''scare'', ''scatter'', ''scene'', ''scheme'', ''school'', ''science'',
     ''scissors'', ''scorpion'', ''scout'', ''scrap'', ''screen'', ''script'', ''scrub'', ''sea'',
     ''search'', ''season'', ''seat'', ''second'', ''secret'', ''section'', ''security'', ''seed'',
     ''seek'', ''segment'', ''select'', ''sell'', ''seminar'', ''senior'', ''sense'', ''sentence'',
     ''series'', ''service'', ''session'', ''settle'', ''setup'', ''seven'', ''shadow'', ''shaft'',
     ''shallow'', ''share'', ''shed'', ''shell'', ''sheriff'', ''shield'', ''shift'', ''shine'',
     ''ship'', ''shiver'', ''shock'', ''shoe'', ''shoot'', ''shop'', ''short'', ''shoulder'',
     ''shove'', ''shrimp'', ''shrug'', ''shuffle'', ''shy'', ''sibling'', ''sick'', ''side'',
     ''siege'', ''sight'', ''sign'', ''silent'', ''silk'', ''silly'', ''silver'', ''similar'',
     ''simple'', ''since'', ''sing'', ''siren'', ''sister'', ''situate'', ''six'', ''size'',
     ''skate'', ''sketch'', ''ski'', ''skill'', ''skin'', ''skirt'', ''skull'', ''slab'', ''slam'',
     ''sleep'', ''slender'', ''slice'', ''slide'', ''slight'', ''slim'', ''slogan'', ''slot'',
     ''slow'', ''slush'', ''small'', ''smart'', ''smile'', ''smoke'', ''smooth'', ''snack'',
     ''snake'', ''snap'', ''sniff'', ''snow'', ''soap'', ''soccer'', ''social'', ''sock'',
     ''soda'', ''soft'', ''solar'', ''soldier'', ''solid'', ''solution'', ''solve'', ''someone'',
     ''song'', ''soon'', ''sorry'', ''sort'', ''soul'', ''sound'', ''soup'']"

definition words_13 :: "string list" where
  "words_13 = [
     ''source'', ''south'', ''space'', ''spare'', ''spatial'', ''spawn'', ''speak'', ''special'',
     ''speed'', ''spell'', ''spend'', ''sphere'', ''spice'', ''spider'', ''spike'', ''spin'',
     ''spirit'', ''split'', ''spoil'', ''sponsor'', ''spoon'', ''sport'', ''spot'', ''spray'',
     ''spread'', ''spring'', ''spy'', ''square'', ''squeeze'', ''squirrel'', ''stable'',
     ''stadium'', ''staff'', ''stage'', ''stairs'', ''stamp'', ''stand'', ''start'', ''state'',
     ''stay'', ''steak'', ''steel'', ''stem'', ''step'', ''stereo'', ''stick'', ''still'',
     ''sting'', ''stock'', ''stomach'', ''stone'', ''stool'', ''story'', ''stove'', ''strategy'',
     ''street'', ''strike'', ''strong'', ''struggle'', ''student'', ''stuff'', ''stumble'',
     ''style'', ''subject'', ''submit'', ''subway'', ''success'', ''such'', ''sudden'', ''suffer'',
     ''sugar'', ''suggest'', ''suit'', ''summer'', ''sun'', ''sunny'', ''sunset'', ''super'',
     ''supply'', ''supreme'', ''sure'', ''surface'', ''surge'', ''surprise'', ''surround'',
     ''survey'', ''suspect'', ''sustain'', ''swallow'', ''swamp'', ''swap'', ''swarm'', ''swear'',
     ''sweet'', ''swift'', ''swim'', ''swing'', ''switch'', ''sword'', ''symbol'', ''symptom'',
     ''syrup'', ''system'', ''table'', ''tackle'', ''tag'', ''tail'', ''talent'', ''talk'',
     ''tank'', ''tape'', ''target'', ''task'', ''taste'', ''tattoo'', ''taxi'', ''teach'',
     ''team'', ''tell'', ''ten'', ''tenant'', ''tennis'', ''tent'', ''term'', ''test'', ''text'',
     ''thank'', ''that'']"

definition words_14 :: "string list" where
  "words_14 = [
     ''theme'', ''then'', ''theory'', ''there'', ''they'', ''thing'', ''this'', ''thought'',
     ''three'', ''thrive'', ''throw'', ''thumb'', ''thunder'', ''ticket'', ''tide'', ''tiger'',
     ''tilt'', ''timber'', ''time'', ''tiny'', ''tip'', ''tired'', ''tissue'', ''title'',
     ''toast'', ''tobacco'', ''today'', ''toddler'', ''toe'', ''together'', ''toilet'', ''token'',
     ''tomato'', ''tomorrow'', ''tone'', ''tongue'', ''tonight'', ''tool'', ''tooth'', ''top'',
     ''topic'', ''topple'', ''torch'', ''tornado'', ''tortoise'', ''toss'', ''total'', ''tourist'',
     ''toward'', ''tower'', ''town'', ''toy'', ''track'', ''trade'', ''traffic'', ''tragic'',
     ''train'', ''transfer'', ''trap'', ''trash'', ''travel'', ''tray'', ''treat'', ''tree'',
     ''trend'', ''trial'', ''tribe'', ''trick'', ''trigger'', ''trim'', ''trip'', ''trophy'',
     ''trouble'', ''truck'', ''true'', ''truly'', ''trumpet'', ''trust'', ''truth'', ''try'',
     ''tube'', ''tuition'', ''tumble'', ''tuna'', ''tunnel'', ''turkey'', ''turn'', ''turtle'',
     ''twelve'', ''twenty'', ''twice'', ''twin'', ''twist'', ''two'', ''type'', ''typical'',
     ''ugly'', ''umbrella'', ''unable'', ''unaware'', ''uncle'', ''uncover'', ''under'', ''undo'',
     ''unfair'', ''unfold'', ''unhappy'', ''uniform'', ''unique'', ''unit'', ''universe'',
     ''unknown'', ''unlock'', ''until'', ''unusual'', ''unveil'', ''update'', ''upgrade'',
     ''uphold'', ''upon'', ''upper'', ''upset'', ''urban'', ''urge'', ''usage'', ''use'', ''used'',
     ''useful'']"

definition words_15 :: "string list" where
  "words_15 = [
     ''useless'', ''usual'', ''utility'', ''vacant'', ''vacuum'', ''vague'', ''valid'', ''valley'',
     ''valve'', ''van'', ''vanish'', ''vapor'', ''various'', ''vast'', ''vault'', ''vehicle'',
     ''velvet'', ''vendor'', ''venture'', ''venue'', ''verb'', ''verify'', ''version'', ''very'',
     ''vessel'', ''veteran'', ''viable'', ''vibrant'', ''vicious'', ''victory'', ''video'',
     ''view'', ''village'', ''vintage'', ''violin'', ''virtual'', ''virus'', ''visa'', ''visit'',
     ''visual'', ''vital'', ''vivid'', ''vocal'', ''voice'', ''void'', ''volcano'', ''volume'',
     ''vote'', ''voyage'', ''wage'', ''wagon'', ''wait'', ''walk'', ''wall'', ''walnut'', ''want'',
     ''warfare'', ''warm'', ''warrior'', ''wash'', ''wasp'', ''waste'', ''water'', ''wave'',
     ''way'', ''wealth'', ''weapon'', ''wear'', ''weasel'', ''weather'', ''web'', ''wedding'',
     ''weekend'', ''weird'', ''welcome'', ''west'', ''wet'', ''whale'', ''what'', ''wheat'',
     ''wheel'', ''when'', ''where'', ''whip'', ''whisper'', ''wide'', ''width'', ''wife'',
     ''wild'', ''will'', ''win'', ''window'', ''wine'', ''wing'', ''wink'', ''winner'', ''winter'',
     ''wire'', ''wisdom'', ''wise'', ''wish'', ''witness'', ''wolf'', ''woman'', ''wonder'',
     ''wood'', ''wool'', ''word'', ''work'', ''world'', ''worry'', ''worth'', ''wrap'', ''wreck'',
     ''wrestle'', ''wrist'', ''write'', ''wrong'', ''yard'', ''year'', ''yellow'', ''you'',
     ''young'', ''youth'', ''zebra'', ''zero'', ''zone'', ''zoo'']"

definition words :: "string list" where
  "words = concat [words_0, words_1, words_2, words_3, words_4, words_5, words_6, words_7, words_8, words_9, words_10, words_11, words_12, words_13, words_14, words_15]"

section \<open>Order\<close>

fun str_less :: "string \<Rightarrow> string \<Rightarrow> bool" where
  "str_less [] t = (t \<noteq> [])"
| "str_less s [] = False"
| "str_less (a # s) (b # t) =
     (of_char a < (of_char b :: nat) \<or> a = b \<and> str_less s t)"

fun increasing :: "string list \<Rightarrow> bool" where
  "increasing (s # t # ss) = (str_less s t \<and> increasing (t # ss))"
| "increasing ss = True"

lemma str_less_irrefl: "\<not> str_less s s"
  by (induction s) auto

lemma str_less_trans: "str_less s t \<Longrightarrow> str_less t u \<Longrightarrow> str_less s u"
proof (induction s t arbitrary: u rule: str_less.induct)
  case (3 a s b t)
  then show ?case by (cases u) auto
qed (auto elim: str_less.elims)

lemma increasing_less: "increasing (s # ss) \<Longrightarrow> t \<in> set ss \<Longrightarrow> str_less s t"
  by (induction ss arbitrary: s) (auto dest: str_less_trans)

lemma increasing_distinct: "increasing ss \<Longrightarrow> distinct ss"
proof (induction ss)
  case (Cons s ss)
  then have "increasing ss" by (cases ss) auto
  moreover have "s \<notin> set ss" using Cons.prems increasing_less str_less_irrefl by blast
  ultimately show ?case using Cons.IH by simp
qed simp

lemma increasing_append:
  "xs \<noteq> [] \<Longrightarrow> ys \<noteq> [] \<Longrightarrow>
     increasing (xs @ ys) \<longleftrightarrow> increasing xs \<and> increasing ys \<and> str_less (last xs) (hd ys)"
  by (induction xs rule: increasing.induct) (auto simp: neq_Nil_conv)

lemma part_0:
  "increasing words_0" "length words_0 = 128" "words_0 \<noteq> []"
  "hd words_0 = ''abandon''" "last words_0 = ''avocado''"
  by (simp add: words_0_def, (code_simp; fail)+)

text \<open>The word number 238 is out of order; the rest of its part is increasing.\<close>

lemma part_1:
  "increasing (take 110 words_1 @ drop 111 words_1)" "length words_1 = 128" "words_1 \<noteq> []"
  "hd (take 110 words_1 @ drop 111 words_1) = ''avoid''"
  "last (take 110 words_1 @ drop 111 words_1) = ''cable''" "words_1 ! 110 = ''filter''"
  by (code_simp; fail)+

lemma part_2:
  "increasing words_2" "length words_2 = 128" "words_2 \<noteq> []"
  "hd words_2 = ''cactus''" "last words_2 = ''copper''"
  by (simp add: words_2_def, (code_simp; fail)+)

lemma part_3:
  "increasing words_3" "length words_3 = 128" "words_3 \<noteq> []"
  "hd words_3 = ''copy''" "last words_3 = ''divide''"
  by (simp add: words_3_def, (code_simp; fail)+)

lemma part_4:
  "increasing words_4" "length words_4 = 128" "words_4 \<noteq> []"
  "hd words_4 = ''divorce''" "last words_4 = ''exit''"
  by (simp add: words_4_def, (code_simp; fail)+)

lemma part_5:
  "increasing words_5" "length words_5 = 128" "words_5 \<noteq> []"
  "hd words_5 = ''exotic''" "last words_5 = ''garment''"
  by (simp add: words_5_def, (code_simp; fail)+)

lemma part_6:
  "increasing words_6" "length words_6 = 128" "words_6 \<noteq> []"
  "hd words_6 = ''gas''" "last words_6 = ''husband''"
  by (simp add: words_6_def, (code_simp; fail)+)

lemma part_7:
  "increasing words_7" "length words_7 = 128" "words_7 \<noteq> []"
  "hd words_7 = ''hybrid''" "last words_7 = ''lend''"
  by (simp add: words_7_def, (code_simp; fail)+)

lemma part_8:
  "increasing words_8" "length words_8 = 128" "words_8 \<noteq> []"
  "hd words_8 = ''length''" "last words_8 = ''morning''"
  by (simp add: words_8_def, (code_simp; fail)+)

lemma part_9:
  "increasing words_9" "length words_9 = 128" "words_9 \<noteq> []"
  "hd words_9 = ''mosquito''" "last words_9 = ''paper''"
  by (simp add: words_9_def, (code_simp; fail)+)

lemma part_10:
  "increasing words_10" "length words_10 = 128" "words_10 \<noteq> []"
  "hd words_10 = ''parade''" "last words_10 = ''quiz''"
  by (simp add: words_10_def, (code_simp; fail)+)

lemma part_11:
  "increasing words_11" "length words_11 = 128" "words_11 \<noteq> []"
  "hd words_11 = ''quote''" "last words_11 = ''say''"
  by (simp add: words_11_def, (code_simp; fail)+)

lemma part_12:
  "increasing words_12" "length words_12 = 128" "words_12 \<noteq> []"
  "hd words_12 = ''scale''" "last words_12 = ''soup''"
  by (simp add: words_12_def, (code_simp; fail)+)

lemma part_13:
  "increasing words_13" "length words_13 = 128" "words_13 \<noteq> []"
  "hd words_13 = ''source''" "last words_13 = ''that''"
  by (simp add: words_13_def, (code_simp; fail)+)

lemma part_14:
  "increasing words_14" "length words_14 = 128" "words_14 \<noteq> []"
  "hd words_14 = ''theme''" "last words_14 = ''useful''"
  by (simp add: words_14_def, (code_simp; fail)+)

lemma part_15:
  "increasing words_15" "length words_15 = 128" "words_15 \<noteq> []"
  "hd words_15 = ''useless''" "last words_15 = ''zoo''"
  by (simp add: words_15_def, (code_simp; fail)+)

text \<open>Everything but that word, in increasing order.\<close>

definition other_words :: "string list" where
  "other_words = concat (words_0 # (take 110 words_1 @ drop 111 words_1) # [words_2, words_3, words_4, words_5, words_6, words_7, words_8, words_9, words_10, words_11, words_12, words_13, words_14, words_15])"

lemmas part_facts =
  part_0 part_1 part_2 part_3 part_4 part_5 part_6 part_7
  part_8 part_9 part_10 part_11 part_12 part_13 part_14 part_15

lemma increasing_other_words: "increasing other_words"
proof -
  define P where "P = take 110 words_1 @ drop 111 words_1"
  have "increasing P" "P \<noteq> []" "hd P = ''avoid''" "last P = ''cable''"
    using part_1(1,4,5) part_1(3) by (simp_all add: P_def)
  then show ?thesis
    unfolding other_words_def P_def [symmetric] by (simp add: increasing_append part_facts)
qed

lemma length_words: "length words = 2048"
  by (simp add: words_def part_facts)

lemma words_split:
  "\<exists>A B. length A = 238 \<and> words = A @ ''filter'' # B \<and> other_words = A @ B"
proof (intro exI conjI)
  let ?A = "words_0 @ take 110 words_1"
  let ?B = "drop 111 words_1 @ concat [words_2, words_3, words_4, words_5, words_6, words_7, words_8,
    words_9, words_10, words_11, words_12, words_13, words_14, words_15]"
  have "words_1 = take 110 words_1 @ words_1 ! 110 # drop (Suc 110) words_1"
    by (rule id_take_nth_drop) (simp add: part_1)
  then have "words_1 = take 110 words_1 @ ''filter'' # drop 111 words_1" by (simp only: part_1(6)) simp
  then show "words = ?A @ ''filter'' # ?B" unfolding words_def by simp
  show "length ?A = 238" by (simp add: part_0 part_1)
  show "other_words = ?A @ ?B" by (simp add: other_words_def)
qed

lemma words_filter_twice: "words ! 238 = ''filter''" "words ! 691 = ''filter''"
proof -
  have "words_5 ! 51 = ''filter''" by code_simp
  then show "words ! 691 = ''filter''" by (simp add: words_def nth_append part_facts)
  show "words ! 238 = ''filter''" by (simp add: words_def nth_append part_facts)
qed

lemma words_inj:
  assumes "i < 2048" and "j < 2048" and "words ! i = words ! j" and "words ! i \<noteq> ''filter''"
  shows "i = j"
proof -
  obtain A B where AB: "length A = 238" "words = A @ ''filter'' # B" "other_words = A @ B"
    using words_split by blast
  have dist: "distinct (A @ B)" using increasing_distinct [OF increasing_other_words] AB(3) by simp
  have len: "length (A @ B) = 2047" using length_words unfolding AB(2) by simp
  let ?pos = "\<lambda>i. if i < 238 then i else i - 1"
  have nth: "words ! k = (A @ B) ! ?pos k" if "k < 2048" "k \<noteq> 238" for k
    using that AB(1) by (auto simp: AB(2) nth_append nth_Cons')
  have ne: "i \<noteq> 238" "j \<noteq> 238" using assms(3,4) words_filter_twice(1) by metis+
  have "?pos i < 2047" "?pos j < 2047" using assms(1,2) ne by auto
  then have "?pos i = ?pos j"
    using nth_eq_iff_index_eq [OF dist, of "?pos i" "?pos j"] assms(1-3) ne nth len by simp
  with ne show ?thesis by (auto split: if_splits)
qed

end
