(* ===== verification/Bip39.thy ===== *)
theory Bip39
  imports Bip39_Words Sha256
begin

text \<open>
  The class \<open>BIP39\<close> of \<open>bip44/BIP39.hpp\<close>: a phrase of 24 or 12 words from random bits and a checksum,
  and the seed of a phrase. A \<open>std::bitset\<close> is a list of bits, index 0 first. OpenSSL's functions are
  parameters: \<open>rand n\<close> is the return value of \<open>RAND_priv_bytes\<close> with the contents of the buffer
  after the call, \<open>pbkdf2\<close> is \<open>PKCS5_PBKDF2_HMAC\<close> with SHA-512, and \<open>bn_hex\<close> is \<open>BN_bn2hex\<close> after
  \<open>BN_bin2bn\<close>.
\<close>

section \<open>Definitions\<close>

record BIP39Result =
  phrase :: string
  seed :: string

fun hex2dec_ul :: "string \<Rightarrow> nat" where
  "hex2dec_ul [] = 0"
| "hex2dec_ul (c # cs) =
     (case digit_value c of Some d \<Rightarrow> d * 16 ^ length cs | None \<Rightarrow> 0) + hex2dec_ul cs"

definition to_ulong :: "bool list \<Rightarrow> nat" where
  "to_ulong bs = horner_sum of_bool 2 bs"

text \<open>The loop \<open>t_bits[n - 1 - t] = bits[i]\<close> over \<open>n\<close> consecutive bits.\<close>

definition bits_window :: "nat \<Rightarrow> bool list \<Rightarrow> nat \<Rightarrow> bool list" where
  "bits_window n bits from =
     foldl (\<lambda>t c. t[n - 1 - c := bits ! (from + c)]) (replicate n False) [0..<n]"

text \<open>\<open>n\<close> random bits, one per random byte, followed by \<open>k\<close> cleared ones.\<close>

definition random_bits :: "nat \<Rightarrow> nat \<Rightarrow> bytes \<Rightarrow> bool list" where
  "random_bits n k r_buf = map (\<lambda>i. unat (r_buf ! i) mod 2 = 1) [0..<n] @ replicate k False"

definition split_bits_for_sha :: "nat \<Rightarrow> bool list \<Rightarrow> bytes" where
  "split_bits_for_sha n bits = map (\<lambda>j. of_nat (to_ulong (bits_window 8 bits (j * 8)))) [0..<n]"

definition sha256_hex :: "bytes \<Rightarrow> string" where
  "sha256_hex data = fst (sha256_call [] (SHA256_Legacy []) data)"

fun sign_loop :: "nat \<Rightarrow> nat \<Rightarrow> nat \<Rightarrow> bool list \<Rightarrow> bool list" where
  "sign_loop n i last_sha_digest sign_bits =
     (if 0 < last_sha_digest \<and> i < n
      then sign_loop n (i + 1) (last_sha_digest div 2)
        (if last_sha_digest mod 2 \<noteq> 0 then sign_bits[i := True] else sign_bits)
      else sign_bits)"

declare sign_loop.simps [simp del]

text \<open>The assignments \<open>bits[256 + k] = sign_bits[7 - k]\<close>, respectively \<open>bits[128 + k] = sign_bits[3 - k]\<close>.\<close>

definition set_checksum :: "nat \<Rightarrow> nat \<Rightarrow> bool list \<Rightarrow> bool list \<Rightarrow> bool list" where
  "set_checksum from n sign_bits bits =
     foldl (\<lambda>b k. b[from + k := sign_bits ! (n - 1 - k)]) bits [0..<n]"

definition bitsToWords :: "nat \<Rightarrow> bool list \<Rightarrow> string list" where
  "bitsToWords n bits = map (\<lambda>i. words ! to_ulong (bits_window 11 bits (11 * i))) [0..<n]"

definition join_words :: "nat \<Rightarrow> string list \<Rightarrow> string" where
  "join_words n ws = concat (map (\<lambda>i. ws ! i @ (if i = n - 1 then '''' else '' '')) [0..<n])"

text \<open>
  \<open>strcpy\<close> copies the salt up to its first zero byte into the array; what lies behind is the
  indeterminate \<open>stack\<close>.
\<close>

definition salt_buffer :: "bytes \<Rightarrow> bytes \<Rightarrow> bytes" where
  "salt_buffer stack salt = take (length salt) (takeWhile (\<lambda>b. b \<noteq> 0) salt @ [0] @ stack)"

definition phraseToSeed ::
  "(bytes \<Rightarrow> bytes \<Rightarrow> nat \<Rightarrow> nat \<Rightarrow> bytes) \<Rightarrow> (bytes \<Rightarrow> string) \<Rightarrow> bytes \<Rightarrow> string \<Rightarrow> string \<Rightarrow> string" where
  "phraseToSeed pbkdf2 bn_hex stack phr password =
     (let mnemonic_salt = bytes_of_string (''mnemonic'' @ password);
          slt = salt_buffer stack mnemonic_salt
      in bn_hex (pbkdf2 (bytes_of_string phr) slt 2048 64))"

definition mnemonic_bits :: "bytes \<Rightarrow> bool list" where
  "mnemonic_bits r_buf =
     (let bits = random_bits 256 8 r_buf;
          mySHA = sha256_hex (split_bits_for_sha 32 bits);
          sign_bits = sign_loop 8 0 (hex2dec_ul (take 2 mySHA)) (replicate 8 False)
      in set_checksum 256 8 sign_bits bits)"

definition bitsToWords_12 :: "bool list \<Rightarrow> string list" where
  "bitsToWords_12 bits = map (\<lambda>i. words ! to_ulong (bits_window 11 bits (11 * i))) [0..<12]"

definition mnemonic_bits_12 :: "bytes \<Rightarrow> bool list" where
  "mnemonic_bits_12 r_buf =
     (let bits = random_bits 128 4 r_buf;
          mySHA = sha256_hex (split_bits_for_sha 16 bits);
          sign_bits = sign_loop 4 0 (hex2dec_ul (take 1 mySHA)) (replicate 4 False)
      in set_checksum 128 4 sign_bits bits)"

definition generateMnemonic ::
  "(nat \<Rightarrow> int \<times> bytes) \<Rightarrow> (string \<Rightarrow> string \<Rightarrow> string) \<Rightarrow> string \<Rightarrow> BIP39Result" where
  "generateMnemonic rand to_seed passphrase =
     (let (ok, r_buf) = rand 256
      in if ok = 0 then \<lparr>phrase = '''', seed = ''''\<rparr>
         else (let final_mnemonic = join_words 24 (bitsToWords 24 (mnemonic_bits r_buf))
               in \<lparr>phrase = final_mnemonic, seed = to_seed final_mnemonic passphrase\<rparr>))"

definition generateMnemonic_12 ::
  "(nat \<Rightarrow> int \<times> bytes) \<Rightarrow> (string \<Rightarrow> string \<Rightarrow> string) \<Rightarrow> string \<Rightarrow> BIP39Result" where
  "generateMnemonic_12 rand to_seed passphrase =
     (let (ok, r_buf) = rand 128
      in if ok = 0 then \<lparr>phrase = '''', seed = ''''\<rparr>
         else (let final_mnemonic = join_words 12 (bitsToWords_12 (mnemonic_bits_12 r_buf))
               in \<lparr>phrase = final_mnemonic, seed = to_seed final_mnemonic passphrase\<rparr>))"

section \<open>Reference\<close>

text \<open>Most significant bit first, as BIP-39 reads entropy, checksum and word numbers.\<close>

definition be_bits :: "nat \<Rightarrow> nat \<Rightarrow> bool list" where
  "be_bits n x = map (\<lambda>k. bit x (n - 1 - k)) [0..<n]"

definition entropy_bits :: "bytes \<Rightarrow> bool list" where
  "entropy_bits r_buf = map (\<lambda>b. odd (unat b)) r_buf"

text \<open>The bytes whose concatenated bits are the given bits.\<close>

fun pack_bits :: "bool list \<Rightarrow> bytes" where
  "pack_bits (a # b # c # d # e # f # g # h # bs) =
     of_nat (horner_sum of_bool 2 [h, g, f, e, d, c, b, a]) # pack_bits bs"
| "pack_bits bs = []"

section \<open>Lemmas\<close>

lemma bits_window_rev:
  assumes "from + n \<le> length bits"
  shows "bits_window n bits from = rev (take n (drop from bits))"
proof -
  have len: "length (foldl (\<lambda>t c. t[g c := f c]) t cs) = length t" for f g and t :: "bool list" and cs :: "nat list"
    by (induction cs arbitrary: t) auto
  have nth: "foldl (\<lambda>t c. t[n - Suc c := f c]) (replicate n False) [0..<m] ! i
      = (if n - Suc i < m then f (n - Suc i) else False)" if "i < n" "m \<le> n" for f m i
    using that by (induction m) (auto simp: nth_list_update len less_Suc_eq)
  show ?thesis
  proof (rule nth_equalityI)
    show "length (bits_window n bits from) = length (rev (take n (drop from bits)))"
      using assms by (simp add: bits_window_def len)
  next
    fix i assume "i < length (bits_window n bits from)"
    then have "i < n" by (simp add: bits_window_def len)
    with assms show "bits_window n bits from ! i = rev (take n (drop from bits)) ! i"
      by (simp add: bits_window_def nth rev_nth Nat.add_diff_assoc)
  qed
qed

lemma to_ulong_less: "to_ulong bs < 2 ^ length bs"
  unfolding to_ulong_def by (induction bs) auto

lemma be_bits_to_ulong: "length bs = n \<Longrightarrow> be_bits n (to_ulong (rev bs)) = bs"
  by (intro nth_equalityI) (auto simp: be_bits_def to_ulong_def bit_horner_sum_bit_iff rev_nth)

lemma word_index:
  assumes "11 * i + 11 \<le> length bits"
  shows "to_ulong (bits_window 11 bits (11 * i)) < 2048"
    and "be_bits 11 (to_ulong (bits_window 11 bits (11 * i))) = take 11 (drop (11 * i) bits)"
proof -
  have w: "bits_window 11 bits (11 * i) = rev (take 11 (drop (11 * i) bits))"
    using assms by (intro bits_window_rev) simp
  have "length (take 11 (drop (11 * i) bits)) = 11" using assms by simp
  then show "be_bits 11 (to_ulong (bits_window 11 bits (11 * i))) = take 11 (drop (11 * i) bits)"
    unfolding w by (rule be_bits_to_ulong)
  show "to_ulong (bits_window 11 bits (11 * i)) < 2048"
    using to_ulong_less [of "bits_window 11 bits (11 * i)"] assms by (simp add: w)
qed

lemma concat_windows:
  "length bits = k * n \<Longrightarrow> concat (map (\<lambda>i. take k (drop (k * i) bits)) [0..<n]) = bits"
proof (induction n arbitrary: bits)
  case (Suc n)
  have "concat (map (\<lambda>i. take k (drop (k * i) bits)) [0..<Suc n])
      = take k bits @ concat (map (\<lambda>i. take k (drop (k * i) (drop k bits))) [0..<n])"
    by (simp add: upt_conv_Cons map_Suc_upt [symmetric] comp_def add.commute del: upt_Suc)
  also have "concat (map (\<lambda>i. take k (drop (k * i) (drop k bits))) [0..<n]) = drop k bits"
    using Suc.prems by (intro Suc.IH) simp
  finally show ?case by simp
qed simp

lemma sign_loop_nth:
  "i \<le> n \<Longrightarrow> length bs = n \<Longrightarrow>
     length (sign_loop n i v bs) = n \<and>
     (\<forall>k < n. sign_loop n i v bs ! k = (bs ! k \<or> i \<le> k \<and> bit v (k - i)))"
proof (induction n i v bs rule: sign_loop.induct)
  case (1 n i v bs)
  let ?bs = "if v mod 2 \<noteq> 0 then bs[i := True] else bs"
  show ?case
  proof (cases "0 < v \<and> i < n")
    case True
    then have eq: "sign_loop n i v bs = sign_loop n (i + 1) (v div 2) ?bs" by (simp add: sign_loop.simps [of n i])
    have len: "length ?bs = n" using "1.prems" by simp
    have IH: "length (sign_loop n (i + 1) (v div 2) ?bs) = n"
      "\<And>k. k < n \<Longrightarrow> sign_loop n (i + 1) (v div 2) ?bs ! k = (?bs ! k \<or> i + 1 \<le> k \<and> bit (v div 2) (k - (i + 1)))"
      using "1.IH" [OF True _ len] True by auto
    have "(?bs ! k \<or> i + 1 \<le> k \<and> bit (v div 2) (k - (i + 1))) = (bs ! k \<or> i \<le> k \<and> bit v (k - i))" if "k < n" for k
    proof (cases "k = i")
      case True
      then show ?thesis using that "1.prems" by (auto simp: bit_0 odd_iff_mod_2_eq_one)
    next
      case False
      then show ?thesis
        using that "1.prems" by (cases "i \<le> k") (auto simp: nth_list_update Suc_diff_le bit_Suc Suc_le_eq dest!: le_neq_implies_less simp flip: Suc_diff_Suc)
    qed
    with IH show ?thesis by (simp only: eq) simp
  next
    case False
    with "1.prems" show ?thesis by (auto simp: sign_loop.simps [of n i])
  qed
qed

lemma sign_loop_be_bits: "rev (sign_loop n 0 v (replicate n False)) = be_bits n v"
  using sign_loop_nth [of 0 n "replicate n False" v]
  by (intro nth_equalityI) (auto simp: be_bits_def rev_nth)

lemma set_checksum_append:
  assumes "length xs = from" and "length sign = n"
  shows "set_checksum from n sign (xs @ replicate n False) = xs @ rev sign"
proof -
  have "foldl (\<lambda>b k. b[from + k := sign ! (n - 1 - k)]) (xs @ replicate n False) [0..<m]
      = xs @ take m (rev sign) @ replicate (n - m) False" if "m \<le> n" for m
    using that
  proof (induction m)
    case (Suc m)
    then have "replicate (n - m) False = False # replicate (n - Suc m) False"
      by (metis Suc_diff_Suc Suc_le_lessD replicate_Suc)
    with Suc assms show ?case
      by (simp add: list_update_append take_Suc_conv_app_nth rev_nth)
  qed simp
  from this [of n] show ?thesis using assms by (simp add: set_checksum_def)
qed

lemma pack_bits_windows:
  "pack_bits bits = map (\<lambda>j. of_nat (to_ulong (rev (take 8 (drop (8 * j) bits))))) [0..<length bits div 8]"
proof (induction bits rule: pack_bits.induct)
  case (1 a b c d e f g h bs)
  have "length (a # b # c # d # e # f # g # h # bs) div 8 = Suc (length bs div 8)" by simp
  moreover have "drop (8 + k) (a # b # c # d # e # f # g # h # bs) = drop k bs" for k
    using drop_drop [of k 8 "a # b # c # d # e # f # g # h # bs"] by (simp add: add.commute)
  then have "map (\<lambda>j. F (take 8 (drop (8 * j) (a # b # c # d # e # f # g # h # bs)))) [0..<Suc m]
      = F [a, b, c, d, e, f, g, h] # map (\<lambda>j. F (take 8 (drop (8 * j) bs))) [0..<m]" for F :: "bool list \<Rightarrow> u8" and m
    by (simp add: upt_conv_Cons map_Suc_upt [symmetric] comp_def del: upt_Suc)
  from this [of "\<lambda>w. of_nat (to_ulong (rev w))" "length bs div 8"] have
    "map (\<lambda>j. of_nat (to_ulong (rev (take 8 (drop (8 * j) (a # b # c # d # e # f # g # h # bs)))))) [0..<Suc (length bs div 8)]
      = (of_nat (to_ulong (rev [a, b, c, d, e, f, g, h])) :: u8)
        # map (\<lambda>j. of_nat (to_ulong (rev (take 8 (drop (8 * j) bs))))) [0..<length bs div 8]" .
  moreover have "pack_bits (a # b # c # d # e # f # g # h # bs)
      = of_nat (to_ulong (rev [a, b, c, d, e, f, g, h])) # pack_bits bs"
    by (simp only: pack_bits.simps to_ulong_def rev.simps append.simps)
  ultimately show ?case using 1 by (simp only:)
qed simp_all

lemma split_bits_pack:
  assumes "length e = 8 * n"
  shows "split_bits_for_sha n (e @ f) = pack_bits e"
proof -
  have "bits_window 8 (e @ f) (j * 8) = rev (take 8 (drop (8 * j) e))" if "j < n" for j
    using that assms by (subst bits_window_rev) (simp_all add: mult.commute)
  then show ?thesis
    unfolding split_bits_for_sha_def pack_bits_windows using assms by (intro map_cong) simp_all
qed

lemma random_bits_entropy: "length r_buf = n \<Longrightarrow> random_bits n k r_buf = entropy_bits r_buf @ replicate k False"
  unfolding random_bits_def entropy_bits_def
  by (intro arg_cong2 [where f = "(@)"] refl nth_equalityI) (simp_all add: odd_iff_mod_2_eq_one)

lemma sha256_hex_digest: "sha256_hex data = concat (map hex_byte_pair (sha256_digest data))"
  by (simp add: sha256_hex_def sha256_call_reference [OF sha256_new(1)] sha256_reference_digest to_hex_pairs)

lemma sha_prefix_values:
  "hex2dec_ul (take 2 (sha256_hex data)) = unat (hd (sha256_digest data))"
  "hex2dec_ul (take 1 (sha256_hex data)) = unat (hd (sha256_digest data)) div 16"
proof -
  obtain b bs where d: "sha256_digest data = b # bs"
    using length_sha256_digest [of data] by (cases "sha256_digest data") auto
  have "unat b div 16 < 16" by (rule unat_u8_div_16)
  then show "hex2dec_ul (take 2 (sha256_hex data)) = unat (hd (sha256_digest data))"
    "hex2dec_ul (take 1 (sha256_hex data)) = unat (hd (sha256_digest data)) div 16"
    by (simp_all add: sha256_hex_digest d hex_byte_pair_digits)
qed

lemma length_sign_loop: "length (sign_loop n 0 v (replicate n False)) = n"
  using sign_loop_nth [of 0 n "replicate n False" v] by simp

lemma mnemonic_bits_eq:
  assumes "length r_buf = 256"
  shows "mnemonic_bits r_buf
    = entropy_bits r_buf @ be_bits 8 (unat (hd (sha256_digest (pack_bits (entropy_bits r_buf)))))"
proof -
  have len: "length (entropy_bits r_buf) = 256" using assms by (simp add: entropy_bits_def)
  then show ?thesis
    using split_bits_pack [of "entropy_bits r_buf" 32 "replicate 8 False"]
    by (simp add: mnemonic_bits_def Let_def random_bits_entropy [OF assms] sha_prefix_values
      set_checksum_append [OF len length_sign_loop] sign_loop_be_bits)
qed

lemma mnemonic_bits_12_eq:
  assumes "length r_buf = 128"
  shows "mnemonic_bits_12 r_buf
    = entropy_bits r_buf @ be_bits 4 (unat (hd (sha256_digest (pack_bits (entropy_bits r_buf)))) div 16)"
proof -
  have len: "length (entropy_bits r_buf) = 128" using assms by (simp add: entropy_bits_def)
  then show ?thesis
    using split_bits_pack [of "entropy_bits r_buf" 16 "replicate 4 False"]
    by (simp add: mnemonic_bits_12_def Let_def random_bits_entropy [OF assms] sha_prefix_values(2) [simplified]
      set_checksum_append [OF len length_sign_loop] sign_loop_be_bits)
qed

lemma bitsToWords_indices:
  assumes "length bits = 11 * n"
  shows "\<exists>idx. length idx = n \<and> (\<forall>i \<in> set idx. i < 2048) \<and> bitsToWords n bits = map ((!) words) idx
    \<and> concat (map (be_bits 11) idx) = bits"
proof (intro exI conjI)
  let ?idx = "map (\<lambda>i. to_ulong (bits_window 11 bits (11 * i))) [0..<n]"
  have le: "11 * i + 11 \<le> length bits" if "i < n" for i using that assms by simp
  show "length ?idx = n" by simp
  show "\<forall>i \<in> set ?idx. i < 2048" using word_index(1) [OF le] by auto
  show "bitsToWords n bits = map ((!) words) ?idx" by (simp add: bitsToWords_def)
  have "map (be_bits 11) ?idx = map (\<lambda>i. take 11 (drop (11 * i) bits)) [0..<n]"
    using word_index(2) [OF le] by simp
  then show "concat (map (be_bits 11) ?idx) = bits" using concat_windows [OF assms] by (simp only:)
qed

lemma bitsToWords_inj:
  assumes "length bits = 11 * n" and "length bits' = 11 * n" and "bitsToWords n bits = bitsToWords n bits'"
    and "''filter'' \<notin> set (bitsToWords n bits)"
  shows "bits = bits'"
proof -
  obtain idx where i: "length idx = n" "\<forall>i \<in> set idx. i < 2048" "bitsToWords n bits = map ((!) words) idx"
    "concat (map (be_bits 11) idx) = bits" using bitsToWords_indices [OF assms(1)] by blast
  obtain idx' where i': "length idx' = n" "\<forall>i \<in> set idx'. i < 2048" "bitsToWords n bits' = map ((!) words) idx'"
    "concat (map (be_bits 11) idx') = bits'" using bitsToWords_indices [OF assms(2)] by blast
  have "idx = idx'"
  proof (rule nth_equalityI)
    show "length idx = length idx'" using i(1) i'(1) by simp
    fix k assume k: "k < length idx"
    then have "words ! (idx ! k) = words ! (idx' ! k)"
      using assms(3) i(1,3) i'(1,3) by (metis nth_map)
    moreover have "words ! (idx ! k) \<noteq> ''filter''" using assms(4) k i(3) by (metis image_eqI list.set_map nth_mem)
    ultimately show "idx ! k = idx' ! k"
      using i i' k by (intro words_inj) auto
  qed
  then show ?thesis using i(4) i'(4) by simp
qed

lemma to_ulong_zeros: "to_ulong (replicate n False) = 0"
  unfolding to_ulong_def by (induction n) auto

lemma first_word:
  assumes "length w = 11"
  shows "bitsToWords 24 (w @ replicate 253 False) = words ! to_ulong (rev w) # replicate 23 (words ! 0)"
proof -
  let ?b = "w @ replicate 253 False"
  have first: "to_ulong (bits_window 11 ?b 0) = to_ulong (rev w)"
    using assms by (subst bits_window_rev) simp_all
  have rest: "to_ulong (bits_window 11 ?b (11 * Suc i)) = 0" if "i < 23" for i
    using that assms by (subst bits_window_rev) (simp_all add: to_ulong_zeros min_def)
  have up: "[0..<24] = 0 # map Suc [0..<23]" by (simp add: upt_conv_Cons map_Suc_upt del: upt_Suc)
  have "map (\<lambda>i. words ! to_ulong (bits_window 11 ?b (11 * Suc i))) [0..<23] = map (\<lambda>i. words ! 0) [0..<23]"
    using rest by (intro map_cong refl) simp
  then show ?thesis
    unfolding bitsToWords_def up by (simp add: first comp_def map_replicate_const del: mult_Suc_right)
qed

section \<open>Properties\<close>



text \<open>
  The 12-word variant: 128 random bits followed by the first four bits of the digest.
\<close>

lemma generateMnemonic_12_encodes_entropy:
  assumes "rand 128 = (1, r_buf)" and "length r_buf = 128"
  shows "\<exists>idx. length idx = 12 \<and> (\<forall>i \<in> set idx. i < 2048)
    \<and> concat (map (be_bits 11) idx)
        = entropy_bits r_buf @ be_bits 4 (unat (hd (sha256_digest (pack_bits (entropy_bits r_buf)))) div 16)
    \<and> phrase (generateMnemonic_12 rand to_seed pass) = join_words 12 (map ((!) words) idx)"
proof -
  have "length (mnemonic_bits_12 r_buf) = 11 * 12"
    using assms(2) by (simp add: mnemonic_bits_12_eq entropy_bits_def be_bits_def)
  from bitsToWords_indices [OF this] obtain idx where "length idx = 12" "\<forall>i \<in> set idx. i < 2048"
    "bitsToWords 12 (mnemonic_bits_12 r_buf) = map ((!) words) idx" "concat (map (be_bits 11) idx) = mnemonic_bits_12 r_buf"
    by blast
  then show ?thesis
    using assms by (intro exI [of _ idx]) (simp add: generateMnemonic_12_def bitsToWords_12_def bitsToWords_def Let_def mnemonic_bits_12_eq [symmetric])
qed

text \<open>
  The words determine the bits, and so the random bits of a phrase, as long as the word
  \<open>filter\<close> does not occur among them.
\<close>

lemma bitsToWords_injective:
  assumes "length bits = 264" and "length bits' = 264"
    and "bitsToWords 24 bits = bitsToWords 24 bits'" and "''filter'' \<notin> set (bitsToWords 24 bits)"
  shows "bits = bits'"
  using assms by (intro bitsToWords_inj [of bits 24 bits']) simp_all

text \<open>
  The word list repeats the word \<open>filter\<close> at positions 238 and 691 (where BIP-39 has \<open>build\<close> at
  the first), so there are different bit strings with the same words.
\<close>

lemma mnemonic_words_ambiguous:
  "words ! 238 = ''filter'' \<and> words ! 691 = ''filter'' \<and>
   (\<exists>bits bits'. length bits = 264 \<and> length bits' = 264 \<and> bits \<noteq> bits' \<and> bitsToWords 24 bits = bitsToWords 24 bits')"
proof (intro conjI exI)
  show f: "words ! 238 = ''filter''" "words ! 691 = ''filter''" by (rule words_filter_twice)+
  let ?b = "be_bits 11 238 @ replicate 253 False" and ?b' = "be_bits 11 691 @ replicate 253 False"
  have len: "length (be_bits 11 x) = 11" for x by (simp add: be_bits_def)
  have v: "to_ulong (rev (be_bits 11 238)) = 238" "to_ulong (rev (be_bits 11 691)) = 691" by code_simp+
  show "length ?b = 264" "length ?b' = 264" using len by simp_all
  show "?b \<noteq> ?b'" using v len by (metis append_eq_append_conv numeral_eq_iff semiring_norm(85) semiring_norm(88) semiring_norm(90) semiring_norm(89))
  show "bitsToWords 24 ?b = bitsToWords 24 ?b'" by (simp add: first_word len v f)
qed

end
