(* ===== verification/Base58.thy ===== *)
theory Base58
  imports Sha256
begin

text \<open>
  \<open>base58::EncodeBase58\<close> of \<open>bip44/base58.hpp\<close> and \<open>Addresses::pub2addr\<close> of \<open>bip44/addresses.hpp\<close>. The
  encoder works in place on a byte array of fixed size; a write behind its end, or a read behind
  the end of the data, is the value \<open>None\<close>. The reference is the positional value: the digits of
  the result in base 58 are those of the data read as a big-endian number, after one \<open>1\<close> per leading
  zero byte.
\<close>

section \<open>Definitions\<close>

definition base58map :: string where
  "base58map = ''123456789ABCDEFGHJKLMNPQRSTUVWXYZabcdefghijkmnopqrstuvwxyz''"

definition mul_digit :: "bytes \<times> u32 \<Rightarrow> nat \<Rightarrow> bytes \<times> u32" where
  "mul_digit st j =
     (let (digits, carry) = st;
          carry = carry + push_bit 8 (ucast (digits ! j))
      in (digits[j := ucast (carry mod 58)], carry div 58))"

function push_carry :: "bytes \<Rightarrow> nat \<Rightarrow> u32 \<Rightarrow> (bytes \<times> nat) option" where
  "push_carry digits digitslen carry =
     (if carry = 0 then Some (digits, digitslen)
      else if digitslen < length digits
      then push_carry (digits[digitslen := ucast (carry mod 58)]) (digitslen + 1) (carry div 58)
      else None)"
  by pat_completeness auto
termination
proof (relation "measure (\<lambda>(digits, digitslen, carry). unat carry)")
  fix digits :: bytes and digitslen :: nat and carry :: u32
  assume "carry \<noteq> 0"
  then have "0 < unat carry" by (simp add: unat_gt_0)
  then show "((digits[digitslen := ucast (carry mod 58)], digitslen + 1, carry div 58), digits, digitslen, carry)
      \<in> measure (\<lambda>(digits, digitslen, carry). unat carry)"
    by (simp add: unat_div)
qed simp

declare push_carry.simps [simp del]

fun encode_bytes :: "bytes \<Rightarrow> bytes \<Rightarrow> nat \<Rightarrow> (bytes \<times> nat) option" where
  "encode_bytes [] digits digitslen = Some (digits, digitslen)"
| "encode_bytes (b # data) digits digitslen =
     (let (digits, carry) = foldl mul_digit (digits, ucast b) [0..<digitslen]
      in case push_carry digits digitslen carry of
           None \<Rightarrow> None
         | Some (digits, digitslen) \<Rightarrow> encode_bytes data digits digitslen)"

text \<open>
  The loop \<open>for (i = 0; i < data.size() - 1 && !data[i]; i++)\<close>; \<open>bound\<close> is \<open>data.size() - 1\<close> in 64-bit
  arithmetic, and reading \<open>data[i]\<close> outside the vector is \<open>None\<close>.
\<close>

function leading_zeros :: "bytes \<Rightarrow> nat \<Rightarrow> nat \<Rightarrow> nat option" where
  "leading_zeros data bound i =
     (if i < bound
      then if i < length data
           then if data ! i = 0 then leading_zeros data bound (i + 1) else Some i
           else None
      else Some i)"
  by pat_completeness auto
termination
  by (relation "measure (\<lambda>(data, bound, i). bound - i)") auto

declare leading_zeros.simps [simp del]

definition EncodeBase58 :: "bytes \<Rightarrow> string \<Rightarrow> string option" where
  "EncodeBase58 data mapping =
     (case encode_bytes data (replicate (length data * 138 div 100 + 1) 0) 1 of
        None \<Rightarrow> None
      | Some (digits, digitslen) \<Rightarrow>
         (case leading_zeros data (if data = [] then 2 ^ 64 - 1 else length data - 1) 0 of
            None \<Rightarrow> None
          | Some zeros \<Rightarrow>
              Some (replicate zeros (mapping ! 0)
                @ map (\<lambda>i. mapping ! unat (digits ! (digitslen - 1 - i))) [0..<digitslen])))"

section \<open>Reference\<close>

text \<open>Digits of a number, least significant first, at least one.\<close>

function digits58 :: "nat \<Rightarrow> nat list" where
  "digits58 v = (if v < 58 then [v] else v mod 58 # digits58 (v div 58))"
  by pat_completeness auto
termination
  by (relation "measure id") auto

declare digits58.simps [simp del]

definition be_value :: "bytes \<Rightarrow> nat" where
  "be_value data = foldl (\<lambda>v b. v * 256 + unat b) 0 data"

definition base58_reference :: "bytes \<Rightarrow> string" where
  "base58_reference data =
     replicate (length (takeWhile (\<lambda>b. b = 0) (butlast data))) (CHR ''1'')
       @ map ((!) base58map) (rev (digits58 (be_value data)))"

section \<open>Lemmas\<close>

fun mul_add :: "nat list \<Rightarrow> nat \<Rightarrow> nat list \<times> nat" where
  "mul_add [] c = ([], c)"
| "mul_add (d # ds) c =
     (let t = c + d * 256; (ds', c') = mul_add ds (t div 58) in (t mod 58 # ds', c'))"

function carry_digits :: "nat \<Rightarrow> nat list" where
  "carry_digits c = (if c = 0 then [] else c mod 58 # carry_digits (c div 58))"
  by pat_completeness auto
termination
  by (relation "measure id") auto

declare carry_digits.simps [simp del]

definition value58 :: "nat list \<Rightarrow> nat" where
  "value58 ds = foldr (\<lambda>d v. d + 58 * v) ds 0"

definition normal58 :: "nat list \<Rightarrow> bool" where
  "normal58 ds \<longleftrightarrow> ds \<noteq> [] \<and> (\<forall>d \<in> set ds. d < 58) \<and> (1 < length ds \<longrightarrow> last ds \<noteq> 0)"

lemma value58_simps [simp]: "value58 [] = 0" "value58 (d # ds) = d + 58 * value58 ds"
  by (simp_all add: value58_def)

lemma value58_append: "value58 (xs @ ys) = value58 xs + 58 ^ length xs * value58 ys"
  by (induction xs) (simp_all add: algebra_simps)

lemma value58_top: "ds \<noteq> [] \<Longrightarrow> last ds \<noteq> 0 \<Longrightarrow> 58 ^ (length ds - 1) \<le> value58 ds"
proof (induction ds rule: rev_induct)
  case (snoc d ds)
  then have "58 ^ length ds \<le> 58 ^ length ds * d" by simp
  moreover have "value58 (ds @ [d]) = value58 ds + 58 ^ length ds * d" by (simp add: value58_append)
  ultimately have "58 ^ length ds \<le> value58 (ds @ [d])" by linarith
  then show ?case by simp
qed simp

lemma digits58_unique: "normal58 ds \<Longrightarrow> ds = digits58 (value58 ds)"
proof (induction ds)
  case (Cons d ds)
  then have d: "d < 58" by (simp add: normal58_def)
  show ?case
  proof (cases "ds = []")
    case True
    with d show ?thesis by (simp add: digits58.simps)
  next
    case False
    with Cons.prems have n: "normal58 ds" by (auto simp: normal58_def split: if_splits)
    have "58 ^ (length ds - 1) \<le> value58 ds" using value58_top [of ds] Cons.prems False by (auto simp: normal58_def)
    moreover have "(0 :: nat) < 58 ^ (length ds - 1)" by simp
    ultimately have "value58 ds \<noteq> 0" by linarith
    with d Cons.IH [OF n] show ?thesis by (subst digits58.simps) simp
  qed
qed (simp add: normal58_def)

lemma normal58_digits58: "normal58 (digits58 v)" and value58_digits58: "value58 (digits58 v) = v"
proof -
  have "normal58 (digits58 v) \<and> value58 (digits58 v) = v"
  proof (induction v rule: digits58.induct)
    case (1 v)
    show ?case
    proof (cases "v < 58")
      case True
      then show ?thesis by (simp add: digits58.simps normal58_def)
    next
      case False
      with 1 have IH: "normal58 (digits58 (v div 58))" "value58 (digits58 (v div 58)) = v div 58" by simp_all
      have "last (digits58 (v div 58)) \<noteq> 0"
      proof (cases "1 < length (digits58 (v div 58))")
        case False
        then obtain x where "digits58 (v div 58) = [x]"
          using IH(1) by (cases "digits58 (v div 58)") (auto simp: normal58_def)
        then show ?thesis using IH(2) \<open>\<not> v < 58\<close> by auto
      qed (use IH(1) in \<open>simp add: normal58_def\<close>)
      then show ?thesis using False IH by (subst (1 2) digits58.simps) (auto simp: normal58_def)
    qed
  qed
  then show "normal58 (digits58 v)" "value58 (digits58 v) = v" by simp_all
qed

lemma mul_add_value:
  "mul_add ds c = (ds', c') \<Longrightarrow> length ds' = length ds \<and> (\<forall>d \<in> set ds'. d < 58)
     \<and> value58 ds' + 58 ^ length ds * c' = 256 * value58 ds + c"
proof (induction ds c arbitrary: ds' c' rule: mul_add.induct)
  case (2 d ds c)
  obtain es c2 where m: "mul_add ds ((c + d * 256) div 58) = (es, c2)" by fastforce
  define t where "t = c + d * 256"
  have IH: "length es = length ds" "\<forall>d \<in> set es. d < 58" "value58 es + 58 ^ length ds * c2 = 256 * value58 ds + t div 58"
    using "2.IH" [OF refl m] by (simp_all add: t_def)
  have ds': "ds' = t mod 58 # es" "c' = c2" using "2.prems" m by (simp_all add: t_def Let_def)
  have "58 * (value58 es + 58 ^ length ds * c2) + t mod 58 = 58 * (256 * value58 ds) + t"
    unfolding IH(3) by (simp add: distrib_left)
  then show ?case using IH(1,2) by (simp add: ds' t_def algebra_simps)
qed simp

lemma carry_digits_value:
  "value58 (carry_digits c) = c" "\<forall>d \<in> set (carry_digits c). d < 58" "c \<noteq> 0 \<Longrightarrow> carry_digits c \<noteq> [] \<and> last (carry_digits c) \<noteq> 0"
proof -
  have "value58 (carry_digits c) = c \<and> (\<forall>d \<in> set (carry_digits c). d < 58)
      \<and> (c \<noteq> 0 \<longrightarrow> carry_digits c \<noteq> [] \<and> last (carry_digits c) \<noteq> 0)"
  proof (induction c rule: carry_digits.induct)
    case (1 c)
    show ?case
    proof (cases "c = 0")
      case False
      with 1 show ?thesis
        by (subst (1 2 3 4) carry_digits.simps) (auto simp: carry_digits.simps [of 0] div_eq_0_iff)
    qed (simp add: carry_digits.simps)
  qed
  then show "value58 (carry_digits c) = c" "\<forall>d \<in> set (carry_digits c). d < 58"
    "c \<noteq> 0 \<Longrightarrow> carry_digits c \<noteq> [] \<and> last (carry_digits c) \<noteq> 0" by simp_all
qed

lemma value58_less: "\<forall>d \<in> set ds. d < 58 \<Longrightarrow> value58 ds < 58 ^ length ds"
proof (induction ds)
  case (Cons d ds)
  then have "value58 ds + 1 \<le> 58 ^ length ds" "d < 58" by auto
  then have "d + 58 * value58 ds < 58 * 58 ^ length ds" by linarith
  then show ?case by simp
qed simp

definition enc_step :: "nat list \<Rightarrow> nat \<Rightarrow> nat list" where
  "enc_step ds b = (case mul_add ds b of (ds', c) \<Rightarrow> ds' @ carry_digits c)"

lemma enc_step_normal:
  assumes "normal58 ds"
  shows "normal58 (enc_step ds b)" and "value58 (enc_step ds b) = 256 * value58 ds + b"
proof -
  obtain es c where m: "mul_add ds b = (es, c)" by fastforce
  note v = mul_add_value [OF m]
  have e: "enc_step ds b = es @ carry_digits c" by (simp add: enc_step_def m)
  show "value58 (enc_step ds b) = 256 * value58 ds + b"
    using v by (simp add: e value58_append carry_digits_value)
  have ne: "es \<noteq> []" using v assms by (auto simp: normal58_def)
  have "last (es @ carry_digits c) \<noteq> 0" if "1 < length (es @ carry_digits c)"
  proof (cases "c = 0")
    case False
    then show ?thesis using carry_digits_value(3) by auto
  next
    case True
    then have cd: "carry_digits c = []" by (simp add: carry_digits.simps)
    have len: "1 < length ds" using that cd v by simp
    have "58 ^ length (butlast ds) \<le> value58 ds"
      using value58_top [of ds] assms len by (simp add: normal58_def)
    then have ge: "58 ^ length (butlast es) \<le> value58 es" using v True by simp
    show ?thesis
    proof
      assume z: "last (es @ carry_digits c) = 0"
      have "es = butlast es @ [0]" using ne z cd by (metis append.right_neutral append_butlast_last_id)
      then have "value58 es = value58 (butlast es)" by (metis add.right_neutral mult_0_right value58_append value58_simps)
      also have "\<dots> < 58 ^ length (butlast es)" using v by (intro value58_less) (auto dest: in_set_butlastD)
      finally show False using ge by simp
    qed
  qed
  then show "normal58 (enc_step ds b)" using v ne carry_digits_value(2) by (auto simp: e normal58_def)
qed

lemma mul_add_snoc:
  "mul_add (xs @ [d]) c =
     (case mul_add xs c of (ys, c') \<Rightarrow> (ys @ [(c' + d * 256) mod 58], (c' + d * 256) div 58))"
  by (induction xs c rule: mul_add.induct) (auto simp: Let_def split: prod.splits)

lemma mul_add_carry: "mul_add ds c = (es, c') \<Longrightarrow> \<forall>d \<in> set ds. d < 58 \<Longrightarrow> c \<le> 256 \<Longrightarrow> c' \<le> 256"
proof (induction ds c arbitrary: es c' rule: mul_add.induct)
  case (2 d ds c)
  obtain fs c2 where m: "mul_add ds ((c + d * 256) div 58) = (fs, c2)" by fastforce
  have "d \<le> 57" "c \<le> 256" using "2.prems" by auto
  then have "c + d * 256 \<le> 14848" by linarith
  then have "(c + d * 256) div 58 \<le> 256" by linarith
  with "2.IH" [OF refl m] "2.prems" m show ?case by (simp add: Let_def)
qed simp

lemma unat_numeral_58: "unat (58 :: u32) = 58"
  by simp

lemma mul_digits_sim:
  fixes b :: u8
  assumes "n \<le> length digits" and "\<forall>d \<in> set (take n digits). unat d < 58"
  shows "foldl mul_digit (digits, ucast b) [0..<n]
      = (map of_nat (fst (mul_add (map unat (take n digits)) (unat b))) @ drop n digits,
         of_nat (snd (mul_add (map unat (take n digits)) (unat b))))"
  using assms
proof (induction n)
  case 0
  then show ?case by simp
next
  case (Suc n)
  let ?ds = "map unat (take n digits)"
  obtain es c where m: "mul_add ?ds (unat b) = (es, c)" by fastforce
  have small: "\<forall>d \<in> set ?ds. d < 58" and last: "unat (digits ! n) < 58"
    using Suc.prems by (auto simp: take_Suc_conv_app_nth)
  have c: "c \<le> 256" using mul_add_carry [OF m small] unat_less_256 [of b] by simp
  have lenes: "length es = n" using mul_add_value [OF m] Suc.prems by simp
  define k where "k = unat (digits ! n)"
  let ?t = "c + k * 256"
  have t: "?t < 2 ^ 32" using c last by (simp add: k_def)
  have IH: "foldl mul_digit (digits, ucast b) [0..<n] = (map of_nat es @ drop n digits, of_nat c)"
    using Suc m by (simp add: take_Suc_conv_app_nth)
  have nth: "(map of_nat es @ drop n digits) ! n = digits ! n" using lenes Suc.prems by (simp add: nth_append)
  have carry: "of_nat c + push_bit 8 (ucast (digits ! n)) = (of_nat ?t :: u32)"
  proof -
    have "(ucast (digits ! n) :: u32) = of_nat k" by (simp add: k_def)
    then show ?thesis by (simp add: push_bit_eq_mult)
  qed
  have ut: "unat (of_nat ?t :: u32) = ?t" using t by (rule unat_of_nat_small)
  have "?t div 58 < 2 ^ 32" using t by (meson div_le_dividend le_less_trans)
  then have dv: "(of_nat ?t :: u32) div 58 = of_nat (?t div 58)"
    by (simp only: word_unat_eq_iff unat_div ut unat_of_nat_small unat_numeral_58)
  have md: "(ucast ((of_nat ?t :: u32) mod 58) :: u8) = of_nat (?t mod 58)"
    using unat_mod [of "of_nat ?t :: u32" 58] unfolding ut unat_numeral_58 by (metis of_nat_unat)
  have upd: "(map of_nat es @ drop n digits)[n := x] = map of_nat es @ x # drop (Suc n) digits" for x
    using lenes Suc.prems by (simp add: list_update_append Cons_nth_drop_Suc [symmetric])
  have "foldl mul_digit (digits, ucast b) [0..<Suc n]
      = (map of_nat es @ of_nat (?t mod 58) # drop (Suc n) digits, of_nat (?t div 58))"
    unfolding upt_Suc_append [OF le0] foldl_append IH
    by (simp only: foldl.simps mul_digit_def Let_def prod.case nth carry dv md upd)
  moreover have "mul_add (map unat (take (Suc n) digits)) (unat b) = (es @ [?t mod 58], ?t div 58)"
    using Suc.prems m by (simp add: take_Suc_conv_app_nth mul_add_snoc k_def)
  ultimately show ?case by simp
qed

lemma unat_0_u32: "unat (x :: u32) = 0 \<longleftrightarrow> x = 0"
  by (simp add: word_unat_eq_iff)

lemma push_carry_sim:
  "digitslen + length (carry_digits (unat carry)) \<le> length digits \<Longrightarrow>
     push_carry digits digitslen carry =
       Some (take digitslen digits @ map of_nat (carry_digits (unat carry))
               @ drop (digitslen + length (carry_digits (unat carry))) digits,
             digitslen + length (carry_digits (unat carry)))"
proof (induction digits digitslen carry rule: push_carry.induct)
  case (1 digits n carry)
  show ?case
  proof (cases "carry = 0")
    case True
    then show ?thesis by (simp add: push_carry.simps [of _ _ 0] carry_digits.simps [of 0])
  next
    case False
    then have "unat carry \<noteq> 0" by (metis unat_0_u32)
    then have cd: "carry_digits (unat carry) = unat carry mod 58 # carry_digits (unat (carry div 58))"
      by (subst carry_digits.simps) (simp add: unat_div)
    with "1.prems" have lt: "n < length digits" by simp
    let ?d = "digits[n := ucast (carry mod 58)]"
    have x: "(ucast (carry mod 58) :: u8) = of_nat (unat carry mod 58)"
      using unat_mod [of carry 58] by (metis of_nat_unat unat_numeral_58)
    have "push_carry digits n carry = push_carry ?d (n + 1) (carry div 58)"
      using False lt by (simp add: push_carry.simps [of digits n carry])
    also have "\<dots> = Some (take (n + 1) ?d @ map of_nat (carry_digits (unat (carry div 58)))
        @ drop (n + 1 + length (carry_digits (unat (carry div 58)))) ?d,
        n + 1 + length (carry_digits (unat (carry div 58))))"
      using "1.prems" False lt cd by (intro "1.IH") simp_all
    finally show ?thesis using lt by (simp add: cd x take_Suc_conv_app_nth)
  qed
qed

lemma power_bound: "(256 :: nat) ^ 100 < 58 ^ 138"
  by simp

lemma digits58_length:
  assumes "v < 256 ^ n"
  shows "length (digits58 v) \<le> n * 138 div 100 + 1"
proof (rule ccontr)
  let ?ds = "digits58 v"
  define k where "k = length ?ds - 1"
  assume "\<not> length ?ds \<le> n * 138 div 100 + 1"
  then have k: "n * 138 div 100 < k" and len: "1 < length ?ds" by (simp_all add: k_def)
  have "58 ^ k \<le> v"
    using value58_top [of ?ds] normal58_digits58 [of v] value58_digits58 [of v] len by (simp add: k_def normal58_def)
  then have "(58 :: nat) ^ k < 256 ^ n" using assms by simp
  then have "((58 :: nat) ^ k) ^ 100 < (256 ^ n) ^ 100" by (rule power_strict_mono) simp_all
  then have "(58 :: nat) ^ (k * 100) < 256 ^ (100 * n)" by (simp only: power_mult [symmetric] mult.commute [of n 100])
  also have "\<dots> = (256 ^ 100) ^ n" by (rule power_mult)
  also have "\<dots> \<le> (58 ^ 138) ^ n" by (rule power_mono [OF less_imp_le [OF power_bound]]) (rule zero_le)
  also have "\<dots> = 58 ^ (138 * n)" by (simp only: power_mult)
  finally have "k * 100 < 138 * n" by (rule power_less_imp_less_exp [rotated]) simp
  with k show False by linarith
qed

definition represents :: "bytes \<Rightarrow> nat \<Rightarrow> nat \<Rightarrow> bool" where
  "represents digits digitslen v \<longleftrightarrow> map unat (take digitslen digits) = digits58 v \<and> digitslen \<le> length digits"

lemma map_unat_of_nat_digits: "\<forall>d \<in> set ds. d < 58 \<Longrightarrow> map unat (map of_nat ds :: bytes) = ds"
  by (induction ds) (auto simp: unat_of_nat)

lemma enc_step_digits58: "enc_step (digits58 v) b = digits58 (v * 256 + b)"
  using digits58_unique [OF enc_step_normal(1) [OF normal58_digits58]] enc_step_normal(2) [OF normal58_digits58]
  by (simp add: value58_digits58 mult.commute)

lemma encode_step:
  fixes b :: u8
  assumes rep: "represents digits digitslen v" and room: "length (digits58 (v * 256 + unat b)) \<le> length digits"
  shows "\<exists>digits' digitslen'. (let (digits, carry) = foldl mul_digit (digits, ucast b) [0..<digitslen] in push_carry digits digitslen carry)
      = Some (digits', digitslen') \<and> represents digits' digitslen' (v * 256 + unat b) \<and> length digits' = length digits"
proof -
  have ds: "map unat (take digitslen digits) = digits58 v" "digitslen \<le> length digits" using rep by (simp_all add: represents_def)
  have len: "length (digits58 v) = digitslen" using ds by (metis length_map length_take min.absorb2)
  obtain es c where m: "mul_add (digits58 v) (unat b) = (es, c)" by fastforce
  have small: "\<forall>d \<in> set (digits58 v). d < 58" using normal58_digits58 [of v] by (simp add: normal58_def)
  have "\<forall>d \<in> set (take digitslen digits). unat d < 58" using small ds(1) by (metis image_eqI list.set_map)
  note sim = mul_digits_sim [OF ds(2) this, of b, unfolded ds(1) m fst_conv snd_conv]
  have c: "c \<le> 256" using mul_add_carry [OF m small] unat_less_256 [of b] by simp
  then have uc: "unat (of_nat c :: u32) = c" by (simp add: unat_of_nat)
  have lenes: "length es = digitslen" using mul_add_value [OF m] len by simp
  have new: "digits58 (v * 256 + unat b) = es @ carry_digits c"
    using enc_step_digits58 [of v "unat b"] by (simp add: enc_step_def m)
  let ?d = "map of_nat es @ drop digitslen digits :: bytes"
  have "digitslen + length (carry_digits (unat (of_nat c :: u32))) \<le> length ?d"
    using room new lenes ds(2) by (simp add: uc)
  note push = push_carry_sim [OF this, unfolded uc]
  have "\<forall>d \<in> set (es @ carry_digits c). d < 58" using normal58_digits58 [of "v * 256 + unat b"] new by (simp add: normal58_def)
  then have decoded: "map unat (map of_nat (es @ carry_digits c) :: bytes) = es @ carry_digits c"
    by (rule map_unat_of_nat_digits)
  show ?thesis
    unfolding sim Let_def prod.case push
    using room new lenes ds(2) decoded by (auto simp: represents_def)
qed

lemma next_value_less: "v < q \<Longrightarrow> x < 256 \<Longrightarrow> v * 256 + x < 256 * (q :: nat)"
  by linarith

lemma encode_bytes_correct:
  assumes "represents digits digitslen v" and "v < 256 ^ i" and "i + length data \<le> n" and "length digits = n * 138 div 100 + 1"
  shows "\<exists>digits' digitslen'. encode_bytes data digits digitslen = Some (digits', digitslen')
    \<and> represents digits' digitslen' (foldl (\<lambda>v b. v * 256 + unat b) v data)"
  using assms
proof (induction data arbitrary: digits digitslen v i)
  case (Cons b data)
  have lt: "v * 256 + unat b < 256 ^ Suc i"
    using next_value_less [OF Cons.prems(2) unat_less_256 [of b]] by simp
  have "length (digits58 (v * 256 + unat b)) \<le> length digits"
  proof -
    have "(256 :: nat) ^ Suc i \<le> 256 ^ n" using Cons.prems(3) by (intro power_increasing) simp_all
    with lt have "v * 256 + unat b < 256 ^ n" by linarith
    then show ?thesis using digits58_length Cons.prems(4) by simp
  qed
  from encode_step [OF Cons.prems(1) this] obtain d l where
    st: "(let (digits, carry) = foldl mul_digit (digits, ucast b) [0..<digitslen] in push_carry digits digitslen carry) = Some (d, l)"
    "represents d l (v * 256 + unat b)" "length d = length digits" by blast
  then have "encode_bytes (b # data) digits digitslen = encode_bytes data d l" by (auto simp: Let_def split: prod.splits)
  with Cons.IH [OF st(2) lt] st(3) Cons.prems(3,4) show ?case by simp
qed auto

lemma leading_zeros_takeWhile:
  "bound < length data \<Longrightarrow> i \<le> bound \<Longrightarrow> (\<forall>j < i. data ! j = 0) \<Longrightarrow>
    leading_zeros data bound i = Some (length (takeWhile (\<lambda>b. b = 0) (take bound data)))"
proof (induction data bound i rule: leading_zeros.induct)
  case (1 data bound i)
  show ?case
  proof (cases "i < bound \<and> data ! i = 0")
    case True
    then have "\<forall>j < i + 1. data ! j = 0" using "1.prems" by (auto simp: less_Suc_eq)
    moreover have "i < length data" using True "1.prems" by simp
    ultimately show ?thesis using 1 True by (subst leading_zeros.simps) auto
  next
    case False
    have "takeWhile (\<lambda>b. b = 0) (take bound data) = take i (take bound data)"
      using False "1.prems" by (intro takeWhile_eq_take_P_nth) auto
    then show ?thesis
      using False "1.prems" by (subst leading_zeros.simps) (auto simp: min_def)
  qed
qed

lemma EncodeBase58_reference:
  assumes "data \<noteq> []"
  shows "EncodeBase58 data base58map = Some (base58_reference data)"
proof -
  let ?n = "length data"
  have "represents (replicate (?n * 138 div 100 + 1) 0) 1 0"
    by (simp add: represents_def digits58.simps)
  from encode_bytes_correct [OF this, of 0 data ?n] obtain d l where
    d: "encode_bytes data (replicate (?n * 138 div 100 + 1) 0) 1 = Some (d, l)" "represents d l (be_value data)"
    by (auto simp: be_value_def)
  have z: "leading_zeros data (?n - 1) 0 = Some (length (takeWhile (\<lambda>b. b = 0) (butlast data)))"
    using assms leading_zeros_takeWhile [of "?n - 1" data 0] by (simp add: butlast_conv_take)
  have ds: "map unat (take l d) = digits58 (be_value data)" "l \<le> length d" using d(2) by (simp_all add: represents_def)
  have "map (\<lambda>i. base58map ! unat (d ! (l - 1 - i))) [0..<l] = map ((!) base58map) (rev (map unat (take l d)))"
    using ds(2) by (intro nth_equalityI) (simp_all add: rev_nth)
  moreover have "base58map ! 0 = CHR ''1''" by (simp add: base58map_def)
  ultimately show ?thesis
    using assms by (simp only: EncodeBase58_def d(1) z base58_reference_def ds(1) option.case prod.case if_False)
qed

section \<open>Addresses\<close>

text \<open>
  \<open>pub2addr\<close> converts hexadecimal text to bytes through OpenSSL: \<open>bn s\<close> stands for \<open>BN_hex2bn\<close>
  followed by \<open>BN_bn2bin\<close>, which writes the bytes of the number \<open>s\<close>, most significant first and
  without leading zero bytes, to the front of an array whose other bytes stay as they were
  (\<open>stack\<close>). More bytes than the array has room for are \<open>None\<close>.
\<close>

definition bn_array :: "(string \<Rightarrow> bytes) \<Rightarrow> bytes \<Rightarrow> string \<Rightarrow> bytes option" where
  "bn_array bn stack hex =
     (let n = length hex div 2 in
      if length (bn hex) \<le> n then Some (take n (bn hex @ drop (length (bn hex)) (take n (stack @ replicate n 0)))) else None)"

definition pub2addr :: "(string \<Rightarrow> bytes) \<Rightarrow> bytes \<Rightarrow> string \<Rightarrow> string option" where
  "pub2addr bn stack pub_key =
     (case bn_array bn stack pub_key of None \<Rightarrow> None | Some r1_bytes \<Rightarrow>
      (let (sha256_pub_key, sha) = sha256_call stack (SHA256_Legacy stack) r1_bytes in
       case bn_array bn stack sha256_pub_key of None \<Rightarrow> None | Some r2_bytes \<Rightarrow>
       (let (sha256_pub_key_round_one, sha) = sha256_call stack sha r2_bytes in
        case bn_array bn stack sha256_pub_key_round_one of None \<Rightarrow> None | Some r3_bytes \<Rightarrow>
        (let (sha256_pub_key_round_two, sha) = sha256_call stack sha r3_bytes;
             address_hex = ''16D8EE'' @ take 32 sha256_pub_key @ take 8 sha256_pub_key_round_two
         in case hex_to_bytes address_hex of
              None \<Rightarrow> None
            | Some address_bytes \<Rightarrow> EncodeBase58 address_bytes base58map))))"

text \<open>The array that \<open>BN_bn2bin\<close> leaves for the hexadecimal text of \<open>bs\<close>.\<close>

definition left_aligned :: "bytes \<Rightarrow> bytes \<Rightarrow> bytes" where
  "left_aligned stack bs =
     (let sig = dropWhile (\<lambda>b. b = 0) bs
      in sig @ drop (length sig) (take (length bs) (stack @ replicate (length bs) 0)))"

lemma left_aligned_id: "bs \<noteq> [] \<Longrightarrow> hd bs \<noteq> 0 \<Longrightarrow> left_aligned stack bs = bs"
  by (cases bs) (simp_all add: left_aligned_def Let_def)

lemma length_left_aligned: "length (left_aligned stack bs) = length bs"
  using length_dropWhile_le [of "\<lambda>b. b = 0" bs] by (simp add: left_aligned_def Let_def)

lemma bn_array_to_hex:
  assumes "\<And>bs. bn (to_hex bs) = dropWhile (\<lambda>b. b = 0) bs"
  shows "bn_array bn stack (to_hex bs) = Some (left_aligned stack bs)"
proof -
  have "length (dropWhile (\<lambda>b. b = 0) bs) \<le> length bs" by (rule length_dropWhile_le)
  then show ?thesis by (simp add: bn_array_def left_aligned_def assms Let_def)
qed

definition address_payload :: "bytes \<Rightarrow> bytes \<Rightarrow> bytes" where
  "address_payload stack pk =
     (let d1 = sha256_digest (left_aligned stack pk);
          d2 = sha256_digest (left_aligned stack d1);
          d3 = sha256_digest (left_aligned stack d2)
      in [0x16, 0xD8, 0xEE] @ take 16 d1 @ take 4 d3)"

lemma take_to_hex: "take (2 * n) (to_hex bs) = to_hex (take n bs)"
proof (induction bs arbitrary: n)
  case (Cons b bs)
  then show ?case by (cases n) (simp_all add: to_hex_Cons)
qed simp

lemma address_hex_bytes:
  "hex_to_bytes (''16D8EE'' @ to_hex xs) = Some ([0x16, 0xD8, 0xEE] @ xs)"
proof -
  have "pairs_of (''16D8EE'' @ to_hex xs) = [''16'', ''D8'', ''EE''] @ pairs_of (to_hex xs)" by simp
  moreover have "hex2dec ''16'' = Some 0x16" "hex2dec ''D8'' = Some 0xD8" "hex2dec ''EE'' = Some 0xEE" by code_simp+
  ultimately show ?thesis using hex_to_bytes_to_hex [of xs] by (simp add: hex_to_bytes_def)
qed

lemma pub2addr_payload:
  assumes "\<And>bs. bn (to_hex bs) = dropWhile (\<lambda>b. b = 0) bs"
  shows "pub2addr bn stack (to_hex pk) = Some (base58_reference (address_payload stack pk))"
proof -
  note arr = bn_array_to_hex [OF assms]
  define s1 where "s1 = snd (sha256_call stack (SHA256_Legacy stack) (left_aligned stack pk))"
  let ?d1 = "sha256_digest (left_aligned stack pk)"
  define s2 where "s2 = snd (sha256_call stack s1 (left_aligned stack ?d1))"
  let ?d2 = "sha256_digest (left_aligned stack ?d1)"
  have c1: "sha256_call stack (SHA256_Legacy stack) (left_aligned stack pk) = (to_hex ?d1, s1)"
    by (rule prod_eqI) (simp_all add: s1_def sha256_call_reference [OF sha256_new(1)] sha256_reference_digest)
  have i1: "sha256_invar s1" by (simp add: s1_def sha256_call_keeps sha256_new)
  have c2: "sha256_call stack s1 (left_aligned stack ?d1) = (to_hex ?d2, s2)"
    by (rule prod_eqI) (simp_all add: s2_def sha256_call_reference [OF i1] sha256_reference_digest)
  have i2: "sha256_invar s2" by (simp add: s2_def sha256_call_keeps i1)
  have c3: "fst (sha256_call stack s2 x) = to_hex (sha256_digest x)" for x
    by (simp add: sha256_call_reference [OF i2] sha256_reference_digest)
  let ?d3 = "sha256_digest (left_aligned stack ?d2)"
  have tk: "take 32 (to_hex ?d1) = to_hex (take 16 ?d1)" "take 8 (to_hex ?d3) = to_hex (take 4 ?d3)"
    using take_to_hex [of 16 ?d1] take_to_hex [of 4 ?d3] by simp_all
  have "pub2addr bn stack (to_hex pk) = (case hex_to_bytes (''16D8EE'' @ to_hex (take 16 ?d1 @ take 4 ?d3)) of
      None \<Rightarrow> None | Some address_bytes \<Rightarrow> EncodeBase58 address_bytes base58map)"
    by (simp only: pub2addr_def arr option.case c1 Let_def prod.case c2 split_beta c3 fst_conv snd_conv tk to_hex_append)
  also have "\<dots> = Some (base58_reference (address_payload stack pk))"
    unfolding address_hex_bytes by (simp add: EncodeBase58_reference address_payload_def Let_def)
  finally show ?thesis .
qed

section \<open>Properties\<close>

text \<open>
  C26. \<open>EncodeBase58\<close> is correct and memory safe for every nonempty input: the digit array of
  \<open>n * 138 / 100 + 1\<close> bytes is never overrun, and the result is one \<open>1\<close> per leading zero byte
  (the last byte excepted) followed by the base-58 digits of the big-endian value of the data.
\<close>

theorem EncodeBase58_correct:
  assumes "data \<noteq> []"
  shows "EncodeBase58 data base58map = Some (base58_reference data)"
  using assms by (rule EncodeBase58_reference)

theorem EncodeBase58_correct_witness:
  "[0, 0, 97, 98 :: u8] \<noteq> [] \<and> EncodeBase58 [0, 0, 97, 98] base58map = Some ''118Qq''"
  using EncodeBase58_correct [of "[0, 0, 97, 98]"]
  by (simp add: base58_reference_def be_value_def digits58.simps base58map_def)

text \<open>
  On empty data the loop over the leading zeros compares with \<open>size() - 1\<close>, which wraps
  around, and reads outside the vector.
\<close>

lemma EncodeBase58_empty_unsafe: "EncodeBase58 [] mapping = None"
  by (simp add: EncodeBase58_def leading_zeros.simps)


definition bn_example :: "string \<Rightarrow> bytes" where
  "bn_example s = (case hex_to_bytes s of None \<Rightarrow> [] | Some bs \<Rightarrow> dropWhile (\<lambda>b. b = 0) bs)"

lemma bn_example_to_hex: "bn_example (to_hex bs) = dropWhile (\<lambda>b. b = 0) bs"
  by (simp add: bn_example_def hex_to_bytes_to_hex)


end
