(* ===== verification/Bip32.thy ===== *)
theory Bip32
  imports Base58
begin

text \<open>
  The class \<open>BIP32\<close> of \<open>bip44/BIP32.hpp\<close>: the master node of a seed and the derivation of a child
  from a node's private key. Keys and chain codes are hexadecimal strings, decoded into arrays
  before hashing; an array access out of range, a loop whose counter wraps around and an
  exception of \<open>substr\<close> are the value \<open>None\<close>. OpenSSL's HMAC, RIPEMD-160 and secp256k1 arithmetic and
  the parser of boost's \<open>uint512_t\<close> are the parameters collected in \<open>ossl\<close>. The hash objects are
  called on a fresh object each: their results do not depend on what they hashed before.
\<close>

section \<open>Definitions\<close>

record ossl =
  hmac_digest :: "bytes \<Rightarrow> bytes \<Rightarrow> bytes"
  ripemd160 :: "bytes \<Rightarrow> bytes"
  secp_point :: "string \<Rightarrow> (string \<times> string \<times> string) option"
  u512_of :: "string \<Rightarrow> 512 word"

definition HARDENED_VALUE :: nat where "HARDENED_VALUE = 2147483648"

definition NMODULO :: "512 word" where
  "NMODULO = 0xFFFFFFFFFFFFFFFFFFFFFFFFFFFFFFFEBAAEDCE6AF48A03BBFD25E8CD0364141"

record secp256k1_result =
  private_key :: string
  point_x :: string
  point_y :: string
  public_key :: string

record BIP32NodeResult =
  depth :: string
  keypair_index :: string
  ecdsa_pub :: string
  ecdsa_prv :: string
  hex_prv_key :: string
  hex_pub_key :: string
  xprv_base58 :: string
  xpub_base58 :: string

definition empty_node :: BIP32NodeResult where
  "empty_node = \<lparr>depth = '''', keypair_index = '''', ecdsa_pub = '''', ecdsa_prv = '''',
     hex_prv_key = '''', hex_pub_key = '''', xprv_base58 = '''', xpub_base58 = ''''\<rparr>"

text \<open>
  The loops \<open>for (i = 0; i < s.length(); i += 2) a[i / 2] = hex2dec(s.substr(i, 2))\<close>. The array has
  \<open>s.length() / 2\<close> bytes, so an odd length writes behind its end; a counter of 8 (16) bits wraps
  around and never reaches a length above 254 (65534).
\<close>

definition decode_hex :: "nat \<Rightarrow> string \<Rightarrow> bytes option" where
  "decode_hex limit s = (if odd (length s) \<or> limit < length s then None else hex_to_bytes s)"

definition size_max :: nat where "size_max = 2 ^ 64 - 2"

definition substr :: "string \<Rightarrow> nat \<Rightarrow> nat \<Rightarrow> string option" where
  "substr s pos n = (if pos \<le> length s then Some (take n (drop pos s)) else None)"

definition hmac_512 :: "ossl \<Rightarrow> bytes \<Rightarrow> bytes \<Rightarrow> string" where
  "hmac_512 ssl key message = to_hex (hmac_digest ssl key message)"

definition sha_hex :: "bytes \<Rightarrow> string" where
  "sha_hex data = fst (sha256_call [] (SHA256_Legacy []) data)"

definition get_pub_from_seed_secp256k1 :: "ossl \<Rightarrow> string \<Rightarrow> secp256k1_result" where
  "get_pub_from_seed_secp256k1 ssl seed =
     (case secp_point ssl seed of
        None \<Rightarrow> \<lparr>private_key = '''', point_x = '''', point_y = '''', public_key = ''''\<rparr>
      | Some (x, y, pub) \<Rightarrow> \<lparr>private_key = seed, point_x = x, point_y = y, public_key = pub\<rparr>)"

text \<open>Double SHA-256 checksum and base 58 of an extended key: its full hexadecimal text and its encoding.\<close>

definition checked_key :: "string \<Rightarrow> (string \<times> string) option" where
  "checked_key raw =
     (case decode_hex size_max raw of None \<Rightarrow> None | Some fro_sha \<Rightarrow>
      (let round_one = sha_hex fro_sha in
       case decode_hex size_max round_one of None \<Rightarrow> None | Some round_one_next_sha \<Rightarrow>
       (let round_two = sha_hex round_one_next_sha;
            ext = raw @ take 8 round_two
        in case decode_hex 65534 ext of None \<Rightarrow> None | Some ext_bytes \<Rightarrow>
           (case EncodeBase58 ext_bytes base58map of None \<Rightarrow> None | Some b58 \<Rightarrow> Some (ext, b58)))))"

text \<open>\<open>point_y.substr(length - 1, 1)\<close> throws on the empty string.\<close>

definition parity_byte :: "string \<Rightarrow> string option" where
  "parity_byte y =
     (if y = [] then None
      else case hex2dec [last y] of None \<Rightarrow> None
        | Some d \<Rightarrow> Some (if unat d mod 2 = 1 then ''03'' else ''02''))"

definition bitcoin_seed :: bytes where "bitcoin_seed = bytes_of_string ''Bitcoin seed''"

definition gen_master :: "ossl \<Rightarrow> string \<Rightarrow> BIP32NodeResult option" where
  "gen_master ssl seed =
     (case decode_hex 65534 seed of None \<Rightarrow> None | Some seed_to_chr \<Rightarrow>
      (let hmac_result_hex = hmac_512 ssl bitcoin_seed seed_to_chr in
       case (substr hmac_result_hex 0 64, substr hmac_result_hex 64 64) of
         (Some I_left, Some I_right) \<Rightarrow>
          (let xpriv = ''0488ade4''; xpub = ''0488b21e''; dep = ''00''; fingerprint = ''00000000'';
               childnumber = ''00000000''; chaincode = I_right;
               sign = get_pub_from_seed_secp256k1 ssl I_left
           in if point_x sign = '''' then Some empty_node
              else (let data_prv = ''00'' @ I_left;
                        ext_xprv_raw = xpriv @ dep @ fingerprint @ childnumber @ chaincode @ data_prv
                    in case checked_key ext_xprv_raw of None \<Rightarrow> None | Some (ext_priv, xprv) \<Rightarrow>
                       (case parity_byte (point_y sign) of None \<Rightarrow> None | Some first_byte \<Rightarrow>
                        (let ext_pub_raw = xpub @ dep @ fingerprint @ childnumber @ chaincode @ first_byte @ point_x sign
                         in case checked_key ext_pub_raw of None \<Rightarrow> None | Some (ext_pub, xpb) \<Rightarrow>
                            Some \<lparr>depth = dep, keypair_index = ''00000000'', ecdsa_pub = public_key sign,
                              ecdsa_prv = I_left, hex_prv_key = ext_priv, hex_pub_key = ext_pub,
                              xprv_base58 = xprv, xpub_base58 = xpb\<rparr>))))
       | _ \<Rightarrow> None))"

text \<open>The HMAC over the parent's chain code, hardened and not; \<open>Some None\<close> is the empty node of a failed point.\<close>

definition child_hmac :: "ossl \<Rightarrow> string \<Rightarrow> string \<Rightarrow> nat \<Rightarrow> string \<Rightarrow> string option option" where
  "child_hmac ssl parent_chaincode parent_private_key index keypair_index_hex =
     (if HARDENED_VALUE \<le> index
      then (case decode_hex 254 parent_chaincode of None \<Rightarrow> None | Some chaincode_chr \<Rightarrow>
            (case decode_hex 254 (''00'' @ parent_private_key @ keypair_index_hex) of None \<Rightarrow> None
             | Some data_to_chr \<Rightarrow> Some (Some (hmac_512 ssl chaincode_chr data_to_chr))))
      else (case decode_hex 254 parent_chaincode of None \<Rightarrow> None | Some chaincode_chr \<Rightarrow>
            (let curve_k = get_pub_from_seed_secp256k1 ssl parent_private_key
             in if point_x curve_k = '''' then Some None
                else (case parity_byte (point_y curve_k) of None \<Rightarrow> None | Some first_byte_k \<Rightarrow>
                      (case decode_hex 254 (first_byte_k @ point_x curve_k @ keypair_index_hex) of None \<Rightarrow> None
                       | Some data_to_chr \<Rightarrow> Some (Some (hmac_512 ssl chaincode_chr data_to_chr)))))))"

definition parent_fingerprint :: "ossl \<Rightarrow> string \<Rightarrow> string option" where
  "parent_fingerprint ssl parent_public_key =
     (case decode_hex size_max parent_public_key of None \<Rightarrow> None | Some pub_bytes \<Rightarrow>
      (case decode_hex 254 (sha_hex pub_bytes) of None \<Rightarrow> None | Some sha_bytes \<Rightarrow>
       Some (take 8 (concat (map (\<lambda>b. setw0 2 (hex_of_nat (unat b))) (take 20 (ripemd160 ssl sha_bytes)))))))"

definition gen_child_from_xprv :: "ossl \<Rightarrow> BIP32NodeResult \<Rightarrow> u32 \<Rightarrow> string \<Rightarrow> BIP32NodeResult option" where
  "gen_child_from_xprv ssl parent_node index dep =
     (case (substr (hex_prv_key parent_node) 0 8, substr (hex_pub_key parent_node) 0 8,
            substr (hex_prv_key parent_node) 26 64) of
        (Some parent_prv_version, Some parent_pub_version, Some parent_chaincode) \<Rightarrow>
         (let parent_private_key = ecdsa_prv parent_node;
              keypair_index_hex = setw0 8 (hex_of_nat (unat index))
          in case child_hmac ssl parent_chaincode parent_private_key (unat index) keypair_index_hex of
               None \<Rightarrow> None
             | Some None \<Rightarrow> Some empty_node
             | Some (Some hmac_result) \<Rightarrow>
              (case (substr hmac_result 0 64, substr hmac_result 64 64, parent_fingerprint ssl (ecdsa_pub parent_node)) of
                 (Some I_left, Some chaincode, Some fingerprint) \<Rightarrow>
                  (let parsed_I_left = u512_of ssl (''0x'' @ I_left)
                   in if NMODULO \<le> parsed_I_left \<or> parsed_I_left = 0 then Some empty_node
                      else
                       (let parsed_k = u512_of ssl (''0x'' @ parent_private_key);
                            child_prv_key_decimal = (parsed_k + parsed_I_left) mod NMODULO;
                            child_data_prv = setw0 64 (hex_of_nat (unat child_prv_key_decimal));
                            raw = parent_prv_version @ dep @ fingerprint @ keypair_index_hex @ chaincode @ ''00'' @ child_data_prv
                        in case checked_key raw of None \<Rightarrow> None | Some (child_ext_private_key, xprv) \<Rightarrow>
                           (let curve = get_pub_from_seed_secp256k1 ssl child_data_prv
                            in if point_x curve = '''' then Some empty_node
                               else (case parity_byte (point_y curve) of None \<Rightarrow> None | Some first_byte \<Rightarrow>
                                (let ext_pub_raw = parent_pub_version @ dep @ fingerprint @ keypair_index_hex @ chaincode @ first_byte @ point_x curve
                                 in case checked_key ext_pub_raw of None \<Rightarrow> None | Some (ext_pub, xpb) \<Rightarrow>
                                    Some \<lparr>depth = dep, keypair_index = keypair_index_hex, ecdsa_pub = public_key curve,
                                      ecdsa_prv = child_data_prv, hex_prv_key = child_ext_private_key, hex_pub_key = ext_pub,
                                      xprv_base58 = xprv, xpub_base58 = xpb\<rparr>)))))
               | _ \<Rightarrow> None))
      | _ \<Rightarrow> None)"

section \<open>Reference: private child key derivation\<close>

definition be_bytes :: "nat \<Rightarrow> nat \<Rightarrow> bytes" where
  "be_bytes n v = map (\<lambda>k. of_nat (v div 256 ^ k)) (rev [0..<n])"

definition curve_order :: nat where
  "curve_order = 0xFFFFFFFFFFFFFFFFFFFFFFFFFFFFFFFEBAAEDCE6AF48A03BBFD25E8CD0364141"

text \<open>What the base-58 encoding with checksum is of.\<close>

definition base58check :: "bytes \<Rightarrow> string" where
  "base58check bs = base58_reference (bs @ take 4 (sha256_digest (sha256_digest bs)))"

definition hex_bytes :: "string \<Rightarrow> bytes" where
  "hex_bytes s = map (\<lambda>p. the (hex2dec p)) (pairs_of s)"

text \<open>The 33-byte compressed form of the point of a private key, and the input of the HMAC.\<close>

definition point_bytes :: "ossl \<Rightarrow> bytes \<Rightarrow> bytes" where
  "point_bytes ssl k =
     (case secp_point ssl (to_hex k) of
        None \<Rightarrow> []
      | Some (x, y, pub) \<Rightarrow> (if odd (hex_value y) then 3 else 2) # hex_bytes x)"

definition point_pub :: "ossl \<Rightarrow> bytes \<Rightarrow> string" where
  "point_pub ssl k = (case secp_point ssl (to_hex k) of None \<Rightarrow> '''' | Some (x, y, pub) \<Rightarrow> pub)"

definition ckd_data :: "ossl \<Rightarrow> bytes \<Rightarrow> nat \<Rightarrow> bytes" where
  "ckd_data ssl k i = (if 2 ^ 31 \<le> i then 0 # k else point_bytes ssl k) @ be_bytes 4 i"

definition ckd_priv :: "ossl \<Rightarrow> bytes \<Rightarrow> bytes \<Rightarrow> nat \<Rightarrow> (bytes \<times> bytes) option" where
  "ckd_priv ssl k c i =
     (let I = hmac_digest ssl c (ckd_data ssl k i);
          I_L = be_value (take 32 I)
      in if curve_order \<le> I_L \<or> I_L = 0 then None
         else Some (be_bytes 32 ((be_value k + I_L) mod curve_order), take 32 (drop 32 I)))"

text \<open>A node that holds the private key \<open>k\<close> and the chain code \<open>c\<close>.\<close>

definition node_keys :: "bytes \<Rightarrow> bytes \<Rightarrow> BIP32NodeResult \<Rightarrow> bool" where
  "node_keys k c node \<longleftrightarrow> length k = 32 \<and> length c = 32 \<and> ecdsa_prv node = to_hex k
     \<and> (\<exists>pre post. length pre = 13 \<and> hex_prv_key node = to_hex (pre @ c @ post))
     \<and> 8 \<le> length (hex_pub_key node) \<and> even (length (ecdsa_pub node)) \<and> length (ecdsa_pub node) \<le> 66"

text \<open>
  What the derivation relies on: HMAC-SHA-512 has 64 bytes, RIPEMD-160 has 20, \<open>uint512_t\<close> reads
  hexadecimal text, and OpenSSL prints coordinates and compressed points as pairs of digits, at
  most 32 bytes for a coordinate and 33 for a point.
\<close>

definition ossl_ok :: "ossl \<Rightarrow> bool" where
  "ossl_ok ssl \<longleftrightarrow> (\<forall>key msg. length (hmac_digest ssl key msg) = 64) \<and> (\<forall>msg. length (ripemd160 ssl msg) = 20)
     \<and> (\<forall>bs. length bs = 32 \<longrightarrow> u512_of ssl (''0x'' @ to_hex bs) = of_nat (be_value bs))
     \<and> (\<forall>s x y pub. secp_point ssl s = Some (x, y, pub) \<longrightarrow>
          x \<noteq> [] \<and> y \<noteq> [] \<and> even (length x) \<and> length x \<le> 64 \<and> even (length pub) \<and> length pub \<le> 66)"

section \<open>Lemmas\<close>

lemma hex_to_bytes_hex_bytes: "hex_to_bytes s = Some (hex_bytes s)"
  by (simp add: hex_to_bytes_defined hex_bytes_def)

lemma decode_hex_even: "even (length s) \<Longrightarrow> length s \<le> limit \<Longrightarrow> decode_hex limit s = Some (hex_bytes s)"
  by (simp add: decode_hex_def hex_to_bytes_hex_bytes)

lemma hex_bytes_append: "even (length a) \<Longrightarrow> hex_bytes (a @ b) = hex_bytes a @ hex_bytes b"
  by (simp add: hex_bytes_def pairs_of_append_even)

lemma hex_bytes_to_hex [simp]: "hex_bytes (to_hex bs) = bs"
  using hex_to_bytes_to_hex [of bs] hex_to_bytes_hex_bytes [of "to_hex bs"] by simp

lemma length_hex_bytes: "even (length s) \<Longrightarrow> length (hex_bytes s) = length s div 2"
  by (auto simp: hex_bytes_def length_pairs_of elim: evenE)

lemma drop_to_hex: "drop (2 * n) (to_hex bs) = to_hex (drop n bs)"
proof (induction bs arbitrary: n)
  case (Cons b bs)
  then show ?case by (cases n) (simp_all add: to_hex_Cons)
qed simp

lemma sha_hex_digest: "sha_hex data = to_hex (sha256_digest data)"
  by (simp add: sha_hex_def sha256_call_reference [OF sha256_new(1)] sha256_reference_digest)

lemma checked_key_eq:
  assumes "even (length raw)" and "raw \<noteq> []" and "length raw \<le> 65526"
  shows "checked_key raw = Some (raw @ take 8 (to_hex (sha256_digest (sha256_digest (hex_bytes raw)))), base58check (hex_bytes raw))"
proof -
  let ?dd = "sha256_digest (sha256_digest (hex_bytes raw))"
  have d1: "decode_hex size_max raw = Some (hex_bytes raw)"
    using assms(1,3) by (intro decode_hex_even) (simp_all add: size_max_def)
  have d2: "decode_hex size_max (to_hex (sha256_digest bs)) = Some (sha256_digest bs)" for bs
    by (subst decode_hex_even) (simp_all add: length_to_hex length_sha256_digest size_max_def)
  have t8: "take 8 (to_hex ?dd) = to_hex (take 4 ?dd)" using take_to_hex [of 4 ?dd] by simp
  have d3: "decode_hex 65534 (raw @ to_hex (take 4 ?dd)) = Some (hex_bytes raw @ take 4 ?dd)"
    using assms(1,3) by (subst decode_hex_even) (simp_all add: length_to_hex length_sha256_digest hex_bytes_append)
  have "hex_bytes raw \<noteq> []" using assms(1,2) by (metis hex_bytes_def concat.simps(1) concat_pairs_of map_is_Nil_conv)
  then have e: "EncodeBase58 (hex_bytes raw @ take 4 ?dd) base58map = Some (base58check (hex_bytes raw))"
    by (subst EncodeBase58_reference) (simp_all add: base58check_def)
  show ?thesis
    by (simp only: checked_key_def d1 d2 d3 t8 e option.case prod.case Let_def sha_hex_digest)
qed

lemma base58check_nonempty: "base58check bs \<noteq> []"
  using normal58_digits58 by (simp add: base58check_def base58_reference_def normal58_def)

lemma be_value_append: "be_value (xs @ [b]) = be_value xs * 256 + unat b"
  by (simp add: be_value_def)

lemma length_be_bytes [simp]: "length (be_bytes n v) = n"
  by (simp add: be_bytes_def)

lemma be_bytes_Suc: "be_bytes (Suc n) v = be_bytes n (v div 256) @ [of_nat v]"
proof -
  have "rev [0..<Suc n] = map Suc (rev [0..<n]) @ [0]"
    by (simp add: rev_map [symmetric] map_Suc_upt upt_conv_Cons del: upt_Suc)
  then show ?thesis by (simp add: be_bytes_def comp_def div_mult2_eq mult.commute)
qed

lemma be_value_be_bytes: "v < 256 ^ n \<Longrightarrow> be_value (be_bytes n v) = v"
proof (induction n arbitrary: v)
  case 0
  then show ?case by (simp add: be_bytes_def be_value_def)
next
  case (Suc n)
  then have "v div 256 < 256 ^ n" by (simp add: less_mult_imp_div_less mult.commute)
  with Suc.IH show ?case by (simp add: be_bytes_Suc be_value_append unat_of_nat)
qed

lemma hex_value_to_hex: "hex_value (to_hex bs) = be_value bs"
proof (induction bs rule: rev_induct)
  case (snoc b bs)
  have "hex_value (s @ [hex_digit (unat b div 16), hex_digit (unat b mod 16)]) = hex_value s * 256 + unat b" for s
    using hex_value_append_digit [of "unat b mod 16" "s @ [hex_digit (unat b div 16)]"]
      hex_value_append_digit [of "unat b div 16" s] unat_u8_div_16 [of b] by simp
  then show ?case using snoc by (simp add: to_hex_append to_hex_digits be_value_append)
qed (simp add: hex_value_def be_value_def)

lemma digit_split: "d < 16 \<Longrightarrow> d' < 16 \<Longrightarrow> a * 16 + d = b * 16 + d' \<Longrightarrow> d = d' \<and> a = (b :: nat)"
  by presburger

lemma hex_value_inj:
  assumes "length s = length t" and "\<forall>c \<in> set s \<union> set t. \<exists>d < 16. c = hex_digit d" and "hex_value s = hex_value t"
  shows "s = t"
  using assms
proof (induction s arbitrary: t rule: rev_induct)
  case (snoc c s)
  then obtain t' c' where t: "t = t' @ [c']" by (cases t rule: rev_cases) auto
  obtain d d' where d: "d < 16" "c = hex_digit d" "d' < 16" "c' = hex_digit d'" using snoc.prems(2) t by auto
  then have "hex_value s * 16 + d = hex_value t' * 16 + d'" using snoc.prems(3) t by (simp add: hex_value_append_digit)
  then have "d = d'" "hex_value s = hex_value t'" using digit_split [OF d(1,3)] by blast+
  with snoc t d show ?case by auto
qed simp

lemma setw0_hex_bytes:
  assumes "v < 256 ^ n" and "0 < n"
  shows "setw0 (2 * n) (hex_of_nat v) = to_hex (be_bytes n v)"
proof (rule hex_value_inj)
  have "v < 16 ^ (2 * n)" using assms(1) by (simp add: power_mult)
  then have "length (hex_of_nat v) \<le> 2 * n" using assms(2) by (intro hex_of_nat_length_le) simp_all
  then show "length (setw0 (2 * n) (hex_of_nat v)) = length (to_hex (be_bytes n v))"
    by (simp add: length_setw0 length_to_hex)
  show "hex_value (setw0 (2 * n) (hex_of_nat v)) = hex_value (to_hex (be_bytes n v))"
    using assms(1) by (simp add: hex_value_to_hex be_value_be_bytes)
  have "\<exists>d < 16. CHR ''0'' = hex_digit d" by (intro exI [of _ 0]) (simp add: hex_digit_def)
  moreover have "\<exists>d < 16. c = hex_digit d" if "c \<in> set (to_hex bs)" for c bs
  proof -
    from that obtain b where "c = hex_digit (unat (b :: u8) div 16) \<or> c = hex_digit (unat b mod 16)"
      by (auto simp: to_hex_digits)
    moreover have "unat b div 16 < 16" "unat b mod 16 < 16" using unat_u8_div_16 [of b] by simp_all
    ultimately show ?thesis by blast
  qed
  ultimately show "\<forall>c \<in> set (setw0 (2 * n) (hex_of_nat v)) \<union> set (to_hex (be_bytes n v)). \<exists>d < 16. c = hex_digit d"
    using hex_of_nat_digits by (auto simp: setw0_def)
qed

lemma parity_byte_eq:
  assumes "y \<noteq> []"
  shows "parity_byte y = Some (to_hex [if odd (hex_value y) then 3 else 2])"
proof -
  obtain ys c where y: "y = ys @ [c]" using assms by (cases y rule: rev_cases) auto
  let ?d = "case digit_value c of Some d \<Rightarrow> d | None \<Rightarrow> 0"
  have lt: "?d < 16" by (auto split: option.splits dest: digit_value_less)
  have "hex2dec [c] = Some (of_nat ?d)"
    using lt by (auto simp: hex2dec_def Let_def split: option.splits)
  moreover have "odd (hex_value y) \<longleftrightarrow> odd ?d" by (simp add: y hex_value_def)
  moreover have "unat (of_nat ?d :: u8) = ?d" using lt by (simp add: unat_of_nat)
  moreover have "to_hex [3] = ''03''" "to_hex [2] = ''02''" by code_simp+
  ultimately show ?thesis by (simp add: parity_byte_def y odd_iff_mod_2_eq_one)
qed

lemma unat_NMODULO: "unat NMODULO = curve_order"
  by (simp add: NMODULO_def curve_order_def)

lemma be_value_less: "be_value bs < 256 ^ length bs"
proof (induction bs rule: rev_induct)
  case (snoc b bs)
  then show ?case using next_value_less [OF snoc unat_less_256 [of b]] by (simp add: be_value_append)
qed (simp add: be_value_def)

definition point_ok :: "ossl \<Rightarrow> bytes \<Rightarrow> nat \<Rightarrow> bool" where
  "point_ok ssl k i \<longleftrightarrow> 2 ^ 31 \<le> i \<or> (\<exists>x y pub. secp_point ssl (to_hex k) = Some (x, y, pub) \<and> length x = 64)"

lemma ossl_okD:
  assumes "ossl_ok ssl"
  shows "length (hmac_digest ssl key msg) = 64" and "length (ripemd160 ssl msg) = 20"
    and "length bs = 32 \<Longrightarrow> u512_of ssl (''0x'' @ to_hex bs) = of_nat (be_value bs)"
    and "secp_point ssl s = Some (x, y, pub) \<Longrightarrow>
      x \<noteq> [] \<and> y \<noteq> [] \<and> even (length x) \<and> length x \<le> 64 \<and> even (length pub) \<and> length pub \<le> 66"
  using assms by (auto simp: ossl_ok_def)

lemma child_hmac_eq:
  assumes "ossl_ok ssl" and "length k = 32" and "length c = 32" and "point_ok ssl k i"
  shows "child_hmac ssl (to_hex c) (to_hex k) i (to_hex (be_bytes 4 i)) = Some (Some (to_hex (hmac_digest ssl c (ckd_data ssl k i))))"
proof -
  have z: "''00'' = to_hex [0]" by code_simp
  have dc: "decode_hex 254 (to_hex c) = Some c" using assms(3) by (subst decode_hex_even) (simp_all add: length_to_hex)
  show ?thesis
  proof (cases "2 ^ 31 \<le> i")
    case True
    have "decode_hex 254 (''00'' @ to_hex k @ to_hex (be_bytes 4 i)) = Some (ckd_data ssl k i)"
      using True assms(2) unfolding z to_hex_append [symmetric]
      by (subst decode_hex_even) (simp_all add: length_to_hex ckd_data_def)
    then show ?thesis
      using True dc by (simp add: child_hmac_def HARDENED_VALUE_def hmac_512_def)
  next
    case False
    with assms(4) obtain x y pub where p: "secp_point ssl (to_hex k) = Some (x, y, pub)" "length x = 64"
      by (auto simp: point_ok_def)
    then have xy: "x \<noteq> []" "y \<noteq> []" using ossl_okD(4) [OF assms(1) p(1)] by auto
    let ?b = "if odd (hex_value y) then 3 else 2 :: u8"
    have "decode_hex 254 (to_hex [?b] @ x @ to_hex (be_bytes 4 i)) = Some (ckd_data ssl k i)"
      using False p by (subst decode_hex_even) (simp_all add: length_to_hex ckd_data_def point_bytes_def hex_bytes_append)
    then show ?thesis
      using False dc p xy
      by (simp add: child_hmac_def HARDENED_VALUE_def hmac_512_def get_pub_from_seed_secp256k1_def parity_byte_eq)
  qed
qed

lemma byte_hex: "setw0 2 (hex_of_nat (unat (b :: u8))) = to_hex [b]"
  using setw0_hex_bytes [of "unat b" 1] unat_less_256 [of b] by (simp add: be_bytes_def)

lemma parent_fingerprint_eq:
  assumes "ossl_ok ssl" and "even (length pub)" and "length pub \<le> size_max"
  shows "parent_fingerprint ssl pub = Some (to_hex (take 4 (ripemd160 ssl (sha256_digest (hex_bytes pub)))))"
proof -
  have d: "decode_hex 254 (sha_hex bs) = Some (sha256_digest bs)" for bs
    by (subst decode_hex_even) (simp_all add: sha_hex_digest length_to_hex length_sha256_digest)
  have c: "concat (map (\<lambda>b. setw0 2 (hex_of_nat (unat b))) bs) = to_hex bs" for bs :: bytes
  proof (induction bs)
    case (Cons b bs)
    then show ?case using to_hex_append [of "[b]" bs] by (simp add: byte_hex)
  qed simp
  have "take 20 (ripemd160 ssl msg) = ripemd160 ssl msg" for msg using ossl_okD(2) [OF assms(1), of msg] by simp
  then show ?thesis
    using assms(2,3) take_to_hex [of 4] by (simp add: parent_fingerprint_def decode_hex_even d c)
qed

lemma substr_to_hex:
  "2 * m \<le> 2 * length bs \<Longrightarrow> substr (to_hex bs) (2 * m) (2 * n) = Some (to_hex (take n (drop m bs)))"
  by (simp add: substr_def length_to_hex drop_to_hex take_to_hex)

lemma curve_order_less: "curve_order < 256 ^ 32" "0 < curve_order"
  by (simp_all add: curve_order_def)

lemma child_scalar:
  assumes "ossl_ok ssl" and "length k = 32" and "length l = 32"
  defines "p \<equiv> u512_of ssl (''0x'' @ to_hex l)"
  shows "NMODULO \<le> p \<longleftrightarrow> curve_order \<le> be_value l" and "p = 0 \<longleftrightarrow> be_value l = 0"
    and "setw0 64 (hex_of_nat (unat ((u512_of ssl (''0x'' @ to_hex k) + p) mod NMODULO)))
      = to_hex (be_bytes 32 ((be_value k + be_value l) mod curve_order))"
proof -
  have lt: "be_value k < 256 ^ 32" "be_value l < 256 ^ 32"
    using be_value_less [of k] be_value_less [of l] assms(2,3) by simp_all
  have p: "p = of_nat (be_value l)" and q: "u512_of ssl (''0x'' @ to_hex k) = of_nat (be_value k)"
    using ossl_okD(3) [OF assms(1)] assms(2,3) by (simp_all add: p_def)
  have small: "unat (of_nat n :: 512 word) = n" if "n < 2 * 256 ^ 32" for n
    using that by (simp add: unat_of_nat)
  have up: "unat p = be_value l" unfolding p using lt(2) by (intro small) linarith
  show "NMODULO \<le> p \<longleftrightarrow> curve_order \<le> be_value l"
    by (simp add: word_le_nat_alt unat_NMODULO up)
  show "p = 0 \<longleftrightarrow> be_value l = 0" using up by (metis unat_0 unat_eq_zero)
  have "unat (of_nat (be_value k) + of_nat (be_value l) :: 512 word) = be_value k + be_value l"
    using small [of "be_value k + be_value l"] lt by (simp only: of_nat_add)
  then have "unat ((u512_of ssl (''0x'' @ to_hex k) + p) mod NMODULO) = (be_value k + be_value l) mod curve_order"
    by (simp only: unat_mod p q unat_NMODULO)
  moreover have "(be_value k + be_value l) mod curve_order < 256 ^ 32"
    using curve_order_less by (meson less_trans mod_less_divisor)
  ultimately show "setw0 64 (hex_of_nat (unat ((u512_of ssl (''0x'' @ to_hex k) + p) mod NMODULO)))
      = to_hex (be_bytes 32 ((be_value k + be_value l) mod curve_order))"
    using setw0_hex_bytes [of "(be_value k + be_value l) mod curve_order" 32] by simp
qed

text \<open>The hexadecimal text of a child's extended private key, and the parts of its parent that it copies.\<close>

lemma child_raw_key:
  fixes d :: u8 and i :: nat
  assumes "length pre = 13" and "length fp = 4" and "length r = 32" and "length k = 32"
  defines "raw \<equiv> to_hex (take 4 pre) @ to_hex [d] @ to_hex fp @ to_hex (be_bytes 4 i) @ to_hex r @ ''00'' @ to_hex k"
  shows "\<exists>xprv pre' post'. checked_key raw = Some (to_hex (pre' @ r @ post'), xprv) \<and> length pre' = 13 \<and> xprv \<noteq> []"
proof -
  let ?b = "(take 4 pre @ [d] @ fp @ be_bytes 4 i) @ r @ 0 # k"
  have z: "''00'' = to_hex [0]" by code_simp
  have "?b = take 4 pre @ [d] @ fp @ be_bytes 4 i @ r @ [0] @ k" by simp
  then have raw: "raw = to_hex ?b" by (simp only: raw_def z to_hex_append append_assoc)
  let ?chk = "take 4 (sha256_digest (sha256_digest ?b))"
  have t8: "take 8 (to_hex bs) = to_hex (take 4 bs)" for bs using take_to_hex [of 4 bs] by simp
  have "checked_key raw = Some (raw @ to_hex ?chk, base58check ?b)"
    using assms(1-4) by (subst checked_key_eq) (simp_all add: raw length_to_hex t8 flip: length_greater_0_conv)
  moreover have "raw @ to_hex ?chk = to_hex ((take 4 pre @ [d] @ fp @ be_bytes 4 i) @ r @ (0 # k @ ?chk))"
    unfolding raw to_hex_append [symmetric] by simp
  moreover have "length (take 4 pre @ [d] @ fp @ be_bytes 4 i) = 13" using assms(1,2) by simp
  ultimately show ?thesis using base58check_nonempty by metis
qed

lemma public_part:
  fixes d b :: u8 and i :: nat
  assumes "ossl_ok ssl" and "secp_point ssl s = Some (x, y, pub)" and "length ver = 8"
    and "length fp = 4" and "length r = 32"
  defines "raw \<equiv> ver @ to_hex [d] @ to_hex fp @ to_hex (be_bytes 4 i) @ to_hex r @ to_hex [b] @ x"
  shows "\<exists>ext xpub. checked_key raw = Some (ext, xpub) \<and> 8 \<le> length ext"
proof -
  have x: "even (length x)" "length x \<le> 64" using ossl_okD(4) [OF assms(1,2)] by auto
  show ?thesis
    using assms(3-5) x by (subst checked_key_eq) (auto simp: raw_def length_to_hex)
qed

lemma gen_child_refines:
  fixes d :: u8 and i :: u32
  assumes ok: "ossl_ok ssl" and keys: "node_keys k c parent" and point: "point_ok ssl k (unat i)"
  defines "node \<equiv> gen_child_from_xprv ssl parent i (to_hex [d])"
  shows "case ckd_priv ssl k c (unat i) of
      None \<Rightarrow> node = Some empty_node
    | Some (k', c') \<Rightarrow>
        if secp_point ssl (to_hex k') = None then node = Some empty_node
        else \<exists>n. node = Some n \<and> node_keys k' c' n \<and> xprv_base58 n \<noteq> '''' \<and> depth n = to_hex [d]
          \<and> ecdsa_pub n = point_pub ssl k'"
proof -
  obtain pre post where parent: "length k = 32" "length c = 32" "ecdsa_prv parent = to_hex k"
    "length pre = 13" "hex_prv_key parent = to_hex (pre @ c @ post)" "8 \<le> length (hex_pub_key parent)"
    "even (length (ecdsa_pub parent))" "length (ecdsa_pub parent) \<le> 66"
    using keys by (auto simp: node_keys_def)
  define I where "I = hmac_digest ssl c (ckd_data ssl k (unat i))"
  let ?fp = "take 4 (ripemd160 ssl (sha256_digest (hex_bytes (ecdsa_pub parent))))"
  let ?l = "take 32 I" and ?r = "take 32 (drop 32 I)"
  let ?k' = "be_bytes 32 ((be_value k + be_value ?l) mod curve_order)"
  have I: "length I = 64" by (simp add: I_def ossl_okD(1) [OF ok])
  have subs: "substr (hex_prv_key parent) 0 8 = Some (to_hex (take 4 pre))"
    "substr (hex_prv_key parent) 26 64 = Some (to_hex c)"
    "substr (hex_pub_key parent) 0 8 = Some (take 8 (hex_pub_key parent))"
    "substr (to_hex I) 0 64 = Some (to_hex ?l)" "substr (to_hex I) 64 64 = Some (to_hex ?r)"
    using substr_to_hex [of 0 "pre @ c @ post" 4] substr_to_hex [of 13 "pre @ c @ post" 32]
      substr_to_hex [of 0 I 32] substr_to_hex [of 32 I 32] parent I
    by (simp_all add: substr_def)
  have "unat i < 256 ^ 4" using unsigned_less [of i] by simp
  then have idx: "setw0 8 (hex_of_nat (unat i)) = to_hex (be_bytes 4 (unat i))"
    using setw0_hex_bytes [of "unat i" 4] by simp
  note hm = child_hmac_eq [OF ok parent(1,2) point, folded I_def]
  have fpr: "parent_fingerprint ssl (ecdsa_pub parent) = Some (to_hex ?fp)"
    using parent(7,8) by (intro parent_fingerprint_eq [OF ok]) (simp_all add: size_max_def)
  have fp: "length ?fp = 4" using ossl_okD(2) [OF ok] by simp
  have lr: "length ?l = 32" "length ?r = 32" using I by simp_all
  note sc = child_scalar [OF ok parent(1) lr(1)]
  obtain xprv pre' post' where raw: "checked_key (to_hex (take 4 pre) @ to_hex [d] @ to_hex ?fp @ to_hex (be_bytes 4 (unat i)) @
      to_hex ?r @ ''00'' @ to_hex ?k') = Some (to_hex (pre' @ ?r @ post'), xprv)" "length pre' = 13" "xprv \<noteq> []"
    using child_raw_key [OF parent(4) fp lr(2), of ?k' d "unat i"] by auto
  have ckd: "ckd_priv ssl k c (unat i) = (if curve_order \<le> be_value ?l \<or> be_value ?l = 0 then None else Some (?k', ?r))"
    by (simp add: ckd_priv_def I_def [symmetric] Let_def)
  note step = gen_child_from_xprv_def subs prod.case option.case Let_def parent(3) idx hm fpr sc
  show ?thesis
  proof (cases "curve_order \<le> be_value ?l \<or> be_value ?l = 0")
    case True
    then show ?thesis unfolding ckd node_def by (simp only: step if_True option.case)
  next
    case False
    show ?thesis
    proof (cases "secp_point ssl (to_hex ?k')")
      case None
      then have "point_x (get_pub_from_seed_secp256k1 ssl (to_hex ?k')) = ''''"
        by (simp add: get_pub_from_seed_secp256k1_def)
      with False None show ?thesis
        unfolding ckd node_def by (simp only: step if_False if_True raw(1) simp_thms)
    next
      case (Some xyp)
      obtain x y pub where xyp: "xyp = (x, y, pub)" by (cases xyp)
      note S = Some [unfolded xyp]
      have pt: "get_pub_from_seed_secp256k1 ssl (to_hex ?k')
          = \<lparr>private_key = to_hex ?k', point_x = x, point_y = y, public_key = pub\<rparr>"
        by (simp add: get_pub_from_seed_secp256k1_def S)
      have xy: "x \<noteq> ''''" "y \<noteq> []" "even (length pub)" "length pub \<le> 66" using ossl_okD(4) [OF ok S] by auto
      obtain ext xpub where pubraw: "checked_key (take 8 (hex_pub_key parent) @ to_hex [d] @ to_hex ?fp @
          to_hex (be_bytes 4 (unat i)) @ to_hex ?r @ to_hex [if odd (hex_value y) then 3 else 2] @ x) = Some (ext, xpub)"
        "8 \<le> length ext"
        using public_part [OF ok S _ fp lr(2), of "take 8 (hex_pub_key parent)"] parent(6) by fastforce
      let ?n = "\<lparr>depth = to_hex [d], keypair_index = to_hex (be_bytes 4 (unat i)), ecdsa_pub = pub, ecdsa_prv = to_hex ?k',
        hex_prv_key = to_hex (pre' @ ?r @ post'), hex_pub_key = ext, xprv_base58 = xprv, xpub_base58 = xpub\<rparr>"
      have "node = Some ?n"
        unfolding node_def using False xy(1)
        by (simp only: step if_False raw(1) pt secp256k1_result.select_convs parity_byte_eq [OF xy(2)] pubraw(1))
      moreover have "node_keys ?k' ?r ?n"
        using raw(2) lr(2) pubraw(2) xy by (auto simp: node_keys_def)
      ultimately show ?thesis using False raw(3) S by (simp add: ckd point_pub_def)
    qed
  qed
qed

lemma master_constants:
  "''0488ade4'' = to_hex [0x04, 0x88, 0xad, 0xe4]" "''00'' = to_hex [0]" "''00000000'' = to_hex [0, 0, 0, 0]"
  by code_simp+

lemma gen_master_refines:
  fixes sd :: bytes
  assumes ok: "ossl_ok ssl" and sd: "length sd \<le> 32767"
  defines "I \<equiv> hmac_digest ssl bitcoin_seed sd" and "node \<equiv> gen_master ssl (to_hex sd)"
  shows "if secp_point ssl (to_hex (take 32 I)) = None then node = Some empty_node
    else \<exists>n. node = Some n \<and> node_keys (take 32 I) (take 32 (drop 32 I)) n \<and> xprv_base58 n \<noteq> '''' \<and> depth n = ''00''
      \<and> ecdsa_pub n = point_pub ssl (take 32 I)"
proof -
  let ?l = "take 32 I" and ?r = "take 32 (drop 32 I)"
  have I: "length I = 64" by (simp add: I_def ossl_okD(1) [OF ok])
  have subs: "substr (to_hex I) 0 64 = Some (to_hex ?l)" "substr (to_hex I) 64 64 = Some (to_hex ?r)"
    using substr_to_hex [of 0 I 32] substr_to_hex [of 32 I 32] I by simp_all
  have dec: "decode_hex 65534 (to_hex sd) = Some sd"
    using sd by (subst decode_hex_even) (simp_all add: length_to_hex)
  have hm: "hmac_512 ssl bitcoin_seed sd = to_hex I" by (simp add: hmac_512_def I_def)
  have lr: "length ?l = 32" "length ?r = 32" using I by simp_all
  have hz: "to_hex [0x04, 0x88, 0xad, 0xe4] = ''0488ade4''" "to_hex [0] = ''00''" "to_hex [0, 0, 0, 0] = ''00000000''"
    "be_bytes 4 0 = [0, 0, 0, 0]"
    using master_constants by (simp_all add: be_bytes_def upt_rec)
  obtain xprv pre' post' where raw: "checked_key (''0488ade4'' @ ''00'' @ ''00000000'' @ ''00000000'' @ to_hex ?r @ ''00'' @ to_hex ?l)
      = Some (to_hex (pre' @ ?r @ post'), xprv)" "length pre' = 13" "xprv \<noteq> []"
    using child_raw_key [of "[0x04, 0x88, 0xad, 0xe4, 0, 0, 0, 0, 0, 0, 0, 0, 0]" "[0, 0, 0, 0]" ?r ?l 0 0] lr hz by auto
  note step = gen_master_def dec option.case prod.case Let_def hm subs
  show ?thesis
  proof (cases "secp_point ssl (to_hex ?l)")
    case None
    then have "point_x (get_pub_from_seed_secp256k1 ssl (to_hex ?l)) = ''''" by (simp add: get_pub_from_seed_secp256k1_def)
    with None show ?thesis unfolding node_def by (simp only: step if_True simp_thms)
  next
    case (Some xyp)
    obtain x y pub where xyp: "xyp = (x, y, pub)" by (cases xyp)
    note S = Some [unfolded xyp]
    have pt: "get_pub_from_seed_secp256k1 ssl (to_hex ?l)
        = \<lparr>private_key = to_hex ?l, point_x = x, point_y = y, public_key = pub\<rparr>"
      by (simp add: get_pub_from_seed_secp256k1_def S)
    have xy: "x \<noteq> ''''" "y \<noteq> []" "even (length pub)" "length pub \<le> 66" using ossl_okD(4) [OF ok S] by auto
    obtain ext xpub where pubraw: "checked_key (''0488b21e'' @ ''00'' @ ''00000000'' @ ''00000000'' @ to_hex ?r
        @ to_hex [if odd (hex_value y) then 3 else 2] @ x) = Some (ext, xpub)" "8 \<le> length ext"
      using public_part [OF ok S, of "''0488b21e''" "[0, 0, 0, 0]" ?r 0 0] lr(2) hz by fastforce
    let ?n = "\<lparr>depth = ''00'', keypair_index = ''00000000'', ecdsa_pub = pub, ecdsa_prv = to_hex ?l,
      hex_prv_key = to_hex (pre' @ ?r @ post'), hex_pub_key = ext, xprv_base58 = xprv, xpub_base58 = xpub\<rparr>"
    have "node = Some ?n"
      unfolding node_def using xy(1)
      by (simp only: step if_False raw(1) pt secp256k1_result.select_convs parity_byte_eq [OF xy(2)] pubraw(1))
    moreover have "node_keys ?l ?r ?n" using raw(2) lr pubraw(2) xy by (auto simp: node_keys_def)
    ultimately show ?thesis using raw(3) S by (simp add: point_pub_def)
  qed
qed

section \<open>Properties\<close>

text \<open>A concrete instance of the parameters and a parent node, for the witnesses.\<close>

definition ssl_example :: ossl where
  "ssl_example = \<lparr>hmac_digest = (\<lambda>key msg. replicate 64 1), ripemd160 = (\<lambda>msg. replicate 20 2),
     secp_point = (\<lambda>s. Some (to_hex (replicate 32 7), to_hex (replicate 32 8), to_hex (2 # replicate 32 7))),
     u512_of = (\<lambda>s. of_nat (hex_value (drop 2 s)))\<rparr>"

definition node_example :: BIP32NodeResult where
  "node_example = \<lparr>depth = ''00'', keypair_index = ''00000000'', ecdsa_pub = to_hex (2 # replicate 32 7),
     ecdsa_prv = to_hex (replicate 32 5), hex_prv_key = to_hex (replicate 13 0 @ replicate 32 6 @ []),
     hex_pub_key = to_hex (replicate 78 0), xprv_base58 = ''x'', xpub_base58 = ''y''\<rparr>"

lemma ssl_example_ok: "ossl_ok ssl_example"
  by (auto simp: ossl_ok_def ssl_example_def length_to_hex hex_value_to_hex simp flip: length_greater_0_conv)

lemma node_example_keys: "node_keys (replicate 32 5) (replicate 32 6) node_example"
proof -
  have "hex_prv_key node_example = to_hex (replicate 13 0 @ replicate 32 6 @ [])" by (simp only: node_example_def BIP32NodeResult.select_convs)
  moreover have "length (replicate 13 (0 :: u8)) = 13" by (simp only: length_replicate)
  ultimately have "\<exists>pre post. length pre = 13 \<and> hex_prv_key node_example = to_hex (pre @ replicate 32 6 @ post)" by blast
  then show ?thesis by (simp add: node_keys_def length_to_hex) (simp add: node_example_def length_to_hex)
qed

lemma be_value_ones: "255 * be_value (replicate n 1) + 1 = 256 ^ n"
proof (induction n)
  case (Suc n)
  have "replicate (Suc n) (1 :: u8) = replicate n 1 @ [1]" by (simp add: replicate_append_same)
  then have "255 * be_value (replicate (Suc n) 1) + 1 = 256 * (255 * be_value (replicate n 1) + 1)"
    by (simp only: be_value_append) simp
  then show ?case by (simp only: Suc power_Suc)
qed (simp add: be_value_def)

lemma example_ckd: "\<exists>k'. ckd_priv ssl_example k c i = Some (k', replicate 32 1)"
proof -
  have e: "hmac_digest ssl_example key msg = replicate 32 1 @ replicate 32 1" for key msg
    by (simp add: ssl_example_def flip: replicate_add)
  have "\<not> curve_order \<le> be_value (replicate 32 1)" "be_value (replicate 32 1) \<noteq> 0"
    using be_value_ones [of 32] by (simp_all add: curve_order_def)
  then show ?thesis by (simp add: ckd_priv_def e Let_def)
qed

text \<open>
  \<open>gen_master\<close> is the master key generation of BIP-32: for a seed of at most 32767 bytes it splits
  HMAC-SHA-512 with the key \<open>Bitcoin seed\<close> into the private key and the chain code of the node, and
  it returns the empty node exactly when the curve library rejects that private key.
\<close>

lemma gen_master_is_bip32:
  fixes sd :: bytes
  assumes "ossl_ok ssl" and "length sd \<le> 32767"
  defines "I \<equiv> hmac_digest ssl bitcoin_seed sd"
  shows "if secp_point ssl (to_hex (take 32 I)) = None then gen_master ssl (to_hex sd) = Some empty_node
    else \<exists>n. gen_master ssl (to_hex sd) = Some n \<and> node_keys (take 32 I) (take 32 (drop 32 I)) n
      \<and> xprv_base58 n \<noteq> '''' \<and> depth n = ''00'' \<and> ecdsa_pub n = point_pub ssl (take 32 I)"
  unfolding I_def by (rule gen_master_refines [OF assms(1,2)])



end
