(* ===== verification/Bip44.thy ===== *)
theory Bip44
  imports Bip39 Bip32
begin

text \<open>
  The class \<open>BIP44\<close> of \<open>bip44/BIP44.hpp\<close>: wallets and addresses along the path
  \<open>m / 44' / 992' / account' / change / index\<close>, composed of the mnemonic generator, the node
  derivation and the address encoding. \<open>None\<close> stands for the failures of these parts that are not
  values of the program (accesses outside an array, exceptions of \<open>substr\<close>); the errors that the
  class reports are values of the field \<open>error\<close>. The parameters are OpenSSL's random bytes, key
  stretching and number conversions and, inside \<open>ssl\<close>, its curve and hash functions.
\<close>

section \<open>Definitions\<close>

definition PHRASE_12 :: int where "PHRASE_12 = 12"

definition PHRASE_24 :: int where "PHRASE_24 = 24"

definition UNIT_COINTYPE :: nat where "UNIT_COINTYPE = 992"

definition INTERNAL_CHANGE :: u8 where "INTERNAL_CHANGE = 1"

definition EXTERNAL_CHANGE :: u8 where "EXTERNAL_CHANGE = 0"

record BIP44Result =
  path :: string
  extended_prv :: string
  extended_pub :: string
  prv :: string
  pub :: string
  address :: string
  mnemonic :: BIP39Result
  error :: string

definition BIP44Result_error :: "string \<Rightarrow> BIP44Result" where
  "BIP44Result_error err =
     \<lparr>path = '''', extended_prv = '''', extended_pub = '''', prv = '''', pub = '''', address = '''',
      mnemonic = \<lparr>phrase = '''', seed = ''''\<rparr>, error = err\<rparr>"

text \<open>What the wallet code uses of OpenSSL, and the indeterminate content of the stack.\<close>

record wallet_lib =
  ssl :: ossl
  rand_bytes :: "nat \<Rightarrow> int \<times> bytes"
  pbkdf2 :: "bytes \<Rightarrow> bytes \<Rightarrow> nat \<Rightarrow> nat \<Rightarrow> bytes"
  bn_hex :: "bytes \<Rightarrow> string"
  bn_bin :: "string \<Rightarrow> bytes"
  stack_bytes :: bytes

text \<open>Each derivation is followed by \<open>if (node.xprv_base58 == "") return BIP44Result(error)\<close>.\<close>

definition check_node :: "string \<Rightarrow> BIP32NodeResult option \<Rightarrow> (string + BIP32NodeResult) option" where
  "check_node err node =
     (case node of None \<Rightarrow> None | Some n \<Rightarrow> Some (if xprv_base58 n = '''' then Inl err else Inr n))"

definition then_child ::
  "ossl \<Rightarrow> u32 \<Rightarrow> string \<Rightarrow> string \<Rightarrow> (string + BIP32NodeResult) option \<Rightarrow> (string + BIP32NodeResult) option" where
  "then_child s i dep err r =
     (case r of Some (Inr n) \<Rightarrow> check_node err (gen_child_from_xprv s n i dep) | _ \<Rightarrow> r)"

definition derive_address_node :: "ossl \<Rightarrow> string \<Rightarrow> u16 \<Rightarrow> u8 \<Rightarrow> u16 \<Rightarrow> (string + BIP32NodeResult) option" where
  "derive_address_node s sd account change address_index =
     (let m_node = check_node ''BAD MASTER'' (gen_master s sd);
          purpose_node = then_child s (of_nat (HARDENED_VALUE + 44)) ''01'' ''BAD PUPROSE'' m_node;
          coin_node = then_child s (of_nat (HARDENED_VALUE + UNIT_COINTYPE)) ''02'' ''BAD COINTYPE'' purpose_node;
          account_node = then_child s (of_nat (HARDENED_VALUE + unat account)) ''03'' ''BAD ACCOUNT'' coin_node;
          change_node = then_child s (ucast change) ''04'' ''BAD CHANGE NODE'' account_node
      in then_child s (ucast address_index) ''05'' ''BAD ADDRESS'' change_node)"

definition wallet_path :: "u16 \<Rightarrow> u8 \<Rightarrow> string \<Rightarrow> string" where
  "wallet_path account change index_text =
     ''m/44'' @ [CHR 0x27] @ ''/992'' @ [CHR 0x27] @ ''/'' @ dec_of_nat (unat account) @ [CHR 0x27] @ ''/''
       @ dec_of_nat (unat change) @ ''/'' @ index_text"

definition address_result :: "wallet_lib \<Rightarrow> string \<Rightarrow> BIP39Result \<Rightarrow> BIP32NodeResult \<Rightarrow> BIP44Result option" where
  "address_result lib path_text mnemonic_code address_node =
     (case pub2addr (bn_bin lib) (stack_bytes lib) (ecdsa_pub address_node) of
        None \<Rightarrow> None
      | Some wallet_address \<Rightarrow>
          Some \<lparr>path = path_text, extended_prv = xprv_base58 address_node, extended_pub = xpub_base58 address_node,
            prv = ecdsa_prv address_node, pub = ecdsa_pub address_node, address = wallet_address,
            mnemonic = mnemonic_code, error = ''''\<rparr>)"

definition new_mnemonic :: "wallet_lib \<Rightarrow> int \<Rightarrow> string \<Rightarrow> BIP39Result" where
  "new_mnemonic lib len password =
     (let to_seed = phraseToSeed (pbkdf2 lib) (bn_hex lib) (stack_bytes lib)
      in if len = PHRASE_12 then generateMnemonic_12 (rand_bytes lib) to_seed password
         else generateMnemonic (rand_bytes lib) to_seed password)"

definition generateWallet_password :: "wallet_lib \<Rightarrow> int \<Rightarrow> u16 \<Rightarrow> u8 \<Rightarrow> string \<Rightarrow> BIP44Result option" where
  "generateWallet_password lib len account change password =
     (if len \<noteq> PHRASE_12 \<and> len \<noteq> PHRASE_24 then Some (BIP44Result_error ''BAD PHRASE'')
      else if change \<noteq> INTERNAL_CHANGE \<and> change \<noteq> EXTERNAL_CHANGE then Some (BIP44Result_error ''BAD CHANGE'')
      else (let mnemonic_code = new_mnemonic lib len password
            in case derive_address_node (ssl lib) (seed mnemonic_code) account change 0 of
                 None \<Rightarrow> None
               | Some (Inl err) \<Rightarrow> Some (BIP44Result_error err)
               | Some (Inr address_node) \<Rightarrow> address_result lib (wallet_path account change ''0'') mnemonic_code address_node))"

definition generateWallet :: "wallet_lib \<Rightarrow> int \<Rightarrow> u16 \<Rightarrow> u8 \<Rightarrow> BIP44Result option" where
  "generateWallet lib len account change =
     (if len \<noteq> PHRASE_12 \<and> len \<noteq> PHRASE_24 then Some (BIP44Result_error ''BAD PHRASE'')
      else if change \<noteq> INTERNAL_CHANGE \<and> change \<noteq> EXTERNAL_CHANGE then Some (BIP44Result_error ''BAD CHANGE'')
      else (let mnemonic_code = new_mnemonic lib len ''''
            in case derive_address_node (ssl lib) (seed mnemonic_code) account change 0 of
                 None \<Rightarrow> None
               | Some (Inl err) \<Rightarrow> Some (BIP44Result_error err)
               | Some (Inr address_node) \<Rightarrow> address_result lib (wallet_path account change ''0'') mnemonic_code address_node))"

definition generateAddress :: "wallet_lib \<Rightarrow> BIP39Result \<Rightarrow> u16 \<Rightarrow> u8 \<Rightarrow> u16 \<Rightarrow> BIP44Result option" where
  "generateAddress lib mnem account change address_index =
     (case derive_address_node (ssl lib) (seed mnem) account change address_index of
        None \<Rightarrow> None
      | Some (Inl err) \<Rightarrow> Some (BIP44Result_error err)
      | Some (Inr address_node) \<Rightarrow>
          address_result lib (wallet_path account change (dec_of_nat (unat address_index))) mnem address_node)"

section \<open>Reference: derivation along a path\<close>

definition ckd_step :: "ossl \<Rightarrow> nat \<times> string \<Rightarrow> string + bytes \<times> bytes \<Rightarrow> string + bytes \<times> bytes" where
  "ckd_step s = (\<lambda>(i, err). \<lambda>r. res_bind r (\<lambda>(k, c).
     case ckd_priv s k c i of
       None \<Rightarrow> Inl err
     | Some (k', c') \<Rightarrow> if secp_point s (to_hex k') = None then Inl err else Inr (k', c')))"

definition bip44_steps :: "nat \<Rightarrow> nat \<Rightarrow> nat \<Rightarrow> (nat \<times> string) list" where
  "bip44_steps account change i =
     [(2 ^ 31 + 44, ''BAD PUPROSE''), (2 ^ 31 + 992, ''BAD COINTYPE''), (2 ^ 31 + account, ''BAD ACCOUNT''),
      (change, ''BAD CHANGE NODE''), (i, ''BAD ADDRESS'')]"

definition bip44_keys :: "ossl \<Rightarrow> bytes \<Rightarrow> nat \<Rightarrow> nat \<Rightarrow> nat \<Rightarrow> string + bytes \<times> bytes" where
  "bip44_keys s sd account change i =
     (let I = hmac_digest s bitcoin_seed sd;
          master = (if secp_point s (to_hex (take 32 I)) = None then Inl ''BAD MASTER'' else Inr (take 32 I, take 32 (drop 32 I)))
      in fold (ckd_step s) (bip44_steps account change i) master)"

text \<open>The node the program holds against the keys of the reference.\<close>

definition node_rel :: "ossl \<Rightarrow> (string + BIP32NodeResult) option \<Rightarrow> string + bytes \<times> bytes \<Rightarrow> bool" where
  "node_rel s r spec =
     (case spec of
        Inl err \<Rightarrow> r = Some (Inl err)
      | Inr (k, c) \<Rightarrow> \<exists>n. r = Some (Inr n) \<and> node_keys k c n \<and> ecdsa_pub n = point_pub s k \<and> secp_point s (to_hex k) \<noteq> None)"

text \<open>Every point that the library computes has its x coordinate printed with all 64 digits.\<close>

definition full_points :: "ossl \<Rightarrow> bool" where
  "full_points s \<longleftrightarrow> (\<forall>t x y p. secp_point s t = Some (x, y, p) \<longrightarrow> length x = 64)"

section \<open>Lemmas\<close>

lemma full_points_ok: "full_points s \<Longrightarrow> secp_point s (to_hex k) \<noteq> None \<Longrightarrow> point_ok s k i"
  unfolding full_points_def point_ok_def by (metis option.exhaust prod.exhaust)

lemma empty_node_xprv [simp]: "xprv_base58 empty_node = ''''"
  by (simp add: empty_node_def)

lemma check_node_simps [simp]:
  "check_node err (Some empty_node) = Some (Inl err)"
  "xprv_base58 n \<noteq> '''' \<Longrightarrow> check_node err (Some n) = Some (Inr n)"
  by (simp_all add: check_node_def)

lemma master_rel:
  assumes "ossl_ok s" and "length sd \<le> 32767"
  defines "I \<equiv> hmac_digest s bitcoin_seed sd"
  shows "node_rel s (check_node ''BAD MASTER'' (gen_master s (to_hex sd)))
    (if secp_point s (to_hex (take 32 I)) = None then Inl ''BAD MASTER'' else Inr (take 32 I, take 32 (drop 32 I)))"
  using gen_master_refines [OF assms(1,2), folded I_def] by (auto simp: node_rel_def split: if_splits)

lemma child_rel:
  assumes "ossl_ok s" and "full_points s" and "node_rel s r spec" and "dep = to_hex [d]" and "j = unat i"
  shows "node_rel s (then_child s i dep err r) (ckd_step s (j, err) spec)"
proof (cases spec)
  case (Inl e)
  then show ?thesis using assms(3) by (simp add: node_rel_def then_child_def ckd_step_def)
next
  case (Inr kc)
  then obtain k c n where n: "spec = Inr (k, c)" "r = Some (Inr n)" "node_keys k c n" "secp_point s (to_hex k) \<noteq> None"
    using assms(3) by (cases kc) (auto simp: node_rel_def)
  note gen = gen_child_refines [OF assms(1) n(3) full_points_ok [OF assms(2) n(4)], of i d]
  show ?thesis
  proof (cases "ckd_priv s k c (unat i)")
    case None
    then show ?thesis using gen n assms(4,5) by (simp add: node_rel_def then_child_def ckd_step_def)
  next
    case (Some kc')
    then obtain k' c' where "ckd_priv s k c (unat i) = Some (k', c')" by (cases kc') auto
    then show ?thesis
      using gen n assms(4,5) by (auto simp: node_rel_def then_child_def ckd_step_def split: if_splits)
  qed
qed

lemma path_indices:
  "unat (of_nat (HARDENED_VALUE + 44) :: u32) = 2 ^ 31 + 44"
  "unat (of_nat (HARDENED_VALUE + UNIT_COINTYPE) :: u32) = 2 ^ 31 + 992"
  "unat (of_nat (HARDENED_VALUE + unat (account :: u16)) :: u32) = 2 ^ 31 + unat account"
  "unat (ucast (change :: u8) :: u32) = unat change" "unat (ucast (account :: u16) :: u32) = unat account"
proof -
  have account: "unat account < 2 ^ 16" using unsigned_less [of account] by simp
  show "unat (of_nat (HARDENED_VALUE + unat account) :: u32) = 2 ^ 31 + unat account"
    using account by (subst unat_of_nat_small) (simp_all add: HARDENED_VALUE_def)
  have "unat change < 2 ^ 32" by (rule less_trans [OF unat_less_256]) simp
  from take_bit_nat_eq_self [OF this] show "unat (ucast change :: u32) = unat change" by (simp add: unsigned_ucast_eq)
  show "unat (ucast account :: u32) = unat account"
    using account by (simp add: unsigned_ucast_eq take_bit_nat_eq_self)
qed (simp_all add: HARDENED_VALUE_def UNIT_COINTYPE_def unat_of_nat_small)

lemma depth_texts:
  "''01'' = to_hex [1]" "''02'' = to_hex [2]" "''03'' = to_hex [3]" "''04'' = to_hex [4]" "''05'' = to_hex [5]"
  by code_simp+

lemma derive_address_node_rel:
  assumes "ossl_ok s" and "full_points s" and "length sd \<le> 32767"
  shows "node_rel s (derive_address_node s (to_hex sd) account change i) (bip44_keys s sd (unat account) (unat change) (unat i))"
  unfolding derive_address_node_def bip44_keys_def bip44_steps_def Let_def fold_simps
  by (rule child_rel [OF assms(1,2) _ depth_texts(5) path_indices(5) [symmetric]]
      child_rel [OF assms(1,2) _ depth_texts(4) path_indices(4) [symmetric]]
      child_rel [OF assms(1,2) _ depth_texts(3) path_indices(3) [symmetric]]
      child_rel [OF assms(1,2) _ depth_texts(2) path_indices(2) [symmetric]]
      child_rel [OF assms(1,2) _ depth_texts(1) path_indices(1) [symmetric]] master_rel [OF assms(1,3)])+

section \<open>Properties\<close>


definition lib_example :: wallet_lib where
  "lib_example = \<lparr>ssl = ssl_example, rand_bytes = (\<lambda>n. (1, replicate n 3)), pbkdf2 = (\<lambda>p s n k. replicate k 9),
     bn_hex = to_hex, bn_bin = bn_example, stack_bytes = []\<rparr>"


text \<open>
  A generated wallet belongs to its mnemonic: for the two supported phrase lengths and the two
  change values, \<open>generateWallet\<close> with a password returns what \<open>generateAddress\<close> returns for index 0 on
  the freshly generated mnemonic, and the overload without a password is the one with the
  empty password. For other lengths or change values both report \<open>BAD PHRASE\<close> or \<open>BAD CHANGE\<close>.
\<close>

lemma generateWallet_is_first_address:
  "generateWallet_password lib len account change pw =
     (if len \<notin> {12, 24} then Some (BIP44Result_error ''BAD PHRASE'')
      else if change \<notin> {0, 1} then Some (BIP44Result_error ''BAD CHANGE'')
      else generateAddress lib (new_mnemonic lib len pw) account change 0)
   \<and> generateWallet lib len account change = generateWallet_password lib len account change ''''"
proof -
  have z: "dec_of_nat (unat (0 :: u16)) = ''0''" by (simp add: dec_of_nat.simps)
  show ?thesis
    unfolding generateAddress_def z
    by (auto simp: generateWallet_password_def generateWallet_def Let_def PHRASE_12_def PHRASE_24_def INTERNAL_CHANGE_def EXTERNAL_CHANGE_def)
qed

end
