(* ===== verification/Ecdsa.thy ===== *)
theory Ecdsa
  imports Bip32
begin

text \<open>
  \<open>bip44/ecdsa.hpp\<close>: signing with a private key and verification against an address. OpenSSL's
  big numbers, curve points (a type parameter) and hash are the fields of \<open>ec_lib\<close>; the program's
  own part is the extraction of the two numbers from the DER text and the recovery of the two
  candidate public keys. \<open>substr\<close> throws (\<open>None\<close>) when its position is behind the end.
\<close>

section \<open>Definitions\<close>

record 'p ec_lib =
  key_ok :: "string \<Rightarrow> bool"
  pubkey_ok :: "string \<Rightarrow> bool"
  openssl_sha256 :: "bytes \<Rightarrow> bytes"
  sign_der :: "string \<Rightarrow> bytes \<Rightarrow> bytes"
  verify_der :: "string \<Rightarrow> bytes \<Rightarrow> bytes \<Rightarrow> int"
  bn_to_hex :: "bytes \<Rightarrow> string"
  hex_to_bn :: "string \<Rightarrow> int"
  mod_inverse :: "int \<Rightarrow> int \<Rightarrow> int"
  compressed_point :: "int \<Rightarrow> bool \<Rightarrow> 'p"
  ec_mul :: "int \<Rightarrow> 'p \<Rightarrow> int \<Rightarrow> 'p"
  point_hex :: "'p \<Rightarrow> string"
  address_bn :: "string \<Rightarrow> bytes"
  address_stack :: bytes

record ECDSASignResult =
  sig_r :: string
  sig_s :: string
  message_hash :: string

definition no_signature :: ECDSASignResult where
  "no_signature = \<lparr>sig_r = '''', sig_s = '''', message_hash = ''''\<rparr>"

text \<open>\<open>strlen\<close> stops at the first zero byte.\<close>

definition c_bytes :: "string \<Rightarrow> bytes" where
  "c_bytes msg = takeWhile (\<lambda>b. b \<noteq> 0) (bytes_of_string msg)"

definition hex_len :: "string \<Rightarrow> nat \<Rightarrow> nat option" where
  "hex_len t pos =
     (case substr t pos 2 of None \<Rightarrow> None | Some d \<Rightarrow> (case hex2dec d of None \<Rightarrow> None | Some b \<Rightarrow> Some (unat b * 2)))"

definition der_numbers :: "string \<Rightarrow> (string \<times> string) option" where
  "der_numbers t =
     (case hex_len t 6 of None \<Rightarrow> None | Some r_length \<Rightarrow>
      (case substr t 8 r_length of None \<Rightarrow> None | Some r_sig \<Rightarrow>
       (case hex_len t (8 + r_length + 2) of None \<Rightarrow> None | Some s_length \<Rightarrow>
        (case substr t (8 + r_length + 4) s_length of None \<Rightarrow> None | Some s_sig \<Rightarrow> Some (r_sig, s_sig)))))"

definition ecdsa_sign_message :: "'p ec_lib \<Rightarrow> string \<Rightarrow> string \<Rightarrow> ECDSASignResult option" where
  "ecdsa_sign_message lib msg prv_key =
     (if \<not> key_ok lib prv_key then Some no_signature
      else if \<not> pubkey_ok lib prv_key then Some no_signature
      else (let digest = openssl_sha256 lib (c_bytes msg);
                signature = sign_der lib prv_key digest;
                signature_string = bn_to_hex lib signature
            in case der_numbers signature_string of
                 None \<Rightarrow> None
               | Some (r_sig, s_sig) \<Rightarrow>
                   Some (if verify_der lib prv_key digest signature = 0 then no_signature
                     else \<lparr>sig_r = r_sig, sig_s = s_sig, message_hash = bn_to_hex lib digest\<rparr>)))"

definition nmod_bn :: int where
  "nmod_bn = 0xFFFFFFFFFFFFFFFFFFFFFFFFFFFFFFFEBAAEDCE6AF48A03BBFD25E8CD0364141"

definition ecdsa_verify_signature :: "'p ec_lib \<Rightarrow> string \<Rightarrow> string \<Rightarrow> string \<Rightarrow> string \<Rightarrow> bool option" where
  "ecdsa_verify_signature lib r s msg addr =
     (let r_bn = hex_to_bn lib r;
          s_bn = hex_to_bn lib s;
          r_inversed_bn = mod_inverse lib r_bn nmod_bn;
          R1_point = compressed_point lib r_bn False;
          R2_point = compressed_point lib r_bn True;
          z_bn = - int (be_value (openssl_sha256 lib (c_bytes msg)));
          u1_bn = (z_bn * r_inversed_bn) mod nmod_bn;
          u2_bn = (s_bn * r_inversed_bn) mod nmod_bn;
          pub_key_1 = point_hex lib (ec_mul lib u1_bn R1_point u2_bn);
          pub_key_2 = point_hex lib (ec_mul lib u1_bn R2_point u2_bn)
      in case (pub2addr (address_bn lib) (address_stack lib) pub_key_1, pub2addr (address_bn lib) (address_stack lib) pub_key_2) of
           (Some address_1, Some address_2) \<Rightarrow> Some (addr = address_1 \<or> addr = address_2)
         | _ \<Rightarrow> None)"

section \<open>Reference\<close>

text \<open>A DER signature: a sequence of two integers, in the short form of the lengths.\<close>

definition der_signature :: "bytes \<Rightarrow> bytes \<Rightarrow> bytes" where
  "der_signature R S =
     [0x30, of_nat (4 + length R + length S), 2, of_nat (length R)] @ R @ [2, of_nat (length S)] @ S"

text \<open>
  \<open>gen k\<close> is the \<open>k\<close>-th multiple of the base point: \<open>EC_POINT_mul\<close> adds multiples of the base point
  and of a given point, and \<open>BN_mod_inverse\<close> inverts modulo the order.
\<close>

definition curve_laws :: "'p ec_lib \<Rightarrow> (int \<Rightarrow> 'p) \<Rightarrow> bool" where
  "curve_laws lib gen \<longleftrightarrow> (\<forall>u v k. ec_mul lib u (gen k) v = gen ((u + v * k) mod nmod_bn))
     \<and> (\<forall>a. coprime a nmod_bn \<longrightarrow> (mod_inverse lib a nmod_bn * a) mod nmod_bn = 1)"

section \<open>Lemmas\<close>

lemma substr_hex: "p = 2 * m \<Longrightarrow> l = 2 * n \<Longrightarrow> m \<le> length bs \<Longrightarrow> substr (to_hex bs) p l = Some (to_hex (take n (drop m bs)))"
  using substr_to_hex [of m bs n] by simp

lemma hex2dec_byte: "hex2dec (to_hex [b]) = Some b"
  using hex_to_bytes_to_hex [of "[b]"] by (simp add: hex_to_bytes_def to_hex_digits split: option.splits)

lemma hex_len_byte:
  assumes "p = 2 * m" and "m < length bs"
  shows "hex_len (to_hex bs) p = Some (2 * unat (bs ! m))"
proof -
  have "substr (to_hex bs) p 2 = Some (to_hex [bs ! m])"
    using substr_hex [of p m 2 1 bs] assms by (simp add: take_Suc hd_drop_conv_nth)
  then show ?thesis by (simp add: hex_len_def hex2dec_byte)
qed

lemma der_numbers_correct:
  assumes "length R < 128" and "length S < 128"
  shows "der_numbers (to_hex (der_signature R S)) = Some (to_hex R, to_hex S)"
proof -
  let ?d = "der_signature R S"
  have len: "length ?d = 6 + length R + length S" by (simp add: der_signature_def)
  have n3: "?d ! 3 = of_nat (length R)" by (simp add: der_signature_def)
  have n5: "?d ! (5 + length R) = of_nat (length S)" by (simp add: der_signature_def nth_append)
  have u: "unat (of_nat (length R) :: u8) = length R" "unat (of_nat (length S) :: u8) = length S"
    using assms by (simp_all add: unat_of_nat)
  define p where "p = [0x30, of_nat (4 + length R + length S), 2, of_nat (length R)] @ R @ [2 :: u8, of_nat (length S)]"
  have "?d = p @ S" "length p = 6 + length R" by (simp_all add: der_signature_def p_def)
  then have d6: "drop (6 + length R) ?d = S" by simp
  have l1: "hex_len (to_hex ?d) 6 = Some (2 * length R)" using hex_len_byte [of 6 3 ?d] by (simp add: len n3 u)
  have r: "substr (to_hex ?d) 8 (2 * length R) = Some (to_hex R)"
    using substr_hex [of 8 4 "2 * length R" "length R" ?d] len by (simp add: der_signature_def)
  have l2: "hex_len (to_hex ?d) (8 + 2 * length R + 2) = Some (2 * length S)"
    using hex_len_byte [of "8 + 2 * length R + 2" "5 + length R" ?d] len by (simp add: n5 u)
  have s: "substr (to_hex ?d) (8 + 2 * length R + 4) (2 * length S) = Some (to_hex S)"
    using substr_hex [of "8 + 2 * length R + 4" "6 + length R" "2 * length S" "length S" ?d] len d6 by simp
  show ?thesis by (simp only: der_numbers_def l1 r l2 s option.case)
qed

lemma mod_scale: "(a :: int) mod n = b mod n \<Longrightarrow> (c * a - e) mod n = (c * b - e) mod n"
  by (metis mod_diff_left_eq mod_mult_right_eq)

lemma recovered_scalar:
  fixes z s k r d ri n :: int
  assumes "(ri * r) mod n = 1" and "(s * k) mod n = (z + r * d) mod n"
  shows "((- z * ri) mod n + (s * ri) mod n * k) mod n = d mod n"
proof -
  have "((- z * ri) mod n + (s * ri) mod n * k) mod n = (- z * ri + s * ri * k) mod n"
    by (intro mod_add_cong) (simp_all only: mod_mod_trivial mod_mult_left_eq)
  also have "- z * ri + s * ri * k = ri * (s * k) - ri * z" by (simp add: algebra_simps)
  also have "\<dots> mod n = (ri * (z + r * d) - ri * z) mod n" by (rule mod_scale [OF assms(2)])
  also have "ri * (z + r * d) - ri * z = (ri * r) * d" by (simp add: algebra_simps)
  also have "\<dots> mod n = (((ri * r) mod n) * d) mod n" by (simp only: mod_mult_left_eq)
  finally show ?thesis by (simp add: assms(1))
qed

lemma verify_genuine:
  assumes "curve_laws lib gen" and "hex_to_bn lib r = rn" and "hex_to_bn lib s = sn" and "coprime rn nmod_bn"
    and "compressed_point lib rn parity = gen k"
    and "(sn * k) mod nmod_bn = (int (be_value (openssl_sha256 lib (c_bytes msg))) + rn * d) mod nmod_bn"
    and "pub2addr (address_bn lib) (address_stack lib) (point_hex lib (gen (d mod nmod_bn))) = Some addr"
    and "\<And>p. pub2addr (address_bn lib) (address_stack lib) (point_hex lib p) \<noteq> None"
  shows "ecdsa_verify_signature lib r s msg addr = Some True"
proof -
  let ?z = "int (be_value (openssl_sha256 lib (c_bytes msg)))" and ?ri = "mod_inverse lib rn nmod_bn"
  let ?u1 = "(- ?z * ?ri) mod nmod_bn" and ?u2 = "(sn * ?ri) mod nmod_bn"
  have inv: "(?ri * rn) mod nmod_bn = 1" using assms(1,4) by (simp add: curve_laws_def)
  have "ec_mul lib ?u1 (gen k) ?u2 = gen ((?u1 + ?u2 * k) mod nmod_bn)" using assms(1) by (simp only: curve_laws_def)
  also have "(?u1 + ?u2 * k) mod nmod_bn = d mod nmod_bn" by (rule recovered_scalar [OF inv assms(6)])
  finally have pub: "ec_mul lib ?u1 (compressed_point lib rn parity) ?u2 = gen (d mod nmod_bn)" by (simp only: assms(5))
  obtain a where a: "pub2addr (address_bn lib) (address_stack lib) (point_hex lib (ec_mul lib ?u1 (compressed_point lib rn (\<not> parity)) ?u2)) = Some a"
    using assms(8) by blast
  note eq = assms(7) [folded pub]
  show ?thesis
    using a eq by (cases parity) (simp_all add: ecdsa_verify_signature_def Let_def assms(2,3))
qed

definition ec_example :: "int ec_lib" where
  "ec_example = \<lparr>key_ok = (\<lambda>_. True), pubkey_ok = (\<lambda>_. True), openssl_sha256 = (\<lambda>_. [7]), sign_der = (\<lambda>_ _. der_signature [5] [0, 9]),
     verify_der = (\<lambda>_ _ _. 1), bn_to_hex = to_hex, hex_to_bn = (\<lambda>t. int (hex_value t)),
     mod_inverse = (\<lambda>a n. fst (bezw (nat (a mod n)) (nat n))),
     compressed_point = (\<lambda>x odd. if odd then - x else x), ec_mul = (\<lambda>u p v. (u + v * p) mod nmod_bn),
     point_hex = (\<lambda>p. to_hex (be_bytes 33 (nat p))), address_bn = bn_example, address_stack = []\<rparr>"

lemma ec_example_laws: "curve_laws ec_example (\<lambda>k. k)"
proof -
  have "(fst (bezw (nat (a mod nmod_bn)) (nat nmod_bn)) * a) mod nmod_bn = 1" if "coprime a nmod_bn" for a
  proof -
    let ?x = "nat (a mod nmod_bn)" and ?n = "nat nmod_bn"
    have pos: "0 < nmod_bn" by (simp add: nmod_bn_def)
    have n: "int ?x = a mod nmod_bn" "int ?n = nmod_bn" using pos by simp_all
    have "int (gcd ?x ?n) = gcd (a mod nmod_bn) nmod_bn" using n by (simp add: gcd_int_int_eq [symmetric])
    also have "\<dots> = 1" using that gcd_red_int [of a nmod_bn] by (simp add: coprime_iff_gcd_eq_1 gcd.commute)
    finally have "fst (bezw ?x ?n) * (a mod nmod_bn) = 1 + (- snd (bezw ?x ?n)) * nmod_bn"
      using bezw_aux [of ?x ?n] n by (simp add: algebra_simps)
    then have "(fst (bezw ?x ?n) * (a mod nmod_bn)) mod nmod_bn = 1 mod nmod_bn" by (simp only: mod_mult_self1)
    then show ?thesis by (simp add: mod_mult_right_eq) (simp add: nmod_bn_def)
  qed
  then show ?thesis by (simp add: curve_laws_def ec_example_def)
qed

lemma ec_example_address:
  "pub2addr (address_bn ec_example) (address_stack ec_example) (point_hex ec_example p)
    = Some (base58_reference (address_payload [] (be_bytes 33 (nat p))))"
  using pub2addr_payload [of bn_example, OF bn_example_to_hex] by (simp add: ec_example_def)

lemma ec_example_numbers: "hex_to_bn ec_example ''1'' = 1" "hex_to_bn ec_example ''c'' = 12"
  by (simp_all add: ec_example_def) code_simp+

lemma ec_example_equation:
  "12 * 1 mod nmod_bn = (int (be_value (openssl_sha256 ec_example (c_bytes msg))) + 1 * 5) mod nmod_bn"
  by (simp add: ec_example_def be_value_def nmod_bn_def)

text \<open>The example library accepts the signature \<open>(1, 12)\<close> of the key 5 on every message.\<close>

lemma ec_example_verifies:
  "ecdsa_verify_signature ec_example ''1'' ''c'' msg (base58_reference (address_payload [] (be_bytes 33 5))) = Some True"
proof (rule verify_genuine [OF ec_example_laws ec_example_numbers, of False 1 msg 5])
  show "pub2addr (address_bn ec_example) (address_stack ec_example) (point_hex ec_example (5 mod nmod_bn))
      = Some (base58_reference (address_payload [] (be_bytes 33 5)))" by (simp add: ec_example_address nmod_bn_def)
  show "12 * 1 mod nmod_bn = (int (be_value (openssl_sha256 ec_example (c_bytes msg))) + 1 * 5) mod nmod_bn"
    by (rule ec_example_equation)
  show "compressed_point ec_example 1 False = 1" by (simp add: ec_example_def)
qed (simp_all add: ec_example_address)

section \<open>Properties\<close>

text \<open>
  The two numbers that \<open>ecdsa_sign_message\<close> cuts out of the DER text are the ones that were
  encoded: when the library signs and its own check succeeds, the result carries the hexadecimal
  texts of both integers.
\<close>

lemma ecdsa_sign_extracts_numbers:
  assumes "key_ok lib prv" and "pubkey_ok lib prv" and "\<And>bs. bs \<noteq> [] \<Longrightarrow> hd bs \<noteq> 0 \<Longrightarrow> bn_to_hex lib bs = to_hex bs"
    and "sign_der lib prv (openssl_sha256 lib (c_bytes msg)) = der_signature R S"
    and "verify_der lib prv (openssl_sha256 lib (c_bytes msg)) (der_signature R S) = 1" and "length R < 128" and "length S < 128"
  shows "ecdsa_sign_message lib msg prv
    = Some \<lparr>sig_r = to_hex R, sig_s = to_hex S, message_hash = bn_to_hex lib (openssl_sha256 lib (c_bytes msg))\<rparr>"
proof -
  have "bn_to_hex lib (der_signature R S) = to_hex (der_signature R S)" by (rule assms(3)) (simp_all add: der_signature_def)
  then show ?thesis
    using assms der_numbers_correct [OF assms(6,7)] by (simp add: ecdsa_sign_message_def Let_def)
qed



end
