(* ===== verification/Json_Lib.thy ===== *)
theory Json_Lib
  imports Unit_Prelude
begin

text \<open>
  What the program uses of \<open>boost::json\<close> and of \<open>boost::multiprecision::uint256_t\<close>. The values of
  the JSON library are a type parameter \<open>'j\<close>, its functions the fields of a record; each may throw.
  The handlers of the program distinguish exceptions that are \<open>boost::exception\<close>s from other
  \<open>std::exception\<close>s, and so do the two constructors of \<open>exn\<close>.
\<close>

datatype exn = BoostExn string | StdExn string

record 'j json_lib =
  j_parse :: "string \<Rightarrow> exn + 'j"
  j_text :: "'j \<Rightarrow> string"
  j_at :: "'j \<Rightarrow> string \<Rightarrow> exn + 'j"
  j_contains :: "'j \<Rightarrow> string \<Rightarrow> exn + bool"
  j_put :: "'j \<Rightarrow> string \<Rightarrow> string \<Rightarrow> exn + 'j"
  j_object :: "'j \<Rightarrow> exn + 'j"
  j_array :: "'j \<Rightarrow> exn + 'j"
  j_append :: "'j \<Rightarrow> string \<Rightarrow> 'j"
  j_string :: "'j \<Rightarrow> exn + string"
  j_uint64 :: "'j \<Rightarrow> exn + u64"
  j_int :: "'j \<Rightarrow> exn + int"
  j_double_less :: "'j \<Rightarrow> 'j \<Rightarrow> exn + bool"
  j_null :: 'j
  j_empty_object :: 'j
  j_empty_array :: 'j
  u256_of :: "string \<Rightarrow> exn + u256"

definition is_boost_exn :: "exn \<Rightarrow> bool" where
  "is_boost_exn e = (case e of BoostExn _ \<Rightarrow> True | StdExn _ \<Rightarrow> False)"

text \<open>\<open>value_to<std::string>(v.at(key))\<close> and its companions.\<close>

definition string_at :: "'j json_lib \<Rightarrow> 'j \<Rightarrow> string \<Rightarrow> exn + string" where
  "string_at lib v key = res_bind (j_at lib v key) (j_string lib)"

definition uint64_at :: "'j json_lib \<Rightarrow> 'j \<Rightarrow> string \<Rightarrow> exn + u64" where
  "uint64_at lib v key = res_bind (j_at lib v key) (j_uint64 lib)"

definition u256_at :: "'j json_lib \<Rightarrow> 'j \<Rightarrow> string \<Rightarrow> exn + u256" where
  "u256_at lib v key = res_bind (string_at lib v key) (u256_of lib)"

text \<open>Handlers: \<open>catch (const boost::exception &)\<close> and \<open>catch (std::exception &)\<close>.\<close>

definition catch_boost :: "exn + 'a \<Rightarrow> 'a \<Rightarrow> exn + 'a" where
  "catch_boost r v = (case r of Inl e \<Rightarrow> if is_boost_exn e then Inr v else Inl e | Inr x \<Rightarrow> Inr x)"

definition catch_std :: "exn + 'a \<Rightarrow> 'a \<Rightarrow> 'a" where
  "catch_std r v = (case r of Inl e \<Rightarrow> v | Inr x \<Rightarrow> x)"

lemma catch_boost_simps [simp]:
  "catch_boost (Inr x) v = Inr x" "catch_boost (Inl (BoostExn m)) v = Inr v" "catch_boost (Inl (StdExn m)) v = Inl (StdExn m)"
  by (simp_all add: catch_boost_def is_boost_exn_def)

lemma catch_std_simps [simp]: "catch_std (Inr x) v = x" "catch_std (Inl e) v = v"
  by (simp_all add: catch_std_def)

section \<open>A concrete instance\<close>

text \<open>
  A small JSON library for examples: values with their access functions, and a parser given by the
  texts it accepts. Numbers of 256 bits are read in decimal, or in hexadecimal after \<open>0x\<close>.
\<close>

datatype jval = JNull | JStr string | JNum int | JArr "jval list" | JObj "(string \<times> jval) list"

definition decimal_u256 :: "string \<Rightarrow> exn + u256" where
  "decimal_u256 t =
     (if take 2 t = ''0x'' \<and> (\<forall>c \<in> set (drop 2 t). digit_value c \<noteq> None) then Inr (of_nat (hex_value (drop 2 t)))
      else if t \<noteq> [] \<and> (\<forall>c \<in> set t. c \<in> set ''0123456789'')
      then Inr (of_nat (foldl (\<lambda>v c. 10 * v + (of_char c - 48)) 0 t))
      else Inl (StdExn ''unexpected content''))"

definition jval_at :: "jval \<Rightarrow> string \<Rightarrow> exn + jval" where
  "jval_at v key =
     (case v of JObj kvs \<Rightarrow> (case map_of kvs key of Some x \<Rightarrow> Inr x | None \<Rightarrow> Inl (BoostExn ''out of range''))
      | _ \<Rightarrow> Inl (BoostExn ''not an object''))"

definition jval_lib :: "(string \<Rightarrow> jval option) \<Rightarrow> jval json_lib" where
  "jval_lib texts = \<lparr>
     j_parse = (\<lambda>t. case texts t of Some v \<Rightarrow> Inr v | None \<Rightarrow> Inl (BoostExn ''syntax'')),
     j_text = (\<lambda>v. case v of JObj [] \<Rightarrow> ''{}'' | JArr [] \<Rightarrow> ''[]'' | _ \<Rightarrow> ''?''),
     j_at = jval_at,
     j_contains = (\<lambda>v key. case v of JObj kvs \<Rightarrow> Inr (map_of kvs key \<noteq> None) | _ \<Rightarrow> Inl (BoostExn ''not an object'')),
     j_put = (\<lambda>v key t. case v of JObj kvs \<Rightarrow> Inr (JObj ((key, JStr t) # kvs)) | _ \<Rightarrow> Inl (BoostExn ''not an object'')),
     j_object = (\<lambda>v. case v of JObj _ \<Rightarrow> Inr v | _ \<Rightarrow> Inl (BoostExn ''not an object'')),
     j_array = (\<lambda>v. case v of JArr _ \<Rightarrow> Inr v | _ \<Rightarrow> Inl (BoostExn ''not an array'')),
     j_append = (\<lambda>v t. case v of JArr xs \<Rightarrow> JArr (xs @ [JStr t]) | _ \<Rightarrow> v),
     j_string = (\<lambda>v. case v of JStr t \<Rightarrow> Inr t | _ \<Rightarrow> Inl (BoostExn ''not a string'')),
     j_uint64 = (\<lambda>v. case v of JNum n \<Rightarrow> Inr (of_int n) | _ \<Rightarrow> Inl (BoostExn ''not a number'')),
     j_int = (\<lambda>v. case v of JNum n \<Rightarrow> Inr n | _ \<Rightarrow> Inl (BoostExn ''not a number'')),
     j_double_less = (\<lambda>v w. case (v, w) of (JNum m, JNum n) \<Rightarrow> Inr (m < n) | _ \<Rightarrow> Inl (BoostExn ''not a number'')),
     j_null = JNull, j_empty_object = JObj [], j_empty_array = JArr [], u256_of = decimal_u256\<rparr>"

end
