(* ===== verification/Transactions.thy ===== *)
theory Transactions
  imports Sha3 Json_Lib
begin

text \<open>
  The class \<open>Transaction\<close> of \<open>blockchain/transaction/Transaction.h\<close>: its fields, the five
  serialisations, the hash, parsing of requests and comparison. The clock that initialises \<open>date\<close>
  and the JSON library are parameters; the serialisations of token transactions read \<open>extra\<close> and
  may throw.
\<close>

section \<open>Definitions\<close>

definition hexView :: "u256 \<Rightarrow> string" where
  "hexView value = hex_of_nat (unat value)"

record 'j transaction =
  tx_from :: string
  tx_to :: string
  tx_type :: u32
  tx_date :: u64
  tx_extra :: 'j
  tx_hash :: string
  tx_sign :: string
  tx_r :: string
  tx_s :: string
  tx_signP :: string
  tx_rP :: string
  tx_sP :: string
  tx_nonce :: u64
  tx_amount :: u256
  tx_fee :: u64
  tx_pending :: bool

definition Transaction_extra ::
  "u64 \<Rightarrow> string \<Rightarrow> string \<Rightarrow> u64 \<Rightarrow> 'j \<Rightarrow> string \<Rightarrow> string \<Rightarrow> string \<Rightarrow> u256 \<Rightarrow> u64 \<Rightarrow> u64 \<Rightarrow> 'j transaction" where
  "Transaction_extra now fr to ty extra sg r s amount fee nonce =
     \<lparr>tx_from = fr, tx_to = to, tx_type = ucast ty, tx_date = now, tx_extra = extra, tx_hash = '''', tx_sign = sg,
      tx_r = r, tx_s = s, tx_signP = '''', tx_rP = '''', tx_sP = '''', tx_nonce = nonce, tx_amount = amount,
      tx_fee = fee, tx_pending = False\<rparr>"

definition Transaction_plain ::
  "'j json_lib \<Rightarrow> u64 \<Rightarrow> string \<Rightarrow> string \<Rightarrow> u64 \<Rightarrow> string \<Rightarrow> string \<Rightarrow> string \<Rightarrow> u256 \<Rightarrow> u64 \<Rightarrow> u64 \<Rightarrow> 'j transaction" where
  "Transaction_plain lib now fr to ty sg r s amount fee nonce =
     \<lparr>tx_from = fr, tx_to = to, tx_type = ucast ty, tx_date = now, tx_extra = j_null lib, tx_hash = '''', tx_sign = sg,
      tx_r = r, tx_s = s, tx_signP = '''', tx_rP = '''', tx_sP = '''', tx_nonce = nonce, tx_amount = amount,
      tx_fee = fee, tx_pending = False\<rparr>"

text \<open>\<open>operator==\<close> compares every member; the containers compare transactions with it.\<close>

definition tx_equal :: "'j transaction \<Rightarrow> 'j transaction \<Rightarrow> bool" where
  "tx_equal a b \<longleftrightarrow> tx_from a = tx_from b \<and> tx_to a = tx_to b \<and> tx_type a = tx_type b \<and> tx_date a = tx_date b
     \<and> tx_extra a = tx_extra b \<and> tx_hash a = tx_hash b \<and> tx_sign a = tx_sign b \<and> tx_r a = tx_r b \<and> tx_s a = tx_s b
     \<and> tx_signP a = tx_signP b \<and> tx_rP a = tx_rP b \<and> tx_sP a = tx_sP b \<and> tx_nonce a = tx_nonce b
     \<and> tx_amount a = tx_amount b \<and> tx_fee a = tx_fee b \<and> tx_pending a = tx_pending b"

definition tx_unequal :: "'j transaction \<Rightarrow> 'j transaction \<Rightarrow> bool" where
  "tx_unequal a b \<longleftrightarrow> \<not> tx_equal b a"

definition setProverData :: "'j transaction \<Rightarrow> string \<Rightarrow> string \<Rightarrow> string \<Rightarrow> 'j transaction" where
  "setProverData tx sg r s = tx \<lparr>tx_signP := s\<rparr>"

text \<open>The three members of \<open>extra\<close> that the serialisations of token transactions print.\<close>

definition extra_texts :: "'j json_lib \<Rightarrow> 'j \<Rightarrow> exn + string \<times> string \<times> string" where
  "extra_texts lib ex =
     res_bind (string_at lib ex ''name'') (\<lambda>nm. res_bind (string_at lib ex ''value'') (\<lambda>vl.
     res_bind (string_at lib ex ''bytecode'') (\<lambda>bc. Inr (nm, vl, bc))))"

definition serializeWithoutSignatures :: "'j json_lib \<Rightarrow> 'j transaction \<Rightarrow> exn + string" where
  \<open>serializeWithoutSignatures lib tx =
     (if tx_type tx = 0
      then Inr (''{"from":"'' @ tx_from tx @ ''", "to":"'' @ tx_to tx @ ''", "type":'' @ dec_of_nat (unat (tx_type tx))
        @ '', "fee":'' @ dec_of_nat (unat (tx_fee tx)) @ '', "nonce":'' @ dec_of_nat (unat (tx_nonce tx))
        @ '', "amount":"'' @ ''0x'' @ hexView (tx_amount tx) @ ''"}'')
      else res_bind (extra_texts lib (tx_extra tx)) (\<lambda>(nm, vl, bc).
        Inr (''{"from":"'' @ tx_from tx @ ''", "to":"'' @ tx_to tx @ ''", "amount":"'' @ ''0x'' @ hexView (tx_amount tx)
        @ ''", "type":'' @ dec_of_nat (unat (tx_type tx)) @ '', "extradata":{'' @ ''"name":"'' @ nm @ ''", "value":'' @ vl
        @ '', "bytecode": "'' @ bc @ ''"}'' @ '', "fee":'' @ dec_of_nat (unat (tx_fee tx)) @ '', "nonce":''
        @ dec_of_nat (unat (tx_nonce tx)) @ ''}'')))\<close>

definition serializeForResponse :: "'j json_lib \<Rightarrow> 'j transaction \<Rightarrow> exn + string" where
  \<open>serializeForResponse lib tx =
     (if tx_type tx = 0
      then Inr (''{"from":"'' @ tx_from tx @ ''", "to":"'' @ tx_to tx @ ''", "type":'' @ dec_of_nat (unat (tx_type tx))
        @ '', "fee":'' @ dec_of_nat (unat (tx_fee tx)) @ '', "nonce":'' @ dec_of_nat (unat (tx_nonce tx))
        @ '', "amount":"'' @ ''0x'' @ hexView (tx_amount tx) @ ''", "pending":'' @ (if tx_pending tx then ''1'' else ''0'') @ ''}'')
      else res_bind (extra_texts lib (tx_extra tx)) (\<lambda>(nm, vl, bc).
        Inr (''{"from":"'' @ tx_from tx @ ''", "to":"'' @ tx_to tx @ ''", "amount":"'' @ ''0x'' @ hexView (tx_amount tx)
        @ ''", "type":'' @ dec_of_nat (unat (tx_type tx)) @ '', "extradata":{'' @ ''"name":"'' @ nm @ ''", "value":'' @ vl
        @ '', "bytecode": "'' @ bc @ ''"}'' @ '', "fee":'' @ dec_of_nat (unat (tx_fee tx)) @ '', "nonce":''
        @ dec_of_nat (unat (tx_nonce tx)) @ ''}'')))\<close>

text \<open>
  The text that \<open>serializeForSending\<close>, \<open>serializeToRawTransaction\<close> and \<open>serializeToJsonTransaction\<close> print,
  where the parameter is what separates the amount from the type of a token transaction.
\<close>

definition signed_text :: "string \<Rightarrow> 'j json_lib \<Rightarrow> 'j transaction \<Rightarrow> exn + string" where
  \<open>signed_text after_amount lib tx =
     (if tx_type tx = 0
      then Inr (''{"from":"'' @ tx_from tx @ ''", "to":"'' @ tx_to tx @ ''", "amount":"'' @ ''0x'' @ hexView (tx_amount tx)
        @ ''", "type":'' @ dec_of_nat (unat (tx_type tx)) @ '', "date":'' @ dec_of_nat (unat (tx_date tx))
        @ '', "fee":'' @ dec_of_nat (unat (tx_fee tx)) @ '', "nonce":'' @ dec_of_nat (unat (tx_nonce tx))
        @ '', "signature":"'' @ tx_sign tx @ ''", "r":"'' @ tx_r tx @ ''", "s":"'' @ tx_s tx @ ''"}'')
      else res_bind (extra_texts lib (tx_extra tx)) (\<lambda>(nm, vl, bc).
        Inr (''{"from":"'' @ tx_from tx @ ''", "to":"'' @ tx_to tx @ ''", "amount":"'' @ ''0x'' @ hexView (tx_amount tx)
        @ after_amount @ dec_of_nat (unat (tx_type tx)) @ '', "date":'' @ dec_of_nat (unat (tx_date tx))
        @ '', "extradata":{'' @ ''"name":"'' @ nm @ ''", "value":"'' @ vl @ ''", "bytecode": "'' @ bc @ ''"}''
        @ '', "fee":'' @ dec_of_nat (unat (tx_fee tx)) @ '', "nonce":'' @ dec_of_nat (unat (tx_nonce tx))
        @ '', "signature":"'' @ tx_sign tx @ ''", "r":"'' @ tx_r tx @ ''", "s":"'' @ tx_s tx @ ''"}'')))\<close>

definition serializeForSending :: "'j json_lib \<Rightarrow> 'j transaction \<Rightarrow> exn + string" where
  \<open>serializeForSending = signed_text ''", "type":''\<close>

definition serializeToRawTransaction :: "'j json_lib \<Rightarrow> 'j transaction \<Rightarrow> exn + string" where
  \<open>serializeToRawTransaction = signed_text ''", "type":''\<close>

definition serializeToJsonTransaction :: "'j json_lib \<Rightarrow> 'j transaction \<Rightarrow> exn + string" where
  \<open>serializeToJsonTransaction = signed_text '', "type":''\<close>

definition generateHash :: "'j json_lib \<Rightarrow> 'j transaction \<Rightarrow> exn + 'j transaction" where
  "generateHash lib tx =
     res_bind (serializeToRawTransaction lib tx) (\<lambda>raw. Inr (tx \<lparr>tx_hash := sha3_256 (sha3_256 raw)\<rparr>))"

text \<open>\<open>obj[key]\<close> on an object gives null for a missing member.\<close>

definition obj_index :: "'j json_lib \<Rightarrow> 'j \<Rightarrow> string \<Rightarrow> exn + 'j" where
  "obj_index lib ob key = res_bind (j_contains lib ob key) (\<lambda>c. if c then j_at lib ob key else Inr (j_null lib))"

definition plain_of :: "'j json_lib \<Rightarrow> u64 \<Rightarrow> 'j \<Rightarrow> exn + 'j transaction" where
  "plain_of lib now v =
     res_bind (string_at lib v ''from'') (\<lambda>fr. res_bind (string_at lib v ''to'') (\<lambda>to.
     res_bind (uint64_at lib v ''type'') (\<lambda>ty. res_bind (string_at lib v ''signature'') (\<lambda>sg.
     res_bind (string_at lib v ''r'') (\<lambda>r. res_bind (string_at lib v ''s'') (\<lambda>s.
     res_bind (u256_at lib v ''amount'') (\<lambda>amount. res_bind (uint64_at lib v ''fee'') (\<lambda>fee.
     res_bind (uint64_at lib v ''nonce'') (\<lambda>nonce.
       Inr (Transaction_plain lib now fr to ty sg r s amount fee nonce))))))))))"

definition parse_transaction :: "'j json_lib \<Rightarrow> u64 \<Rightarrow> 'j \<Rightarrow> exn + 'j transaction" where
  "parse_transaction lib now params =
     res_bind (j_object lib params) (\<lambda>request. res_bind (obj_index lib request ''params'') (\<lambda>p.
     res_bind (j_object lib p) (\<lambda>v. res_bind (uint64_at lib v ''type'') (\<lambda>ty.
       if ty = 0 then plain_of lib now v
       else
        res_bind (string_at lib v ''from'') (\<lambda>fr. res_bind (string_at lib v ''to'') (\<lambda>to.
        res_bind (j_at lib v ''extradata'') (\<lambda>extra. res_bind (string_at lib v ''signature'') (\<lambda>sg.
        res_bind (string_at lib v ''r'') (\<lambda>r. res_bind (string_at lib v ''s'') (\<lambda>s.
        res_bind (u256_at lib v ''amount'') (\<lambda>amount. res_bind (uint64_at lib v ''fee'') (\<lambda>fee.
        res_bind (uint64_at lib v ''nonce'') (\<lambda>nonce.
          Inr (Transaction_extra now fr to ty extra sg r s amount fee nonce))))))))))))))"

definition parseToGenesis :: "'j json_lib \<Rightarrow> u64 \<Rightarrow> string \<Rightarrow> exn + 'j transaction" where
  "parseToGenesis lib now serializedTx = res_bind (j_parse lib serializedTx) (plain_of lib now)"

section \<open>Lemmas\<close>

text \<open>So the comparison of the source is equality of records, as the containers of the model use it.\<close>

lemma tx_equal_iff: "tx_equal a b \<longleftrightarrow> a = b" "tx_unequal a b \<longleftrightarrow> a \<noteq> b"
  by (cases a; cases b; auto simp: tx_equal_def tx_unequal_def)+

lemma split_field:
  "c \<notin> set a \<Longrightarrow> c \<notin> set b \<Longrightarrow> a @ c # x = b @ c # y \<longleftrightarrow> a = b \<and> x = y"
proof (induction a arbitrary: b)
  case (Cons d a)
  then show ?case by (cases b) auto
qed (auto simp: Cons_eq_append_conv)

lemma dec_of_nat_chars: "set (dec_of_nat n) \<subseteq> set ''0123456789''"
proof (induction n rule: dec_of_nat.induct)
  case (1 n)
  define D where "D = ''0123456789''"
  have "D ! m \<in> set D" if "m < 10" for m using that by (intro nth_mem) (simp add: D_def)
  with 1 show ?case by (subst dec_of_nat.simps, fold D_def) auto
qed

lemma digit_nth_inj: "m < 10 \<Longrightarrow> n < 10 \<Longrightarrow> ''0123456789'' ! m = ''0123456789'' ! n \<longleftrightarrow> m = n"
  by (rule nth_eq_iff_index_eq) (simp_all add: eval_nat_numeral)

lemma dec_of_nat_length: "length (dec_of_nat n) = 1 \<longleftrightarrow> n < 10" "dec_of_nat n \<noteq> []"
proof -
  have ne: "dec_of_nat m \<noteq> []" for m by (subst dec_of_nat.simps) simp
  then show "dec_of_nat n \<noteq> []" .
  show "length (dec_of_nat n) = 1 \<longleftrightarrow> n < 10" by (subst dec_of_nat.simps) (simp add: ne)
qed

lemma dec_of_nat_inj: "dec_of_nat m = dec_of_nat n \<longleftrightarrow> m = n"
proof (induction m arbitrary: n rule: dec_of_nat.induct)
  case (1 m)
  show ?case
  proof (cases "m < 10 \<or> n < 10")
    case True
    show ?thesis
    proof
      assume eq: "dec_of_nat m = dec_of_nat n"
      then have "m < 10" "n < 10" using True dec_of_nat_length(1) [of m] dec_of_nat_length(1) [of n] by auto
      with eq show "m = n" using digit_nth_inj [of m n] by (simp add: dec_of_nat.simps)
    qed simp
  next
    case False
    then have "dec_of_nat m = dec_of_nat n \<longleftrightarrow> m div 10 = n div 10 \<and> m mod 10 = n mod 10"
      using "1.IH" [of "n div 10"] digit_nth_inj [of "m mod 10" "n mod 10"]
      by (simp add: dec_of_nat.simps [of m] dec_of_nat.simps [of n] del: nth_Cons_numeral)
    also have "\<dots> \<longleftrightarrow> m = n" by (metis div_mult_mod_eq)
    finally show ?thesis .
  qed
qed

lemma number_chars:
  "CHR '','' \<notin> set (dec_of_nat n)" "CHR 0x22 \<notin> set (dec_of_nat n)" "CHR 0x22 \<notin> set (hexView v)"
proof -
  show "CHR '','' \<notin> set (dec_of_nat n)" "CHR 0x22 \<notin> set (dec_of_nat n)" using dec_of_nat_chars [of n] by auto
  have "digit_value (CHR 0x22) = None" by code_simp
  then have "CHR 0x22 \<noteq> hex_digit d" if "d < 16" for d
    using digit_value_hex_digit [OF that] by auto
  then show "CHR 0x22 \<notin> set (hexView v)" using hex_of_nat_digits by (fastforce simp: hexView_def)
qed

lemma hexView_inj: "hexView v = hexView w \<longleftrightarrow> v = w"
  by (simp add: hexView_def hex_of_nat_inj word_unat_eq_iff)

text \<open>A native transfer none of whose texts contains a quotation mark.\<close>

definition plain_transfer :: "'j transaction \<Rightarrow> bool" where
  "plain_transfer tx \<longleftrightarrow> tx_type tx = 0 \<and> (\<forall>t \<in> {tx_from tx, tx_to tx, tx_sign tx, tx_r tx, tx_s tx}. CHR 0x22 \<notin> set t)"

text \<open>Two transactions that agree in everything the network identifies them by.\<close>

definition same_content :: "'j transaction \<Rightarrow> 'j transaction \<Rightarrow> bool" where
  "same_content a b \<longleftrightarrow> tx_from a = tx_from b \<and> tx_to a = tx_to b \<and> tx_amount a = tx_amount b \<and> tx_date a = tx_date b
     \<and> tx_fee a = tx_fee b \<and> tx_nonce a = tx_nonce b \<and> tx_sign a = tx_sign b \<and> tx_r a = tx_r b \<and> tx_s a = tx_s b"

lemma raw_text_inj:
  assumes "plain_transfer a" and "plain_transfer b" and "serializeToRawTransaction lib a = serializeToRawTransaction lib b"
  shows "same_content a b"
  using assms
  by (simp add: plain_transfer_def serializeToRawTransaction_def signed_text_def split_field number_chars
      dec_of_nat_inj hexView_inj same_content_def word_unat_eq_iff [of "tx_date a"] word_unat_eq_iff [of "tx_fee a"]
      word_unat_eq_iff [of "tx_nonce a"])

section \<open>Properties\<close>


definition tx_example :: "jval transaction" where
  "tx_example = Transaction_extra 5 ''alice'' ''bob'' 0 JNull ''h'' ''12'' ''34'' 7 1 2"


end
