(* ===== verification/Accounts.thy ===== *)
theory Accounts
  imports Transactions Hex_Codec
begin

text \<open>
  \<open>account/AbstractAccount.h\<close>, \<open>account/Token.h\<close> and \<open>account/WalletAccount.h\<close>: token descriptions and
  wallet accounts with their native balance, token balances and history. A null pointer that a
  factory returns is \<open>None\<close>; exceptions that the code does not catch are \<open>Inl\<close>.
\<close>

section \<open>Definitions\<close>

definition uint256_2string :: "u256 \<Rightarrow> string" where
  "uint256_2string value = hex_of_nat (unat value)"

definition uint256_sum_2string :: "u256 \<Rightarrow> u256 \<Rightarrow> string" where
  "uint256_sum_2string value1 value2 = hex_of_nat (unat (value1 + value2))"

definition uint256_diff_2string :: "u256 \<Rightarrow> u256 \<Rightarrow> string" where
  "uint256_diff_2string value1 value2 = hex_of_nat (unat (value1 - value2))"

record token =
  tok_name :: string
  tok_bytecode :: string
  tok_supply :: u256

definition Token_parse :: "'j json_lib \<Rightarrow> 'j \<Rightarrow> token option" where
  "Token_parse lib ex =
     catch_std
       (res_bind (string_at lib ex ''bytecode'') (\<lambda>bytecode.
        res_bind (j_parse lib (hex_to_ascii bytecode)) (\<lambda>parsedData.
        res_bind (string_at lib parsedData ''name'') (\<lambda>nm.
        res_bind (u256_at lib parsedData ''supply'') (\<lambda>supply.
          Inr (Some \<lparr>tok_name = nm, tok_bytecode = bytecode, tok_supply = supply\<rparr>)))))) None"

definition Token_serialize :: "token \<Rightarrow> string" where
  \<open>Token_serialize t =
     ''{"name":"'' @ tok_name t @ ''","bytecode":"'' @ tok_bytecode t @ ''", "supply":"'' @ uint256_2string (tok_supply t) @ ''"}''\<close>

datatype WalletErrorsCode =
  cOk | cLowNativeTokenBalance | cTokenBalanceNotFound | cLowTokenBalance | cEmptyListsOfPreviousTransactions

record 'j wallet =
  w_address :: string
  w_balance :: u256
  w_nonce :: u64
  w_tokens :: 'j
  w_outputs :: 'j
  w_inputs :: 'j
  w_changed :: bool

text \<open>
  The constructors; each that takes token balances overwrites them with the empty object, and the
  ones without history start with empty arrays.
\<close>

definition WalletAccount_stored :: "'j json_lib \<Rightarrow> string \<Rightarrow> u256 \<Rightarrow> 'j \<Rightarrow> u64 \<Rightarrow> 'j wallet" where
  "WalletAccount_stored lib addr bal tokens nonce =
     \<lparr>w_address = addr, w_balance = bal, w_nonce = nonce, w_tokens = j_empty_object lib,
      w_outputs = j_empty_array lib, w_inputs = j_empty_array lib, w_changed = False\<rparr>"

text \<open>
  The constructors and setters that take arrays pass on only the memory resource of their argument
  (\<open>storage()\<close>), which constructs an empty array.
\<close>

definition WalletAccount_default :: "'j json_lib \<Rightarrow> 'j wallet" where
  "WalletAccount_default lib =
     \<lparr>w_address = '''', w_balance = 0, w_nonce = 0, w_tokens = j_empty_object lib,
      w_outputs = j_empty_array lib, w_inputs = j_empty_array lib, w_changed = False\<rparr>"

definition WalletAccount_history :: "'j json_lib \<Rightarrow> string \<Rightarrow> u256 \<Rightarrow> 'j \<Rightarrow> 'j \<Rightarrow> 'j \<Rightarrow> u64 \<Rightarrow> 'j wallet" where
  "WalletAccount_history lib addr bal tokens outputs inputs nonce =
     \<lparr>w_address = addr, w_balance = bal, w_nonce = nonce, w_tokens = j_empty_object lib,
      w_outputs = j_empty_array lib, w_inputs = j_empty_array lib, w_changed = False\<rparr>"

definition WalletAccount_tokens :: "'j json_lib \<Rightarrow> string \<Rightarrow> u256 \<Rightarrow> 'j \<Rightarrow> 'j wallet" where
  "WalletAccount_tokens lib addr bal tokens =
     \<lparr>w_address = addr, w_balance = bal, w_nonce = 0, w_tokens = j_empty_object lib,
      w_outputs = j_empty_array lib, w_inputs = j_empty_array lib, w_changed = False\<rparr>"

definition setTxOutputs :: "'j json_lib \<Rightarrow> 'j wallet \<Rightarrow> 'j \<Rightarrow> 'j wallet" where
  "setTxOutputs lib w outputs = w \<lparr>w_outputs := j_empty_array lib\<rparr>"

definition setTxInputs :: "'j json_lib \<Rightarrow> 'j wallet \<Rightarrow> 'j \<Rightarrow> 'j wallet" where
  "setTxInputs lib w inputs = w \<lparr>w_inputs := j_empty_array lib\<rparr>"

definition createEmptyWallet :: "'j json_lib \<Rightarrow> string \<Rightarrow> 'j wallet" where
  "createEmptyWallet lib addr =
     \<lparr>w_address = addr, w_balance = 0, w_nonce = 0, w_tokens = j_empty_object lib,
      w_outputs = j_empty_array lib, w_inputs = j_empty_array lib, w_changed = False\<rparr>"

text \<open>\<open>json::parse\<close> with an error code gives null instead of throwing.\<close>

definition parse_ec :: "'j json_lib \<Rightarrow> string \<Rightarrow> 'j" where
  "parse_ec lib text = catch_std (j_parse lib text) (j_null lib)"

definition createPtrWallet :: "'j json_lib \<Rightarrow> string \<Rightarrow> exn + 'j wallet option" where
  "createPtrWallet lib text =
     catch_boost
       (let v = parse_ec lib text in
        res_bind (string_at lib v ''address'') (\<lambda>addr.
        res_bind (res_bind (j_at lib v ''tokensBalance'') (j_object lib)) (\<lambda>tokens.
        res_bind (u256_at lib v ''balance'') (\<lambda>bal.
        res_bind (res_bind (j_at lib v ''nonce'') (j_int lib)) (\<lambda>nonce.
          Inr (Some (WalletAccount_stored lib addr bal tokens (of_int nonce)))))))) None"

definition parseWallet :: "'j json_lib \<Rightarrow> string option \<Rightarrow> exn + 'j wallet option" where
  "parseWallet lib ptr =
     (case ptr of
        None \<Rightarrow> Inr None
      | Some text \<Rightarrow>
          catch_boost
            (let v = parse_ec lib text in
             res_bind (string_at lib v ''address'') (\<lambda>addr.
             res_bind (res_bind (j_at lib v ''tokensBalance'') (j_object lib)) (\<lambda>tokens.
             res_bind (u256_at lib v ''balance'') (\<lambda>bal.
             res_bind (res_bind (j_at lib v ''nonce'') (j_int lib)) (\<lambda>nonce.
               Inr (Some (WalletAccount_stored lib addr bal tokens (of_int nonce)))))))) None)"

definition wallet_serialize :: "'j json_lib \<Rightarrow> 'j wallet \<Rightarrow> string" where
  \<open>wallet_serialize lib w =
     ''{"address":"'' @ w_address w @ ''", "balance":"'' @ ''0x'' @ hex_of_nat (unat (w_balance w)) @ ''", "nonce":''
       @ dec_of_nat (unat (w_nonce w))
       @ (if w_tokens w \<noteq> j_null lib then '', "tokensBalance":'' @ j_text lib (w_tokens w) else '''') @ ''}''\<close>

definition increase :: "'j json_lib \<Rightarrow> 'j wallet \<Rightarrow> u256 \<Rightarrow> string \<Rightarrow> 'j wallet" where
  "increase lib w value inputHash =
     w \<lparr>w_balance := w_balance w + value, w_inputs := j_append lib (w_inputs w) inputHash, w_changed := True\<rparr>"

definition subtract :: "'j json_lib \<Rightarrow> 'j wallet \<Rightarrow> u256 \<Rightarrow> string \<Rightarrow> WalletErrorsCode \<times> 'j wallet" where
  "subtract lib w value outputHash =
     (if w_balance w < value then (cLowNativeTokenBalance, w)
      else (cOk, w \<lparr>w_balance := w_balance w - value, w_outputs := j_append lib (w_outputs w) outputHash, w_changed := True\<rparr>))"

text \<open>\<open>tokensBalance.as_object()[name]\<close> read as a number.\<close>

definition token_balance :: "'j json_lib \<Rightarrow> 'j wallet \<Rightarrow> string \<Rightarrow> exn + u256" where
  "token_balance lib w nm =
     res_bind (obj_index lib (w_tokens w) nm) (\<lambda>v. res_bind (j_string lib v) (u256_of lib))"

definition subtractToken ::
  "'j json_lib \<Rightarrow> 'j wallet \<Rightarrow> u256 \<Rightarrow> string \<Rightarrow> string \<Rightarrow> exn + WalletErrorsCode \<times> 'j wallet" where
  "subtractToken lib w value inputHash tokenName =
     res_bind (j_contains lib (w_tokens w) tokenName) (\<lambda>has.
       if \<not> has then Inr (cTokenBalanceNotFound, w)
       else res_bind (token_balance lib w tokenName) (\<lambda>bal.
         if bal < value then Inr (cLowTokenBalance, w)
         else res_bind (j_put lib (w_tokens w) tokenName (uint256_diff_2string bal value)) (\<lambda>tokens.
           Inr (cOk, w \<lparr>w_tokens := tokens, w_changed := True\<rparr>))))"

definition increaseToken :: "'j json_lib \<Rightarrow> 'j wallet \<Rightarrow> u256 \<Rightarrow> string \<Rightarrow> string \<Rightarrow> exn + 'j wallet" where
  "increaseToken lib w value inputHash tokenName =
     res_bind (j_contains lib (w_tokens w) tokenName) (\<lambda>has.
       if \<not> has
       then res_bind (j_put lib (w_tokens w) tokenName (uint256_2string value)) (\<lambda>tokens.
         Inr (w \<lparr>w_tokens := tokens, w_changed := True\<rparr>))
       else res_bind (token_balance lib w tokenName) (\<lambda>bal.
         res_bind (j_put lib (w_tokens w) tokenName (uint256_sum_2string bal value)) (\<lambda>tokens.
           Inr (w \<lparr>w_tokens := tokens, w_changed := True\<rparr>))))"

definition parseHistory :: "'j json_lib \<Rightarrow> 'j wallet \<Rightarrow> string \<Rightarrow> (exn + bool) \<times> 'j wallet" where
  "parseHistory lib w text =
     (let v = parse_ec lib text in
      case res_bind (j_at lib v ''out'') (j_array lib) of
        Inl e \<Rightarrow> (if is_boost_exn e then Inr False else Inl e, w)
      | Inr outs \<Rightarrow>
         (let w' = w \<lparr>w_outputs := outs\<rparr> in
          case res_bind (j_at lib v ''in'') (j_array lib) of
            Inl e \<Rightarrow> (if is_boost_exn e then Inr False else Inl e, w')
          | Inr ins \<Rightarrow> (Inr True, w' \<lparr>w_inputs := ins\<rparr>)))"

definition serializeHistory :: "'j json_lib \<Rightarrow> 'j wallet \<Rightarrow> string" where
  \<open>serializeHistory lib w = ''{"out":'' @ j_text lib (w_outputs w) @ '', "in":'' @ j_text lib (w_inputs w) @ ''}''\<close>

definition isValidNonce :: "'j wallet \<Rightarrow> 'j transaction \<Rightarrow> bool" where
  "isValidNonce w tx \<longleftrightarrow> w_nonce w \<noteq> tx_nonce tx"

definition compareNativeTokenBalance :: "'j json_lib \<Rightarrow> 'j wallet \<Rightarrow> 'j \<Rightarrow> exn + int" where
  "compareNativeTokenBalance lib w amount =
     res_bind (res_bind (j_string lib amount) (u256_of lib)) (\<lambda>n.
       Inr (if w_balance w < n then -1 else if n < w_balance w then 1 else 0))"

definition compareTokenBalance :: "'j json_lib \<Rightarrow> 'j wallet \<Rightarrow> 'j \<Rightarrow> 'j \<Rightarrow> exn + int" where
  "compareTokenBalance lib w amount tokenName =
     res_bind (res_bind (j_string lib amount) (u256_of lib)) (\<lambda>n.
     res_bind (j_string lib tokenName) (\<lambda>nm. res_bind (token_balance lib w nm) (\<lambda>bal.
       Inr (if bal < n then -1 else if n < bal then 1 else 0))))"

section \<open>Lemmas\<close>

lemma increase_simps [simp]:
  "w_balance (increase lib w v h) = w_balance w + v" "w_address (increase lib w v h) = w_address w"
  "w_nonce (increase lib w v h) = w_nonce w" "w_tokens (increase lib w v h) = w_tokens w"
  "w_outputs (increase lib w v h) = w_outputs w"
  by (simp_all add: increase_def)

lemma subtract_simps:
  "w_balance (snd (subtract lib w v h)) = (if w_balance w < v then w_balance w else w_balance w - v)"
  "w_address (snd (subtract lib w v h)) = w_address w" "w_nonce (snd (subtract lib w v h)) = w_nonce w"
  "w_tokens (snd (subtract lib w v h)) = w_tokens w" "w_inputs (snd (subtract lib w v h)) = w_inputs w"
  "fst (subtract lib w v h) = cOk \<longleftrightarrow> v \<le> w_balance w"
  by (auto simp: subtract_def)

lemma parseHistory_keeps [simp]:
  "w_balance (snd (parseHistory lib w text)) = w_balance w" "w_address (snd (parseHistory lib w text)) = w_address w"
  "w_nonce (snd (parseHistory lib w text)) = w_nonce w" "w_tokens (snd (parseHistory lib w text)) = w_tokens w"
  by (simp_all add: parseHistory_def Let_def split: sum.splits)

text \<open>Every constructor gives an account without tokens and without history, whatever it is given.\<close>

lemma constructors_start_empty:
  assumes "w \<in> {WalletAccount_stored lib a b t n, WalletAccount_history lib a b t outs ins n, WalletAccount_tokens lib a b t,
    WalletAccount_default lib, createEmptyWallet lib a}"
  shows "w_tokens w = j_empty_object lib \<and> w_outputs w = j_empty_array lib \<and> w_inputs w = j_empty_array lib \<and> \<not> w_changed w"
  using assms
  by (auto simp: WalletAccount_stored_def WalletAccount_history_def WalletAccount_tokens_def WalletAccount_default_def createEmptyWallet_def)

lemma setters_clear_history:
  "setTxInputs lib (setTxOutputs lib w outs) ins = setTxInputs lib (setTxOutputs lib w outs') ins'"
  by (simp add: setTxInputs_def setTxOutputs_def)

text \<open>
  What reading back a stored account relies on: the parser returns the members that were printed,
  and \<open>uint256_t\<close> reads hexadecimal text.
\<close>

definition reads_wallet :: "'j json_lib \<Rightarrow> 'j wallet \<Rightarrow> bool" where
  "reads_wallet lib w \<longleftrightarrow>
     (\<exists>v t. j_parse lib (wallet_serialize lib w) = Inr v \<and> string_at lib v ''address'' = Inr (w_address w)
        \<and> string_at lib v ''balance'' = Inr (''0x'' @ hex_of_nat (unat (w_balance w)))
        \<and> res_bind (j_at lib v ''nonce'') (j_int lib) = Inr (uint (w_nonce w))
        \<and> j_at lib v ''tokensBalance'' = Inr t \<and> j_object lib t = Inr (w_tokens w))
     \<and> u256_of lib (''0x'' @ hex_of_nat (unat (w_balance w))) = Inr (w_balance w)"

section \<open>Properties\<close>

text \<open>
  A stored account is read back with its address, balance and nonce, but every token balance
  and the history are lost: the constructor that \<open>createPtrWallet\<close> and \<open>parseWallet\<close> use replaces
  the token balances by the empty object.
\<close>

lemma wallet_reload_loses_tokens:
  assumes "reads_wallet lib w"
  shows "createPtrWallet lib (wallet_serialize lib w) =
      Inr (Some \<lparr>w_address = w_address w, w_balance = w_balance w, w_nonce = w_nonce w, w_tokens = j_empty_object lib,
        w_outputs = j_empty_array lib, w_inputs = j_empty_array lib, w_changed = False\<rparr>)
    \<and> parseWallet lib (Some (wallet_serialize lib w)) = createPtrWallet lib (wallet_serialize lib w)"
  using assms
  by (auto simp: reads_wallet_def createPtrWallet_def parseWallet_def parse_ec_def u256_at_def WalletAccount_stored_def Let_def)

end
