(* ===== verification/Containers.thy ===== *)
theory Containers
  imports Json_Lib "HOL-Library.Multiset"
begin

text \<open>
  The locked containers \<open>unit::vector\<close> and \<open>unit::list\<close> of \<open>datastructures/containers\<close>.
  Every method takes the lock for its own duration only and forwards to the standard container, so
  each is one function on lists here; what the standard leaves undefined
  (\<open>front\<close>, \<open>back\<close> and \<open>pop_back\<close> of an empty container, an \<open>erase\<close> past the end) is \<open>None\<close>.
\<close>

section \<open>Definitions\<close>

definition emplace_back :: "'a list \<Rightarrow> 'a \<Rightarrow> 'a list" where
  "emplace_back storage u = storage @ [u]"

definition pop_back :: "'a list \<Rightarrow> 'a list option" where
  "pop_back storage = (if storage = [] then None else Some (butlast storage))"

definition front :: "'a list \<Rightarrow> 'a option" where
  "front storage = (if storage = [] then None else Some (hd storage))"

text \<open>The constant overload of \<open>front\<close> forwards to \<open>back\<close>.\<close>

definition front_const :: "'a list \<Rightarrow> 'a option" where
  "front_const storage = (if storage = [] then None else Some (last storage))"

definition insert_front :: "'a list \<Rightarrow> 'a list \<Rightarrow> 'a list" where
  "insert_front storage xs = xs @ storage"

definition erase_prefix :: "'a list \<Rightarrow> nat \<Rightarrow> 'a list option" where
  "erase_prefix storage n = (if n \<le> length storage then Some (drop n storage) else None)"

definition list_reverse :: "'a list \<Rightarrow> 'a list" where
  "list_reverse storage = storage"

text \<open>
  \<open>vector::remove\<close> calls \<open>std::remove\<close> and drops its result: the elements that are kept are copied
  to the front in order, and the container keeps its size, so its tail stays as it was (the
  element type here is copied, not moved).
\<close>

definition vector_remove :: "'a list \<Rightarrow> 'a \<Rightarrow> 'a list" where
  "vector_remove storage t =
     (let kept = filter (\<lambda>x. x \<noteq> t) storage in kept @ drop (length kept) storage)"

definition list_remove :: "'a list \<Rightarrow> 'a \<Rightarrow> 'a list" where
  "list_remove storage t = filter (\<lambda>x. x \<noteq> t) storage"

text \<open>
  The other methods. Iterators are positions from the beginning; \<open>at\<close> throws outside the container,
  \<open>operator[]\<close> and a position behind the end are undefined.
\<close>

definition list_back :: "'a list \<Rightarrow> 'a option" where
  "list_back storage = (if storage = [] then None else Some (last storage))"

definition vector_index :: "'a list \<Rightarrow> nat \<Rightarrow> 'a option" where
  "vector_index storage n = (if n < length storage then Some (storage ! n) else None)"

definition vector_at :: "'a list \<Rightarrow> nat \<Rightarrow> exn + 'a" where
  "vector_at storage n = (if n < length storage then Inr (storage ! n) else Inl (StdExn ''out_of_range''))"

definition resize :: "'a list \<Rightarrow> nat \<Rightarrow> 'a \<Rightarrow> 'a list" where
  "resize storage n c = take n storage @ replicate (n - length storage) c"

definition assign_n :: "'a list \<Rightarrow> nat \<Rightarrow> 'a \<Rightarrow> 'a list" where
  "assign_n storage n u = replicate n u"

definition assign_range :: "'a list \<Rightarrow> 'a list \<Rightarrow> 'a list" where
  "assign_range storage xs = xs"

definition push_front :: "'a list \<Rightarrow> 'a \<Rightarrow> 'a list" where
  "push_front storage u = u # storage"

definition pop_front :: "'a list \<Rightarrow> 'a list option" where
  "pop_front storage = (case storage of [] \<Rightarrow> None | _ # xs \<Rightarrow> Some xs)"

definition insert_range :: "'a list \<Rightarrow> nat \<Rightarrow> 'a list \<Rightarrow> 'a list option" where
  "insert_range storage pos xs = (if pos \<le> length storage then Some (take pos storage @ xs @ drop pos storage) else None)"

definition insert_at :: "'a list \<Rightarrow> nat \<Rightarrow> 'a \<Rightarrow> 'a list option" where
  "insert_at storage pos u = insert_range storage pos [u]"

definition insert_n :: "'a list \<Rightarrow> nat \<Rightarrow> nat \<Rightarrow> 'a \<Rightarrow> 'a list option" where
  "insert_n storage pos n u = insert_range storage pos (replicate n u)"

definition erase_range :: "'a list \<Rightarrow> nat \<Rightarrow> nat \<Rightarrow> 'a list option" where
  "erase_range storage b e = (if b \<le> e \<and> e \<le> length storage then Some (take b storage @ drop e storage) else None)"

definition erase_at :: "'a list \<Rightarrow> nat \<Rightarrow> 'a list option" where
  "erase_at storage pos = (if pos < length storage then erase_range storage pos (pos + 1) else None)"

definition container_swap :: "'a list \<Rightarrow> 'a list \<Rightarrow> 'a list \<times> 'a list" where
  "container_swap storage x = (x, storage)"

definition container_assign :: "'a list \<Rightarrow> 'a list \<Rightarrow> 'a list \<times> 'a list" where
  "container_assign storage x = (x, x)"

definition clear :: "'a list \<Rightarrow> 'a list" where
  "clear storage = []"

text \<open>\<open>splice\<close> moves a range of another list in front of a position; the other list loses the range.\<close>

definition splice_range :: "'a list \<Rightarrow> nat \<Rightarrow> 'a list \<Rightarrow> nat \<Rightarrow> nat \<Rightarrow> ('a list \<times> 'a list) option" where
  "splice_range storage pos x b e =
     (case (erase_range x b e, insert_range storage pos (take (e - b) (drop b x))) of
        (Some x', Some storage') \<Rightarrow> Some (storage', x')
      | _ \<Rightarrow> None)"

definition splice_at :: "'a list \<Rightarrow> nat \<Rightarrow> 'a list \<Rightarrow> nat \<Rightarrow> ('a list \<times> 'a list) option" where
  "splice_at storage pos x i = (if i < length x then splice_range storage pos x i (i + 1) else None)"

definition list_splice :: "'a list \<Rightarrow> nat \<Rightarrow> 'a list \<Rightarrow> ('a list \<times> 'a list) option" where
  "list_splice storage pos x = splice_range storage pos x 0 (length x)"

definition remove_if :: "('a \<Rightarrow> bool) \<Rightarrow> 'a list \<Rightarrow> 'a list" where
  "remove_if p storage = filter (\<lambda>x. \<not> p x) storage"

text \<open>\<open>unique\<close> compares each element with the last one it kept.\<close>

fun unique_by :: "('a \<Rightarrow> 'a \<Rightarrow> bool) \<Rightarrow> 'a list \<Rightarrow> 'a list" where
  "unique_by p (x # y # xs) = (if p x y then unique_by p (x # xs) else x # unique_by p (y # xs))"
| "unique_by p xs = xs"

definition list_unique :: "'a list \<Rightarrow> 'a list" where
  "list_unique storage = unique_by (=) storage"

text \<open>\<open>merge\<close> takes from the other list only while its front is less, so equal elements of this list come first.\<close>

fun merge_by :: "('a \<Rightarrow> 'a \<Rightarrow> bool) \<Rightarrow> 'a list \<Rightarrow> 'a list \<Rightarrow> 'a list" where
  "merge_by lt (x # xs) (y # ys) = (if lt y x then y # merge_by lt (x # xs) ys else x # merge_by lt xs (y # ys))"
| "merge_by lt [] ys = ys"
| "merge_by lt xs [] = xs"

definition list_merge :: "('a \<Rightarrow> 'a \<Rightarrow> bool) \<Rightarrow> 'a list \<Rightarrow> 'a list \<Rightarrow> 'a list \<times> 'a list" where
  "list_merge lt storage x = (merge_by lt storage x, [])"

text \<open>
  \<open>unit::unordered_set\<close>, which nothing uses: the methods that exist for a set. The others are
  copied from the vector and cannot be instantiated.
\<close>

definition uset_insert :: "'a set \<Rightarrow> 'a \<Rightarrow> 'a set" where
  "uset_insert storage u = insert u storage"

definition uset_erase :: "'a set \<Rightarrow> 'a \<Rightarrow> 'a set" where
  "uset_erase storage t = storage - {t}"

definition uset_size :: "'a set \<Rightarrow> nat" where
  "uset_size storage = card storage"

definition uset_empty :: "'a set \<Rightarrow> bool" where
  "uset_empty storage \<longleftrightarrow> storage = {}"

definition uset_assign :: "'a set \<Rightarrow> 'a set \<Rightarrow> 'a set \<times> 'a set" where
  "uset_assign storage x = (x, x)"

definition uset_swap :: "'a set \<Rightarrow> 'a set \<Rightarrow> 'a set \<times> 'a set" where
  "uset_swap storage x = (x, storage)"

definition uset_clear :: "'a set \<Rightarrow> 'a set" where
  "uset_clear storage = {}"

text \<open>\<open>sort\<close> is stable: it merges the elements one after the other.\<close>

definition list_sort :: "('a \<Rightarrow> 'a \<Rightarrow> bool) \<Rightarrow> 'a list \<Rightarrow> 'a list" where
  "list_sort lt storage = foldr (\<lambda>x ys. merge_by lt [x] ys) storage []"

section \<open>Lemmas\<close>

lemma length_vector_remove [simp]: "length (vector_remove xs t) = length xs"
  using length_filter_le [of "\<lambda>x. x \<noteq> t" xs] by (simp add: vector_remove_def Let_def)

lemma vector_remove_absent [simp]: "t \<notin> set xs \<Longrightarrow> vector_remove xs t = xs"
proof -
  assume "t \<notin> set xs"
  then have "filter (\<lambda>x. x \<noteq> t) xs = xs" by (auto simp: filter_id_conv)
  then show ?thesis by (simp add: vector_remove_def)
qed

lemma vector_remove_last: "t \<notin> set xs \<Longrightarrow> vector_remove (xs @ [t]) t = xs @ [t]"
proof -
  assume "t \<notin> set xs"
  then have "filter (\<lambda>x. x \<noteq> t) xs = xs" by (auto simp: filter_id_conv)
  then show ?thesis by (simp add: vector_remove_def)
qed

lemma set_vector_remove: "set (vector_remove xs t) \<subseteq> set xs"
  unfolding vector_remove_def Let_def using set_drop_subset [of _ xs] by fastforce

section \<open>Removal\<close>

text \<open>
  \<open>unit::vector::remove\<close> does not remove: the container keeps its size, and an element that occurs
  only at the end is still there afterwards (\<open>unit::list::remove\<close> does remove every occurrence).
\<close>

lemma vector_remove_keeps_size:
  "length (vector_remove xs t) = length xs \<and> (t \<notin> set xs \<longrightarrow> vector_remove (xs @ [t]) t = xs @ [t])
   \<and> t \<notin> set (list_remove xs t)"
  by (auto simp: vector_remove_last list_remove_def)

section \<open>Ranges and order\<close>

lemma insert_erase_roundtrip: "insert_at xs pos u = Some ys \<Longrightarrow> erase_at ys pos = Some xs"
  by (auto simp: insert_at_def insert_range_def erase_at_def erase_range_def split: if_splits)

lemma splice_range_mset:
  "splice_range storage pos x b e = Some (storage', x') \<Longrightarrow> mset storage' + mset x' = mset storage + mset x"
proof (unfold splice_range_def erase_range_def insert_range_def, clarsimp split: if_splits)
  assume "b \<le> e" and "e \<le> length x"
  then have "x = take b x @ take (e - b) (drop b x) @ drop e x"
    by (metis append_take_drop_id drop_drop le_add_diff_inverse2)
  then have "mset x = mset (take b x) + mset (take (e - b) (drop b x)) + mset (drop e x)"
    by (metis mset_append add.assoc)
  moreover have "mset storage = mset (take pos storage) + mset (drop pos storage)" by (metis append_take_drop_id mset_append)
  ultimately show "mset (take pos storage) + (mset (take (e - b) (drop b x)) + mset (drop pos storage))
      + (mset (take b x) + mset (drop e x)) = mset storage + mset x" by (simp add: ac_simps)
qed

lemma list_splice_all: "pos \<le> length storage \<Longrightarrow> list_splice storage pos x = Some (take pos storage @ x @ drop pos storage, [])"
  by (simp add: list_splice_def splice_range_def erase_range_def insert_range_def)

lemma mset_merge_by [simp]: "mset (merge_by lt xs ys) = mset xs + mset ys"
  by (induction lt xs ys rule: merge_by.induct) auto

lemma set_merge_by [simp]: "set (merge_by lt xs ys) = set xs \<union> set ys"
  by (induction lt xs ys rule: merge_by.induct) auto

text \<open>For a strict weak order, merging sorted lists and sorting give sorted lists.\<close>

definition weak_order :: "('a \<Rightarrow> 'a \<Rightarrow> bool) \<Rightarrow> bool" where
  "weak_order lt \<longleftrightarrow> (\<forall>x y. lt x y \<longrightarrow> \<not> lt y x) \<and> (\<forall>x y z. \<not> lt y x \<longrightarrow> \<not> lt z y \<longrightarrow> \<not> lt z x)"

lemma weak_orderD:
  assumes "weak_order lt"
  shows "lt x y \<Longrightarrow> \<not> lt y x" and "\<not> lt y x \<Longrightarrow> \<not> lt z y \<Longrightarrow> \<not> lt z x"
  using assms by (unfold weak_order_def) blast+

lemma merge_by_sorted:
  "weak_order lt \<Longrightarrow> sorted_wrt (\<lambda>x y. \<not> lt y x) xs \<Longrightarrow> sorted_wrt (\<lambda>x y. \<not> lt y x) ys
    \<Longrightarrow> sorted_wrt (\<lambda>x y. \<not> lt y x) (merge_by lt xs ys)"
proof (induction lt xs ys rule: merge_by.induct)
  case (1 lt x xs y ys)
  note ord = weak_orderD [OF "1.prems"(1)]
  show ?case
  proof (cases "lt y x")
    case True
    then have "\<not> lt z y" if "z \<in> set (x # xs)" for z
      using that ord(1) [OF True] ord(2) [of x y z] "1.prems"(2) by auto
    then show ?thesis using True 1 by auto
  next
    case False
    then have "\<not> lt z x" if "z \<in> set (y # ys)" for z
      using that ord(2) [of y x z] "1.prems"(3) by auto
    then show ?thesis using False 1 by auto
  qed
qed simp_all

lemma list_sort_correct:
  assumes "weak_order lt"
  shows "sorted_wrt (\<lambda>x y. \<not> lt y x) (list_sort lt xs) \<and> mset (list_sort lt xs) = mset xs"
proof (induction xs)
  case (Cons x xs)
  then show ?case using merge_by_sorted [OF assms, of "[x]"] by (simp add: list_sort_def)
qed (simp add: list_sort_def)

lemma uset_laws:
  "t \<in> uset_insert s u \<longleftrightarrow> t = u \<or> t \<in> s" "t \<in> uset_erase s u \<longleftrightarrow> t \<noteq> u \<and> t \<in> s"
  "u \<notin> s \<Longrightarrow> uset_erase (uset_insert s u) u = s"
  "finite s \<Longrightarrow> uset_size (uset_insert s u) = uset_size s + (if u \<in> s then 0 else 1)"
  by (auto simp: uset_insert_def uset_erase_def uset_size_def insert_absorb)

section \<open>Threads that read the end of a container and then remove it\<close>

text \<open>
  Two threads of the program empty a container in passes: they read its last element, do
  something with it, and remove the last element in a second call, while others append.
  \<open>busy\<close> says that the thread is between the two calls.
\<close>

locale back_reader =
  fixes contents :: "'s \<Rightarrow> 'a list" and busy :: "'s \<Rightarrow> bool" and push :: "'a \<Rightarrow> 's \<Rightarrow> 's" and read :: "'s \<Rightarrow> 's" and remove :: "'s \<Rightarrow> 's"
  assumes push_contents: "contents (push a s) = contents s @ [a]"
    and push_busy: "busy (push a s) = busy s"
    and read_contents: "contents (read s) = contents s"
    and read_busy: "contents s \<noteq> [] \<Longrightarrow> busy (read s)"
    and remove_contents: "busy s \<Longrightarrow> contents (remove s) = butlast (contents s)"
begin

lemma undisturbed: "contents s = xs @ [x] \<Longrightarrow> contents (remove (read s)) = xs"
  by (simp add: remove_contents read_busy read_contents)

lemma pushes: "contents (fold push as s) = contents s @ as \<and> busy (fold push as s) = busy s"
  by (induction as arbitrary: s) (simp_all add: push_contents push_busy)

text \<open>
  What is appended during a pass: the last of it is removed unread, and the element that was read
  stays.
\<close>

lemma disturbed: "contents s \<noteq> [] \<Longrightarrow> as \<noteq> [] \<Longrightarrow> contents (remove (fold push as (read s))) = contents s @ butlast as"
  using pushes [of as "read s"] by (simp add: remove_contents read_busy read_contents butlast_append)

end

end
