(* ===== verification/Ledger.thy ===== *)
theory Ledger
  imports Accounts Containers "HOL-Library.Char_ord" "HOL-Library.List_Lexorder"
begin

text \<open>
  \<open>TransactionProcessor::setTxBatch\<close> of \<open>blockHandler/TransactionProcessor.h\<close>: the transactions of a
  block, shard by shard, against a cache of accounts, filling the write batches. The cache maps an
  address to the account object its pointer leads to; every key owns its object, which is freed
  at the end of a shard while the key stays. Following a null or freed pointer is undefined
  behaviour, an exception that nothing catches ends the program: both are faults here. The reads
  of the user and the history database are parameters.
\<close>

section \<open>Definitions\<close>

definition TRANSFER :: u32 where "TRANSFER = 0"

definition TRANSFER_TOKENS :: u32 where "TRANSFER_TOKENS = 1"

definition CREATE_TOKENS :: u32 where "CREATE_TOKENS = 2"

datatype fault = Undefined | Thrown exn | Exit int

datatype 'j cell = Live "'j wallet" | NullPtr | Freed

type_synonym 'j cache = "(string \<times> 'j cell) list"

type_synonym batch = "(string \<times> string) list"

record 'j proc =
  p_cache :: "'j cache"
  p_writes :: batch
  p_history :: batch
  p_users :: batch
  p_tokens :: "batch option"
  p_creating :: bool
  p_size :: u64
  p_deleted :: "'j transaction list"

definition cache_emplace :: "'j cache \<Rightarrow> string \<Rightarrow> 'j cell \<Rightarrow> 'j cache" where
  "cache_emplace c k v = (if k \<in> fst ` set c then c else insort_key fst (k, v) c)"

definition cache_at :: "'j cache \<Rightarrow> string \<Rightarrow> fault + 'j cell" where
  "cache_at c k = (case map_of c k of Some v \<Rightarrow> Inr v | None \<Rightarrow> Inl (Thrown (StdExn ''map::at'')))"

definition deref :: "'j cache \<Rightarrow> string \<Rightarrow> fault + 'j wallet" where
  "deref c k = res_bind (cache_at c k) (\<lambda>v. case v of Live w \<Rightarrow> Inr w | _ \<Rightarrow> Inl Undefined)"

definition assign_cell :: "'j cache \<Rightarrow> string \<Rightarrow> 'j cell \<Rightarrow> 'j cache" where
  "assign_cell c k v = map (\<lambda>(k', v'). (k', if k' = k then v else v')) c"

definition throwing :: "exn + 'a \<Rightarrow> fault + 'a" where
  "throwing m = (case m of Inl e \<Rightarrow> Inl (Thrown e) | Inr x \<Rightarrow> Inr x)"

text \<open>The addresses of a shard in the order of their first occurrence.\<close>

definition note_account :: "string list \<Rightarrow> string \<Rightarrow> string list" where
  "note_account accounts a = (if a \<in> set accounts then accounts else accounts @ [a])"

definition shard_accounts :: "'j transaction list \<Rightarrow> string list" where
  "shard_accounts txs = foldl (\<lambda>accs tx. note_account (note_account accs (tx_from tx)) (tx_to tx)) [] txs"

definition genesis_cache :: "'j json_lib \<Rightarrow> 'j transaction list \<Rightarrow> 'j cache \<Rightarrow> 'j cache" where
  "genesis_cache lib txs c = foldl (\<lambda>c tx. cache_emplace c (tx_to tx) (Live (createEmptyWallet lib (tx_to tx)))) c txs"

text \<open>One answer of \<open>multiGet\<close> per address: \<open>Some\<close> for the status \<open>kOk\<close>.\<close>

fun load_cache :: "'j json_lib \<Rightarrow> (string \<times> string option) list \<Rightarrow> 'j cache \<Rightarrow> fault + 'j cache" where
  "load_cache lib [] c = Inr c"
| "load_cache lib ((a, Some text) # rs) c =
     res_bind (throwing (createPtrWallet lib text)) (\<lambda>w.
       load_cache lib rs (cache_emplace c a (case w of Some w \<Rightarrow> Live w | None \<Rightarrow> NullPtr)))"
| "load_cache lib ((a, None) # rs) c = load_cache lib rs (cache_emplace c a (Live (createEmptyWallet lib a)))"

text \<open>
  The history of both accounts is read under the sender's address; what is thrown on the way is
  caught and printed.
\<close>

definition load_history ::
  "'j json_lib \<Rightarrow> (string \<Rightarrow> exn + string) \<Rightarrow> 'j cache \<Rightarrow> string \<Rightarrow> string \<Rightarrow> fault + 'j cache" where
  "load_history lib hist c fr to =
     res_bind (deref c fr) (\<lambda>sender.
       case hist (w_address sender) of
         Inl e \<Rightarrow> Inr c
       | Inr text \<Rightarrow>
          (let (res, sender') = parseHistory lib sender text; c' = assign_cell c fr (Live sender')
           in case res of
                Inl e \<Rightarrow> Inr c'
              | Inr _ \<Rightarrow> res_bind (deref c' to) (\<lambda>recipient.
                  Inr (assign_cell c' to (Live (snd (parseHistory lib recipient text)))))))"

definition record_tx :: "'j json_lib \<Rightarrow> 'j transaction \<Rightarrow> 'j proc \<Rightarrow> fault + 'j proc" where
  "record_tx lib tx st =
     res_bind (throwing (serializeToJsonTransaction lib tx)) (\<lambda>text.
       Inr (st \<lparr>p_writes := p_writes st @ [(tx_hash tx, text)], p_size := p_size st + of_nat (length text)\<rparr>))"

definition debit_sender :: "'j json_lib \<Rightarrow> 'j transaction \<Rightarrow> 'j proc \<Rightarrow> fault + 'j proc" where
  "debit_sender lib tx st =
     res_bind (deref (p_cache st) (tx_from tx)) (\<lambda>sender.
       (let sender' = snd (subtract lib sender (tx_amount tx) (tx_hash tx))
        in Inr (st \<lparr>p_cache := assign_cell (p_cache st) (tx_from tx) (Live sender'),
              p_history := p_history st @ [(w_address sender', serializeHistory lib sender')]\<rparr>)))"

definition credit_recipient :: "'j json_lib \<Rightarrow> 'j transaction \<Rightarrow> 'j proc \<Rightarrow> fault + 'j proc" where
  "credit_recipient lib tx st =
     res_bind (deref (p_cache st) (tx_to tx)) (\<lambda>recipient.
       (let recipient' = increase lib recipient (tx_amount tx) (tx_hash tx);
            st' = st \<lparr>p_cache := assign_cell (p_cache st) (tx_to tx) (Live recipient')\<rparr>
        in res_bind (record_tx lib tx st') (\<lambda>st''.
             Inr (st'' \<lparr>p_history := p_history st'' @ [(w_address recipient', serializeHistory lib recipient')]\<rparr>))))"

definition transfer :: "'j json_lib \<Rightarrow> (string \<Rightarrow> exn + string) \<Rightarrow> u64 \<Rightarrow> 'j transaction \<Rightarrow> 'j proc \<Rightarrow> fault + 'j proc" where
  "transfer lib hist index tx st =
     (if index \<noteq> 0
      then res_bind (load_history lib hist (p_cache st) (tx_from tx) (tx_to tx)) (\<lambda>c.
           res_bind (debit_sender lib tx (st \<lparr>p_cache := c\<rparr>)) (credit_recipient lib tx))
      else credit_recipient lib tx st)"

definition transfer_tokens :: "'j json_lib \<Rightarrow> u64 \<Rightarrow> 'j transaction \<Rightarrow> 'j proc \<Rightarrow> fault + 'j proc" where
  "transfer_tokens lib index tx st =
     res_bind (throwing (string_at lib (tx_extra tx) ''name'')) (\<lambda>tokenName.
     res_bind (deref (p_cache st) (tx_from tx)) (\<lambda>sender.
     res_bind (throwing (subtractToken lib sender (tx_amount tx) (tx_hash tx) tokenName)) (\<lambda>(code, sender').
     res_bind (throwing (increaseToken lib sender' (tx_amount tx) (tx_hash tx) tokenName)) (\<lambda>sender''.
       record_tx lib tx (st \<lparr>p_cache := assign_cell (p_cache st) (tx_from tx) (Live sender'')\<rparr>)))))"

definition delete_tx :: "'j transaction \<Rightarrow> 'j proc \<Rightarrow> 'j proc" where
  "delete_tx tx st = st \<lparr>p_deleted := p_deleted st @ [tx]\<rparr>"

definition create_token :: "'j json_lib \<Rightarrow> u64 \<Rightarrow> 'j transaction \<Rightarrow> 'j proc \<Rightarrow> fault + 'j proc" where
  "create_token lib index tx st =
     (case Token_parse lib (tx_extra tx) of
        None \<Rightarrow> Inr (delete_tx tx st)
      | Some tok \<Rightarrow>
          if index = 0 then Inl Undefined
          else res_bind (deref (p_cache st) (tx_from tx)) (\<lambda>sender.
               res_bind (throwing (increaseToken lib sender (tok_supply tok) (tx_hash tx) (tok_name tok))) (\<lambda>sender'.
               case p_tokens st of
                 None \<Rightarrow> Inl Undefined
               | Some tb \<Rightarrow>
                   record_tx lib tx (st \<lparr>p_cache := assign_cell (p_cache st) (tx_from tx) (Live sender'),
                     p_tokens := Some (tb @ [(tok_name tok, Token_serialize tok)])\<rparr>))))"

definition process_tx :: "'j json_lib \<Rightarrow> (string \<Rightarrow> exn + string) \<Rightarrow> u64 \<Rightarrow> 'j transaction \<Rightarrow> 'j proc \<Rightarrow> fault + 'j proc" where
  "process_tx lib hist index tx st =
     (let known = fst ` set (p_cache st) in
      if index \<noteq> 0 \<and> (tx_from tx \<notin> known \<or> tx_to tx \<notin> known) then Inr (delete_tx tx st)
      else
       res_bind (cache_at (p_cache st) (tx_to tx)) (\<lambda>_.
         if tx_type tx = TRANSFER
         then if index = 0 then transfer lib hist index tx st
              else res_bind (deref (p_cache st) (tx_from tx)) (\<lambda>sender.
                if w_balance sender < tx_amount tx then Inr (delete_tx tx st) else transfer lib hist index tx st)
         else if tx_type tx = TRANSFER_TOKENS
         then if index = 0 then Inl Undefined
              else res_bind (deref (p_cache st) (tx_from tx)) (\<lambda>sender.
                res_bind (throwing (string_at lib (tx_extra tx) ''name'')) (\<lambda>nm.
                res_bind (throwing (j_contains lib (w_tokens sender) nm)) (\<lambda>has.
                  if \<not> has then Inr (delete_tx tx st)
                  else res_bind (throwing (j_at lib (tx_extra tx) ''value'')) (\<lambda>v.
                    res_bind (throwing (j_double_less lib v v)) (\<lambda>less.
                      if less then Inr (delete_tx tx st) else transfer_tokens lib index tx st)))))
         else if tx_type tx = CREATE_TOKENS then create_token lib index tx st
         else transfer lib hist index tx st))"

fun process_all ::
  "'j json_lib \<Rightarrow> (string \<Rightarrow> exn + string) \<Rightarrow> u64 \<Rightarrow> 'j transaction list \<Rightarrow> 'j proc \<Rightarrow> fault + 'j proc" where
  "process_all lib hist index [] st = Inr st"
| "process_all lib hist index (tx # txs) st = res_bind (process_tx lib hist index tx st) (process_all lib hist index txs)"

text \<open>At the end of a shard every account of the cache is written and freed; its key stays.\<close>

fun flush_cache :: "'j json_lib \<Rightarrow> 'j cache \<Rightarrow> fault + batch" where
  "flush_cache lib [] = Inr []"
| "flush_cache lib ((k, Live w) # c) = res_bind (flush_cache lib c) (\<lambda>b. Inr ((k, wallet_serialize lib w) # b))"
| "flush_cache lib ((k, _) # c) = Inl Undefined"

text \<open>\<open>DBIOError\<close> is caught and leaves the responses empty; another error exits with code 2.\<close>

datatype db_error = DBCorruption | DBIOError | DBNotFound

definition shard_batch ::
  "'j json_lib \<Rightarrow> (string list \<Rightarrow> db_error + string option list) \<Rightarrow> (string \<Rightarrow> exn + string) \<Rightarrow> u64
     \<Rightarrow> 'j transaction list \<Rightarrow> 'j proc \<Rightarrow> fault + 'j transaction list \<times> 'j proc" where
  "shard_batch lib users hist index txs st =
     (let accounts = shard_accounts txs;
          creating = p_creating st \<or> (\<exists>tx \<in> set txs. tx_type tx = CREATE_TOKENS);
          c0 = (if index = 0 then genesis_cache lib txs (p_cache st) else p_cache st)
      in res_bind (case users accounts of Inr answers \<Rightarrow> Inr answers | Inl DBIOError \<Rightarrow> Inr [] | Inl _ \<Rightarrow> Inl (Exit 2)) (\<lambda>answers.
         res_bind (if index \<noteq> 0 then load_cache lib (zip accounts answers) c0 else Inr c0) (\<lambda>c.
         res_bind (process_all lib hist index txs
             (st \<lparr>p_cache := c, p_creating := creating, p_deleted := [],
                p_tokens := (if creating then Some [] else p_tokens st)\<rparr>)) (\<lambda>st'.
         res_bind (flush_cache lib (p_cache st')) (\<lambda>ub.
           Inr (foldl vector_remove txs (p_deleted st'),
             st' \<lparr>p_users := p_users st' @ ub, p_cache := map (\<lambda>(k, v). (k, Freed)) (p_cache st')\<rparr>))))))"

fun shards_batch ::
  "'j json_lib \<Rightarrow> (string list \<Rightarrow> db_error + string option list) \<Rightarrow> (string \<Rightarrow> exn + string) \<Rightarrow> u64
     \<Rightarrow> 'j transaction list list \<Rightarrow> 'j proc \<Rightarrow> fault + 'j transaction list list \<times> 'j proc" where
  "shards_batch lib users hist index [] st = Inr ([], st)"
| "shards_batch lib users hist index (txs # shards) st =
     res_bind (shard_batch lib users hist index txs st) (\<lambda>(txs', st').
     res_bind (shards_batch lib users hist index shards st') (\<lambda>(shards', st''). Inr (txs' # shards', st'')))"

definition empty_proc :: "'j proc" where
  "empty_proc = \<lparr>p_cache = [], p_writes = [], p_history = [], p_users = [], p_tokens = None, p_creating = False,
     p_size = 0, p_deleted = []\<rparr>"

definition setTxBatch ::
  "'j json_lib \<Rightarrow> (string list \<Rightarrow> db_error + string option list) \<Rightarrow> (string \<Rightarrow> exn + string) \<Rightarrow> u64
     \<Rightarrow> 'j transaction list list \<Rightarrow> fault + 'j transaction list list \<times> 'j proc" where
  "setTxBatch lib users hist index shards =
     (if shards = [] then Inr ([], empty_proc) else shards_batch lib users hist index shards empty_proc)"

section \<open>Specification: a ledger of balances\<close>

type_synonym balances = "string \<rightharpoonup> u256"

definition balances_of :: "'j cache \<Rightarrow> balances" where
  "balances_of c k = (case map_of c k of Some (Live w) \<Rightarrow> Some (w_balance w) | _ \<Rightarrow> None)"

definition accepts :: "balances \<Rightarrow> 'j transaction \<Rightarrow> bool" where
  "accepts m tx \<longleftrightarrow> tx_amount tx \<le> the (m (tx_from tx))"

definition move :: "balances \<Rightarrow> string \<Rightarrow> string \<Rightarrow> u256 \<Rightarrow> balances" where
  "move m a b v = (let m' = m(a \<mapsto> the (m a) - v) in m'(b \<mapsto> the (m' b) + v))"

definition spec_tx :: "balances \<Rightarrow> 'j transaction \<Rightarrow> balances" where
  "spec_tx m tx = (if accepts m tx then move m (tx_from tx) (tx_to tx) (tx_amount tx) else m)"

fun spec_rejected :: "balances \<Rightarrow> 'j transaction list \<Rightarrow> 'j transaction list" where
  "spec_rejected m [] = []"
| "spec_rejected m (tx # txs) = (if accepts m tx then [] else [tx]) @ spec_rejected (spec_tx m tx) txs"

definition total_balance :: "balances \<Rightarrow> nat" where
  "total_balance m = (\<Sum>k \<in> dom m. unat (the (m k)))"

section \<open>Lemmas\<close>

lemma map_of_assign: "map_of (assign_cell c k v) j = (if j = k \<and> k \<in> fst ` set c then Some v else map_of c j)"
proof (induction c)
  case (Cons p c)
  obtain k' v' where "p = (k', v')" by (cases p)
  with Cons show ?case by (cases "k' = k"; cases "j = k'") (simp_all add: assign_cell_def)
qed (simp add: assign_cell_def)

lemma keys_assign [simp]: "fst ` set (assign_cell c k v) = fst ` set c"
  by (induction c) (auto simp: assign_cell_def)

lemma deref_iff: "deref c k = Inr w \<longleftrightarrow> map_of c k = Some (Live w)"
  by (auto simp: deref_def cache_at_def res_simps split: option.splits cell.splits)

lemma deref_known: "deref c k = Inr w \<Longrightarrow> k \<in> fst ` set c"
  by (auto simp: deref_iff dest!: map_of_SomeD intro: rev_image_eqI)

lemma deref_cache_at: "deref c k = Inr w \<Longrightarrow> cache_at c k = Inr (Live w)"
  by (simp add: deref_iff cache_at_def)

lemma balances_Some: "balances_of c k = Some v \<longleftrightarrow> (\<exists>w. deref c k = Inr w \<and> w_balance w = v)"
  by (auto simp: balances_of_def deref_iff split: option.splits cell.splits)

lemma balances_deref: "deref c k = Inr w \<Longrightarrow> balances_of c k = Some (w_balance w)"
  by (simp add: balances_Some)

lemma balances_assign:
  "deref c k = Inr w \<Longrightarrow> balances_of (assign_cell c k (Live w')) = (balances_of c)(k \<mapsto> w_balance w')"
  using deref_known [of c k w] by (auto simp: balances_of_def map_of_assign fun_eq_iff)

lemma balances_assign_same:
  "deref c k = Inr w \<Longrightarrow> w_balance w' = w_balance w \<Longrightarrow> balances_of (assign_cell c k (Live w')) = balances_of c"
  by (simp add: balances_assign balances_deref fun_upd_idem)

lemma deref_assign:
  "deref c k = Inr w \<Longrightarrow> deref (assign_cell c k (Live w')) j = (if j = k then Inr w' else deref c j)"
  using deref_known [of c k w] by (simp add: deref_def cache_at_def map_of_assign)

lemma load_history_balances:
  assumes "deref c fr = Inr s" and "deref c to = Inr r"
  shows "\<exists>c'. load_history lib hist c fr to = Inr c' \<and> balances_of c' = balances_of c \<and> fst ` set c' = fst ` set c"
proof (cases "hist (w_address s)")
  case (Inl e)
  then show ?thesis using assms by (simp add: load_history_def)
next
  case (Inr doc)
  let ?p = "parseHistory lib s doc" and ?c = "assign_cell c fr (Live (snd (parseHistory lib s doc)))"
  have b: "balances_of ?c = balances_of c" by (rule balances_assign_same [OF assms(1)]) simp
  have "\<exists>r'. deref ?c to = Inr r'" using deref_assign [OF assms(1)] assms(2) by simp
  then obtain r' where r': "deref ?c to = Inr r'" ..
  have b': "balances_of (assign_cell ?c to (Live (snd (parseHistory lib r' doc)))) = balances_of c"
    using balances_assign_same [OF r'] b by simp
  show ?thesis
    using Inr assms(1) r' b b' by (cases "fst ?p") (simp_all add: load_history_def Let_def split_beta)
qed

lemma transfer_type_text: "tx_type tx = TRANSFER \<Longrightarrow> \<exists>t. serializeToJsonTransaction lib tx = Inr t"
  by (simp add: serializeToJsonTransaction_def signed_text_def TRANSFER_def)

text \<open>The return code of \<open>subtract\<close> is ignored: the credit happens whether or not the debit did.\<close>

lemma transfer_effect:
  assumes "index \<noteq> 0" and t: "serializeToJsonTransaction lib tx = Inr t" and "deref (p_cache st) (tx_from tx) = Inr s"
    and "deref (p_cache st) (tx_to tx) = Inr r"
  defines "m \<equiv> balances_of (p_cache st)"
  defines "m' \<equiv> if w_balance s < tx_amount tx then m else m(tx_from tx \<mapsto> w_balance s - tx_amount tx)"
  shows "\<exists>st'. transfer lib hist index tx st = Inr st'
    \<and> balances_of (p_cache st') = m'(tx_to tx \<mapsto> the (m' (tx_to tx)) + tx_amount tx)
    \<and> p_deleted st' = p_deleted st \<and> p_writes st' = p_writes st @ [(tx_hash tx, t)]"
proof -
  let ?m = "balances_of (p_cache st)" and ?a = "tx_from tx" and ?b = "tx_to tx" and ?v = "tx_amount tx"
  obtain c where c: "load_history lib hist (p_cache st) ?a ?b = Inr c" "balances_of c = ?m" "fst ` set c = fst ` set (p_cache st)"
    using load_history_balances [OF assms(3,4)] by blast
  obtain s' where s': "deref c ?a = Inr s'" "w_balance s' = w_balance s"
    using c(2) balances_deref [OF assms(3)] balances_Some [of c] by metis
  let ?s = "snd (subtract lib s' ?v (tx_hash tx))"
  let ?c = "assign_cell c ?a (Live ?s)"
  have m1: "balances_of ?c = m'"
    using balances_assign [OF s'(1), of ?s] balances_deref [OF assms(3)] s'(2)
    by (simp add: subtract_simps c(2) m'_def m_def fun_upd_idem)
  have "?b \<in> dom m'" using balances_deref [OF assms(4)] by (auto simp: m'_def m_def)
  then obtain r' where r': "deref ?c ?b = Inr r'" unfolding m1 [symmetric] by (auto simp: balances_Some dom_def)
  have m2: "balances_of (assign_cell ?c ?b (Live (increase lib r' ?v (tx_hash tx)))) = m'(?b \<mapsto> the (m' ?b) + ?v)"
    using balances_assign [OF r'] balances_deref [OF r'] by (simp add: m1)
  show ?thesis
    using assms(1) c(1,3) s'(1) r' t m2
    by (simp add: transfer_def debit_sender_def credit_recipient_def record_tx_def throwing_def Let_def)
qed

lemma transfer_refines:
  assumes "index \<noteq> 0" and "tx_type tx = TRANSFER" and "deref (p_cache st) (tx_from tx) = Inr s"
    and "deref (p_cache st) (tx_to tx) = Inr r" and "tx_amount tx \<le> w_balance s"
  shows "\<exists>st'. transfer lib hist index tx st = Inr st'
    \<and> balances_of (p_cache st') = move (balances_of (p_cache st)) (tx_from tx) (tx_to tx) (tx_amount tx)
    \<and> p_deleted st' = p_deleted st"
proof -
  obtain t where "serializeToJsonTransaction lib tx = Inr t" using transfer_type_text [OF assms(2)] by blast
  from transfer_effect [OF assms(1) this assms(3,4), of hist] show ?thesis
    using assms(5) balances_deref [OF assms(3)] by (auto simp: move_def Let_def not_less)
qed

lemma process_tx_refines:
  assumes "index \<noteq> 0" and "tx_type tx = TRANSFER" and "tx_from tx \<in> dom (balances_of (p_cache st))"
    and "tx_to tx \<in> dom (balances_of (p_cache st))"
  shows "\<exists>st'. process_tx lib hist index tx st = Inr st' \<and> balances_of (p_cache st') = spec_tx (balances_of (p_cache st)) tx
    \<and> p_deleted st' = p_deleted st @ (if accepts (balances_of (p_cache st)) tx then [] else [tx])"
proof -
  obtain s r where sr: "deref (p_cache st) (tx_from tx) = Inr s" "deref (p_cache st) (tx_to tx) = Inr r"
    using assms(3,4) by (auto simp: balances_Some dom_def)
  have acc: "accepts (balances_of (p_cache st)) tx \<longleftrightarrow> \<not> w_balance s < tx_amount tx"
    using balances_deref [OF sr(1)] by (auto simp: accepts_def)
  show ?thesis
  proof (cases "w_balance s < tx_amount tx")
    case True
    then show ?thesis
      using assms(1,2) sr deref_known [OF sr(1)] deref_known [OF sr(2)] deref_cache_at [OF sr(2)] acc
      by (simp add: process_tx_def spec_tx_def delete_tx_def)
  next
    case False
    then have "tx_amount tx \<le> w_balance s" by simp
    from transfer_refines [OF assms(1,2) sr this, of lib hist] show ?thesis
      using False assms(1,2) sr deref_known [OF sr(1)] deref_known [OF sr(2)] deref_cache_at [OF sr(2)] acc
      by (auto simp: process_tx_def spec_tx_def)
  qed
qed

lemma dom_spec_tx: "tx_from tx \<in> dom m \<Longrightarrow> tx_to tx \<in> dom m \<Longrightarrow> dom (spec_tx m tx) = dom m"
  by (auto simp: spec_tx_def move_def Let_def)

lemma process_all_refines:
  assumes "index \<noteq> 0" and "\<forall>tx \<in> set txs. tx_type tx = TRANSFER"
    and "\<forall>tx \<in> set txs. tx_from tx \<in> dom (balances_of (p_cache st)) \<and> tx_to tx \<in> dom (balances_of (p_cache st))"
  shows "\<exists>st'. process_all lib hist index txs st = Inr st'
    \<and> balances_of (p_cache st') = foldl spec_tx (balances_of (p_cache st)) txs
    \<and> p_deleted st' = p_deleted st @ spec_rejected (balances_of (p_cache st)) txs"
  using assms(2,3)
proof (induction txs arbitrary: st)
  case (Cons tx txs)
  let ?m = "balances_of (p_cache st)"
  obtain st' where st': "process_tx lib hist index tx st = Inr st'" "balances_of (p_cache st') = spec_tx ?m tx"
    "p_deleted st' = p_deleted st @ (if accepts ?m tx then [] else [tx])"
    using process_tx_refines [OF assms(1), of tx st lib hist] Cons.prems by auto
  have "dom (spec_tx ?m tx) = dom ?m" using Cons.prems(2) by (intro dom_spec_tx) auto
  then show ?case using Cons.IH [of st'] Cons.prems st' by simp
qed simp

lemma total_upd:
  assumes "finite (dom m)" and "m k = Some x"
  shows "total_balance (m(k \<mapsto> y)) + unat x = total_balance m + unat y"
proof -
  have k: "k \<in> dom m" using assms(2) by auto
  then have d: "dom (m(k \<mapsto> y)) = dom m" by auto
  have "total_balance (m(k \<mapsto> y)) = unat y + (\<Sum>j \<in> dom m - {k}. unat (the ((m(k \<mapsto> y)) j)))"
    unfolding total_balance_def d using sum.remove [OF assms(1) k, of "\<lambda>j. unat (the ((m(k \<mapsto> y)) j))"] by simp
  also have "(\<Sum>j \<in> dom m - {k}. unat (the ((m(k \<mapsto> y)) j))) = (\<Sum>j \<in> dom m - {k}. unat (the (m j)))"
    by (rule sum.cong) auto
  finally have "total_balance (m(k \<mapsto> y)) = unat y + (\<Sum>j \<in> dom m - {k}. unat (the (m j)))" .
  moreover have "total_balance m = unat x + (\<Sum>j \<in> dom m - {k}. unat (the (m j)))"
    using sum.remove [OF assms(1) k, of "\<lambda>j. unat (the (m j))"] assms(2) by (simp add: total_balance_def)
  ultimately show ?thesis by linarith
qed

lemma total_bound: "finite (dom m) \<Longrightarrow> m k = Some x \<Longrightarrow> unat x \<le> total_balance m"
  using member_le_sum [of k "dom m" "\<lambda>j. unat (the (m j))"] by (auto simp: total_balance_def)

lemma total_move:
  assumes "finite (dom m)" and "m a = Some x" and "b \<in> dom m" and "v \<le> x" and "total_balance m < 2 ^ 256"
  shows "total_balance (move m a b v) = total_balance m"
proof -
  let ?m = "m(a \<mapsto> x - v)"
  have sub: "unat (x - v) + unat v = unat x" using assms(4) by (simp add: unat_sub word_le_nat_alt)
  have t1: "total_balance ?m + unat v = total_balance m" using total_upd [OF assms(1,2), of "x - v"] sub by simp
  have "b \<in> dom ?m" using assms(3) by auto
  then obtain y where y: "?m b = Some y" by blast
  have fin: "finite (dom ?m)" using assms(1) by simp
  have "unat y + unat v < 2 ^ 256" using total_bound [OF fin y] t1 assms(5) by linarith
  then have add: "unat (y + v) = unat y + unat v" by (subst unat_add_lem [symmetric]) simp
  have mv: "move m a b v = ?m(b \<mapsto> y + v)" using assms(2) y by (simp only: move_def Let_def option.sel)
  show ?thesis unfolding mv using total_upd [OF fin y, of "y + v"] add t1 by linarith
qed

lemma total_spec_tx:
  assumes "finite (dom m)" and "tx_from tx \<in> dom m" and "tx_to tx \<in> dom m" and "total_balance m < 2 ^ 256"
  shows "total_balance (spec_tx m tx) = total_balance m"
  using assms total_move [of m "tx_from tx" _ "tx_to tx" "tx_amount tx"] by (auto simp: spec_tx_def accepts_def)

lemma total_spec:
  assumes "finite (dom m)" and "\<forall>tx \<in> set txs. tx_from tx \<in> dom m \<and> tx_to tx \<in> dom m" and "total_balance m < 2 ^ 256"
  shows "total_balance (foldl spec_tx m txs) = total_balance m"
  using assms
proof (induction txs arbitrary: m)
  case (Cons tx txs)
  then have "dom (spec_tx m tx) = dom m" "total_balance (spec_tx m tx) = total_balance m"
    by (auto simp: dom_spec_tx total_spec_tx)
  then show ?case using Cons.IH [of "spec_tx m tx"] Cons.prems by simp
qed simp

lemma finite_balances: "finite (dom (balances_of c))"
proof (rule finite_subset)
  show "dom (balances_of c) \<subseteq> dom (map_of c)" by (auto simp: balances_of_def split: option.splits)
qed (rule finite_dom_map_of)

lemma map_of_insort:
  "fst p \<notin> fst ` set c \<Longrightarrow> map_of (insort_key fst p c) k = (if k = fst p then Some (snd p) else map_of c k)"
proof (induction c)
  case (Cons q c)
  then show ?case by (cases p; cases q) auto
qed (cases p, simp)

lemma emplace_keeps: "map_of c k = Some v \<Longrightarrow> map_of (cache_emplace c a x) k = Some v"
  using map_of_SomeD [of c k v] by (auto simp: cache_emplace_def map_of_insort intro: rev_image_eqI)

lemma genesis_keeps: "map_of c k = Some v \<Longrightarrow> map_of (genesis_cache lib txs c) k = Some v"
  unfolding genesis_cache_def by (induction txs arbitrary: c) (simp_all add: emplace_keeps)

lemma load_cache_keeps: "map_of c k = Some v \<Longrightarrow> load_cache lib rs c = Inr c' \<Longrightarrow> map_of c' k = Some v"
  by (induction lib rs c arbitrary: c' rule: load_cache.induct) (auto simp: res_simps emplace_keeps)

lemma assign_freed [simp]:
  "map_of (assign_cell c j (Live w)) k = Some Freed \<longleftrightarrow> map_of c k = Some Freed \<and> j \<noteq> k"
  by (auto simp: map_of_assign dest: map_of_SomeD intro: rev_image_eqI)

lemma deref_not_freed: "deref c j = Inr w \<Longrightarrow> map_of c k = Some Freed \<Longrightarrow> j \<noteq> k"
  by (auto simp: deref_iff)

lemma load_history_keeps_freed:
  assumes "map_of c k = Some Freed" and "load_history lib hist c a b = Inr c'"
  shows "map_of c' k = Some Freed"
proof -
  obtain s where s: "deref c a = Inr s" using assms(2) by (auto simp: load_history_def res_simps)
  have a: "a \<noteq> k" by (rule deref_not_freed [OF s assms(1)])
  show ?thesis
  proof (cases "hist (w_address s)")
    case (Inl e)
    then show ?thesis using assms s by (simp add: load_history_def)
  next
    case (Inr doc)
    let ?c = "assign_cell c a (Live (snd (parseHistory lib s doc)))"
    have f: "map_of ?c k = Some Freed" using assms(1) a by simp
    show ?thesis
      using assms(2) s Inr f deref_not_freed [OF _ f]
      by (cases "fst (parseHistory lib s doc)") (auto simp: load_history_def Let_def split_beta res_simps)
  qed
qed

lemma record_tx_cache: "record_tx lib tx st = Inr st' \<Longrightarrow> p_cache st' = p_cache st"
  by (auto simp: record_tx_def res_simps)

lemma credit_keeps_freed:
  "map_of (p_cache st) k = Some Freed \<Longrightarrow> credit_recipient lib tx st = Inr st' \<Longrightarrow> map_of (p_cache st') k = Some Freed"
  by (auto simp: credit_recipient_def res_simps Let_def dest!: record_tx_cache dest: deref_not_freed)

lemma debit_keeps_freed:
  "map_of (p_cache st) k = Some Freed \<Longrightarrow> debit_sender lib tx st = Inr st' \<Longrightarrow> map_of (p_cache st') k = Some Freed"
  by (auto simp: debit_sender_def res_simps Let_def dest: deref_not_freed)

lemma transfer_keeps_freed:
  assumes "map_of (p_cache st) k = Some Freed" and "transfer lib hist index tx st = Inr st'"
  shows "map_of (p_cache st') k = Some Freed"
proof (cases "index = 0")
  case True
  then show ?thesis using assms credit_keeps_freed by (simp add: transfer_def)
next
  case False
  then obtain c st1 where "load_history lib hist (p_cache st) (tx_from tx) (tx_to tx) = Inr c"
    "debit_sender lib tx (st \<lparr>p_cache := c\<rparr>) = Inr st1" "credit_recipient lib tx st1 = Inr st'"
    using assms(2) by (auto simp: transfer_def res_simps)
  with assms(1) show ?thesis
    using load_history_keeps_freed debit_keeps_freed [of "st \<lparr>p_cache := c\<rparr>" k lib tx st1] credit_keeps_freed by fastforce
qed

lemma tokens_keep_freed:
  "map_of (p_cache st) k = Some Freed \<Longrightarrow> transfer_tokens lib index tx st = Inr st' \<Longrightarrow> map_of (p_cache st') k = Some Freed"
  by (auto simp: transfer_tokens_def res_simps split_beta dest!: record_tx_cache dest: deref_not_freed)

lemma create_keeps_freed:
  assumes "map_of (p_cache st) k = Some Freed" and "create_token lib index tx st = Inr st'"
  shows "map_of (p_cache st') k = Some Freed"
proof (cases "Token_parse lib (tx_extra tx)")
  case None
  then show ?thesis using assms by (auto simp: create_token_def delete_tx_def)
next
  case (Some tok)
  with assms(2) obtain s s' tb where "deref (p_cache st) (tx_from tx) = Inr s"
    "record_tx lib tx (st \<lparr>p_cache := assign_cell (p_cache st) (tx_from tx) (Live s'), p_tokens := tb\<rparr>) = Inr st'"
    by (auto simp: create_token_def res_simps split: if_split_asm option.split_asm)
  then show ?thesis using assms(1) record_tx_cache deref_not_freed by fastforce
qed

lemma process_tx_keeps_freed:
  assumes "map_of (p_cache st) k = Some Freed" and "process_tx lib hist index tx st = Inr st'"
  shows "map_of (p_cache st') k = Some Freed"
proof -
  have "p_cache st' = p_cache st \<or> transfer lib hist index tx st = Inr st' \<or> transfer_tokens lib index tx st = Inr st'
      \<or> create_token lib index tx st = Inr st'"
    using assms(2) by (auto simp: process_tx_def delete_tx_def res_simps Let_def split: if_split_asm)
  then show ?thesis
    using assms(1) transfer_keeps_freed tokens_keep_freed create_keeps_freed by (elim disjE) (simp, blast+)
qed

lemma process_all_keeps_freed:
  "map_of (p_cache st) k = Some Freed \<Longrightarrow> process_all lib hist index txs st = Inr st' \<Longrightarrow> map_of (p_cache st') k = Some Freed"
proof (induction txs arbitrary: st)
  case (Cons tx txs)
  then show ?case using process_tx_keeps_freed [of st k lib hist index tx] by (auto simp: res_simps)
qed simp

lemma flush_freed: "map_of c k = Some Freed \<Longrightarrow> flush_cache lib c \<noteq> Inr b"
  by (induction lib c arbitrary: b rule: flush_cache.induct) (auto simp: res_simps split: if_splits)

lemma shard_batch_freed:
  assumes "map_of (p_cache st) k = Some Freed"
  shows "shard_batch lib users hist index txs st \<noteq> Inr r"
proof
  assume "shard_batch lib users hist index txs st = Inr r"
  note run0 = this
  let ?c0 = "if index = 0 then genesis_cache lib txs (p_cache st) else p_cache st"
  let ?creating = "p_creating st \<or> (\<exists>tx \<in> set txs. tx_type tx = CREATE_TOKENS)"
  let ?st = "\<lambda>c. st \<lparr>p_cache := c, p_creating := ?creating, p_deleted := [],
      p_tokens := (if ?creating then Some [] else p_tokens st)\<rparr>"
  from run0 obtain as c st' ub where run:
    "(if index \<noteq> 0 then load_cache lib (zip (shard_accounts txs) as) ?c0 else Inr ?c0) = Inr c"
    "process_all lib hist index txs (?st c) = Inr st'" "flush_cache lib (p_cache st') = Inr ub"
    unfolding shard_batch_def Let_def res_bind_Inr_iff by blast
  have "map_of ?c0 k = Some Freed" using assms by (simp add: genesis_keeps)
  then have "map_of (p_cache (?st c)) k = Some Freed"
    using run(1) load_cache_keeps by (auto split: if_split_asm)
  from process_all_keeps_freed [OF this run(2)] show False using run(3) flush_freed by blast
qed

section \<open>Properties\<close>

text \<open>
  C1. Processing native transfers refines the ledger of balances: on accounts that are in the
  cache, the loop over the transactions of a shard (after the genesis block) runs without fault,
  its balances are those of the abstract ledger that moves each accepted amount from sender to
  recipient in order, and the transactions scheduled for deletion are exactly those whose
  sender's balance was below the amount when their turn came.
\<close>

theorem transfers_refine_ledger:
  assumes "index \<noteq> 0" and "\<forall>tx \<in> set txs. tx_type tx = TRANSFER"
    and "\<forall>tx \<in> set txs. tx_from tx \<in> dom (balances_of (p_cache st)) \<and> tx_to tx \<in> dom (balances_of (p_cache st))"
  shows "\<exists>st'. process_all lib hist index txs st = Inr st'
    \<and> balances_of (p_cache st') = foldl spec_tx (balances_of (p_cache st)) txs
    \<and> p_deleted st' = p_deleted st @ spec_rejected (balances_of (p_cache st)) txs"
  using assms by (rule process_all_refines)

definition state_example :: "jval proc" where
  "state_example = empty_proc \<lparr>p_cache := [(''alice'', Live (createEmptyWallet (jval_lib (\<lambda>_. None)) ''alice'' \<lparr>w_balance := 9\<rparr>)),
     (''bob'', Live (createEmptyWallet (jval_lib (\<lambda>_. None)) ''bob''))]\<rparr>"

lemma state_example_balances: "balances_of (p_cache state_example) = [''alice'' \<mapsto> 9, ''bob'' \<mapsto> 0]"
  by (auto simp: balances_of_def state_example_def createEmptyWallet_def)

theorem transfers_refine_ledger_witness:
  "(1 :: u64) \<noteq> 0 \<and> tx_type tx_example = TRANSFER \<and>
   (\<exists>st'. process_all (jval_lib (\<lambda>_. None)) (\<lambda>_. Inl (StdExn ''none'')) 1 [tx_example, tx_example] state_example = Inr st'
     \<and> balances_of (p_cache st') = [''alice'' \<mapsto> 2, ''bob'' \<mapsto> 7] \<and> p_deleted st' = [tx_example])"
proof -
  have tx: "tx_from tx_example = ''alice''" "tx_to tx_example = ''bob''" "tx_amount tx_example = 7" "tx_type tx_example = TRANSFER"
    by (simp_all add: tx_example_def Transaction_extra_def TRANSFER_def)
  let ?m = "[''alice'' \<mapsto> 9, ''bob'' \<mapsto> 0 :: u256]" and ?m' = "[''alice'' \<mapsto> 2, ''bob'' \<mapsto> 7 :: u256]"
  have "accepts ?m tx_example" "\<not> accepts ?m' tx_example" by (simp_all add: accepts_def tx)
  moreover have "move ?m ''alice'' ''bob'' 7 = ?m'" by (auto simp: move_def Let_def)
  ultimately have run: "foldl spec_tx ?m [tx_example, tx_example] = ?m'" "spec_rejected ?m [tx_example, tx_example] = [tx_example]"
    by (simp_all add: spec_tx_def tx)
  have "p_deleted state_example = []" by (simp add: state_example_def empty_proc_def)
  then show ?thesis
    using transfers_refine_ledger [of 1 "[tx_example, tx_example]" state_example "jval_lib (\<lambda>_. None)" "\<lambda>_. Inl (StdExn ''none'')"]
    by (simp add: state_example_balances run tx del: foldl_Cons spec_rejected.simps fun_upd_apply)
qed

text \<open>
  C15. Native transfers neither create nor destroy funds: as long as the balances of the cached
  accounts add up to less than \<open>2 ^ 256\<close>, the sum is the same after a shard of native transfers,
  transfers to oneself and rejected transfers included.
\<close>

theorem transfers_conserve_total:
  assumes "index \<noteq> 0" and "\<forall>tx \<in> set txs. tx_type tx = TRANSFER"
    and "\<forall>tx \<in> set txs. tx_from tx \<in> dom (balances_of (p_cache st)) \<and> tx_to tx \<in> dom (balances_of (p_cache st))"
    and "total_balance (balances_of (p_cache st)) < 2 ^ 256"
  shows "\<exists>st'. process_all lib hist index txs st = Inr st'
    \<and> total_balance (balances_of (p_cache st')) = total_balance (balances_of (p_cache st))"
  using process_all_refines [OF assms(1-3), of lib hist] total_spec [OF finite_balances assms(3,4)] by auto

theorem transfers_conserve_total_witness:
  "total_balance (balances_of (p_cache state_example)) < 2 ^ 256 \<and>
   (\<exists>st'. process_all (jval_lib (\<lambda>_. None)) (\<lambda>_. Inl (StdExn ''none'')) 1 [tx_example, tx_example] state_example = Inr st'
     \<and> total_balance (balances_of (p_cache st')) = 9)"
proof -
  have tx: "tx_from tx_example = ''alice''" "tx_to tx_example = ''bob''" "tx_type tx_example = TRANSFER"
    by (simp_all add: tx_example_def Transaction_extra_def TRANSFER_def)
  have t: "total_balance (balances_of (p_cache state_example)) = 9"
    by (simp add: state_example_balances total_balance_def)
  show ?thesis
    using transfers_conserve_total [of 1 "[tx_example, tx_example]" state_example "jval_lib (\<lambda>_. None)" "\<lambda>_. Inl (StdExn ''none'')"]
    by (simp add: t) (simp add: state_example_balances tx)
qed

text \<open>
  C38. A transaction of a type other than the three the program knows is executed like a native
  transfer but without the check of the sender's balance: when the sender cannot pay, the debit
  fails silently, the recipient is credited all the same and the transaction is recorded, so
  funds appear from nowhere.
\<close>

theorem unknown_type_mints:
  assumes "index \<noteq> 0" and "tx_type tx \<notin> {TRANSFER, TRANSFER_TOKENS, CREATE_TOKENS}"
    and "serializeToJsonTransaction lib tx = Inr doc" and "balances_of (p_cache st) (tx_from tx) = Some a"
    and "balances_of (p_cache st) (tx_to tx) = Some b" and "a < tx_amount tx"
  shows "\<exists>st'. process_tx lib hist index tx st = Inr st'
    \<and> balances_of (p_cache st') = (balances_of (p_cache st))(tx_to tx \<mapsto> b + tx_amount tx)
    \<and> p_writes st' = p_writes st @ [(tx_hash tx, doc)] \<and> p_deleted st' = p_deleted st"
proof -
  obtain s r where sr: "deref (p_cache st) (tx_from tx) = Inr s" "w_balance s = a" "deref (p_cache st) (tx_to tx) = Inr r"
    using assms(4,5) by (auto simp: balances_Some)
  from transfer_effect [OF assms(1,3) sr(1,3), of hist] assms(5,6) sr(2)
  have "\<exists>st'. transfer lib hist index tx st = Inr st'
    \<and> balances_of (p_cache st') = (balances_of (p_cache st))(tx_to tx \<mapsto> b + tx_amount tx)
    \<and> p_writes st' = p_writes st @ [(tx_hash tx, doc)] \<and> p_deleted st' = p_deleted st" by auto
  then show ?thesis
    using assms(2) deref_known [OF sr(1)] deref_known [OF sr(3)] deref_cache_at [OF sr(3)] by (simp add: process_tx_def)
qed

definition odd_tx_example :: "jval transaction" where
  "odd_tx_example = Transaction_extra 5 ''bob'' ''alice'' 3
     (JObj [(''name'', JStr ''n''), (''value'', JStr ''v''), (''bytecode'', JStr ''b'')]) ''h'' ''12'' ''34'' 500 1 2"

theorem unknown_type_mints_witness:
  "tx_type odd_tx_example \<notin> {TRANSFER, TRANSFER_TOKENS, CREATE_TOKENS} \<and>
   (\<exists>st'. process_tx (jval_lib (\<lambda>_. None)) (\<lambda>_. Inl (StdExn ''none'')) 1 odd_tx_example state_example = Inr st'
     \<and> balances_of (p_cache st') = [''alice'' \<mapsto> 509, ''bob'' \<mapsto> 0])"
proof -
  have tx: "tx_from odd_tx_example = ''bob''" "tx_to odd_tx_example = ''alice''" "tx_amount odd_tx_example = 500"
    "tx_type odd_tx_example \<notin> {TRANSFER, TRANSFER_TOKENS, CREATE_TOKENS}"
    by (simp_all add: odd_tx_example_def Transaction_extra_def TRANSFER_def TRANSFER_TOKENS_def CREATE_TOKENS_def)
  obtain doc where doc: "serializeToJsonTransaction (jval_lib (\<lambda>_. None)) odd_tx_example = Inr doc"
    by (simp add: serializeToJsonTransaction_def signed_text_def odd_tx_example_def Transaction_extra_def extra_texts_def
        string_at_def jval_lib_def jval_at_def)
  have m: "balances_of (p_cache state_example) (tx_from odd_tx_example) = Some 0"
    "balances_of (p_cache state_example) (tx_to odd_tx_example) = Some 9" "0 < tx_amount odd_tx_example" "(1 :: u64) \<noteq> 0"
    by (simp_all add: state_example_balances tx)
  have "(balances_of (p_cache state_example))(tx_to odd_tx_example \<mapsto> 9 + tx_amount odd_tx_example)
      = [''alice'' \<mapsto> 509, ''bob'' \<mapsto> 0]" unfolding state_example_balances tx(2,3) by auto
  with unknown_type_mints [OF m(4) tx(4) doc m(1-3), of "\<lambda>_. Inl (StdExn ''none'')"] tx(4) show ?thesis by metis
qed

text \<open>
  A block with more than one shard is undefined behaviour as soon as the first shard leaves an
  account in the cache: its account objects are freed at the end of the shard while their keys
  stay, and the end of the next shard writes every account of the cache again.
\<close>

lemma second_shard_uses_freed_accounts:
  assumes "shard_batch lib users hist index txs empty_proc = Inr (txs', st)" and "p_cache st \<noteq> []"
  shows "\<nexists>r. setTxBatch lib users hist index (txs # txs2 # shards) = Inr r"
proof -
  obtain k v c where c: "p_cache st = (k, v) # c" using assms(2) by (cases "p_cache st") auto
  have "\<forall>(j, x) \<in> set (p_cache st). x = Freed" using assms(1) by (auto simp: shard_batch_def Let_def res_simps)
  with c have "map_of (p_cache st) k = Some Freed" by auto
  from shard_batch_freed [OF this] show ?thesis
    using assms(1) by (auto simp: setTxBatch_def res_simps)
qed

lemma first_shard_example:
  "case shard_batch (jval_lib (\<lambda>_. None)) (\<lambda>as. Inr (map (\<lambda>_. None) as)) (\<lambda>_. Inl (StdExn ''none'')) 1 [tx_example] empty_proc of
     Inr (txs', st) \<Rightarrow> p_cache st \<noteq> [] | Inl _ \<Rightarrow> False"
  by code_simp

end
