(* ===== verification/Blocks.thy ===== *)
theory Blocks
  imports Merkle Ledger
begin

text \<open>
  \<open>blockchain/block\<close>: \<open>BlockHeader\<close>, \<open>Shard\<close>, \<open>Block\<close> and \<open>BlockBuilder\<close>. The plain getters and setters
  are the fields and updates of the records. Removing the last character of an empty string is
  undefined behaviour (\<open>None\<close>), and so is a Merkle tree that is never finished.
\<close>

section \<open>Block header\<close>

record block_header =
  bh_hash :: string
  bh_previousHash :: string
  bh_merkleRoot :: string
  bh_time :: u64
  bh_version :: u64
  bh_transactionCount :: u64
  bh_index :: u64
  bh_size :: u64
  bh_nonce :: int

definition empty_header :: block_header where
  "empty_header = \<lparr>bh_hash = '''', bh_previousHash = '''', bh_merkleRoot = '''', bh_time = 0, bh_version = 0,
     bh_transactionCount = 0, bh_index = 0, bh_size = 0, bh_nonce = 0\<rparr>"

text \<open>The assignment copies every member; the version is first set to the time and then to the version.\<close>

definition header_assign :: "block_header \<Rightarrow> block_header \<Rightarrow> block_header" where
  "header_assign h c2 = h \<lparr>bh_hash := bh_hash c2, bh_previousHash := bh_previousHash c2, bh_merkleRoot := bh_merkleRoot c2,
     bh_time := bh_time c2, bh_version := bh_version c2, bh_transactionCount := bh_transactionCount c2, bh_index := bh_index c2,
     bh_size := bh_size c2, bh_nonce := bh_nonce c2\<rparr>"

definition header_of :: "string \<Rightarrow> u64 \<Rightarrow> u64 \<Rightarrow> u64 \<Rightarrow> int \<Rightarrow> block_header" where
  "header_of previousHash time version index nonce =
     empty_header \<lparr>bh_previousHash := previousHash, bh_time := time, bh_version := version, bh_index := index, bh_nonce := nonce\<rparr>"

definition header_all :: "string \<Rightarrow> string \<Rightarrow> string \<Rightarrow> u64 \<Rightarrow> u64 \<Rightarrow> u64 \<Rightarrow> u64 \<Rightarrow> u64 \<Rightarrow> int \<Rightarrow> block_header" where
  "header_all hash previousHash merkleRoot time version transactionCount index sz nonce =
     \<lparr>bh_hash = hash, bh_previousHash = previousHash, bh_merkleRoot = merkleRoot, bh_time = time, bh_version = version,
      bh_transactionCount = transactionCount, bh_index = index, bh_size = sz, bh_nonce = nonce\<rparr>"

definition header_setHash :: "block_header \<Rightarrow> string \<Rightarrow> block_header" where
  "header_setHash h v = h \<lparr>bh_hash := v\<rparr>"

definition header_setPreviousHash :: "block_header \<Rightarrow> string \<Rightarrow> block_header" where
  "header_setPreviousHash h v = h \<lparr>bh_previousHash := v\<rparr>"

definition header_setMerkleRoot :: "block_header \<Rightarrow> string \<Rightarrow> block_header" where
  "header_setMerkleRoot h v = h \<lparr>bh_merkleRoot := v\<rparr>"

definition header_setTime :: "block_header \<Rightarrow> u64 \<Rightarrow> block_header" where
  "header_setTime h v = h \<lparr>bh_time := v\<rparr>"

definition header_setVersion :: "block_header \<Rightarrow> u64 \<Rightarrow> block_header" where
  "header_setVersion h v = h \<lparr>bh_version := v\<rparr>"

definition header_setTransactionCount :: "block_header \<Rightarrow> u64 \<Rightarrow> block_header" where
  "header_setTransactionCount h v = h \<lparr>bh_transactionCount := v\<rparr>"

definition header_setIndex :: "block_header \<Rightarrow> u64 \<Rightarrow> block_header" where
  "header_setIndex h v = h \<lparr>bh_index := v\<rparr>"

definition header_setSize :: "block_header \<Rightarrow> u64 \<Rightarrow> block_header" where
  "header_setSize h v = h \<lparr>bh_size := v\<rparr>"

definition header_setNonce :: "block_header \<Rightarrow> int \<Rightarrow> block_header" where
  "header_setNonce h v = h \<lparr>bh_nonce := v\<rparr>"

lemmas header_setters = header_setHash_def header_setPreviousHash_def header_setMerkleRoot_def header_setTime_def header_setVersion_def
  header_setTransactionCount_def header_setIndex_def header_setSize_def header_setNonce_def

definition serializeBlockHeader :: "block_header \<Rightarrow> string" where
  \<open>serializeBlockHeader h =
     ''{"hash":"'' @ bh_hash h @ ''", "previousHash":"'' @ bh_previousHash h @ ''", "transactionMerkleRoot":"'' @ bh_merkleRoot h
     @ ''", "time":'' @ dec_of_nat (unat (bh_time h)) @ '', "version":'' @ dec_of_nat (unat (bh_version h))
     @ '', "transactionCount":'' @ dec_of_nat (unat (bh_transactionCount h)) @ '', "index":'' @ dec_of_nat (unat (bh_index h))
     @ '', "size":'' @ dec_of_nat (unat (bh_size h)) @ '', "nonce":'' @ dec_of_int (bh_nonce h)\<close>

section \<open>Shard\<close>

record 'j shard =
  sh_root :: string
  sh_txs :: "'j transaction list"
  sh_id :: string
  sh_signature :: string
  sh_rP :: string
  sh_sP :: string

definition empty_shard :: "'j shard" where
  "empty_shard = \<lparr>sh_root = '''', sh_txs = [], sh_id = '''', sh_signature = '''', sh_rP = '''', sh_sP = ''''\<rparr>"

definition Shard_of :: "'j transaction list \<Rightarrow> 'j shard" where
  "Shard_of txs = empty_shard \<lparr>sh_txs := txs\<rparr>"

text \<open>The root of a Merkle tree that is built and read without a fault.\<close>

definition tree_root :: "string list \<Rightarrow> string option" where
  "tree_root leafs = (case merkle_root leafs of Some (Inr root) \<Rightarrow> Some root | _ \<Rightarrow> None)"

definition setTransactionMerkleRoot :: "'j shard \<Rightarrow> 'j shard option" where
  "setTransactionMerkleRoot sh =
     (case tree_root (filter (\<lambda>h. h \<noteq> '''') (map tx_hash (sh_txs sh))) of
        None \<Rightarrow> None | Some root \<Rightarrow> Some (sh \<lparr>sh_root := root\<rparr>))"

definition insertList :: "'j shard \<Rightarrow> 'j transaction list \<Rightarrow> 'j shard" where
  "insertList sh txs = sh \<lparr>sh_txs := insert_front (sh_txs sh) txs\<rparr>"

definition setShardId :: "'j shard \<Rightarrow> string \<Rightarrow> 'j shard" where
  "setShardId sh addr = sh \<lparr>sh_id := sha3_256 (sha3_256 addr)\<rparr>"

definition setTransactionList :: "'j shard \<Rightarrow> 'j transaction list \<Rightarrow> 'j shard" where
  "setTransactionList sh txs = sh \<lparr>sh_txs := txs\<rparr>"

definition shard_emplaceBack :: "'j shard \<Rightarrow> 'j transaction \<Rightarrow> 'j shard" where
  "shard_emplaceBack sh tx = sh \<lparr>sh_txs := emplace_back (sh_txs sh) tx\<rparr>"

definition shard_setRp :: "'j shard \<Rightarrow> string \<Rightarrow> 'j shard" where
  "shard_setRp sh r = sh \<lparr>sh_rP := r\<rparr>"

definition shard_setSp :: "'j shard \<Rightarrow> string \<Rightarrow> 'j shard" where
  "shard_setSp sh s = sh \<lparr>sh_sP := s\<rparr>"

definition shard_setSignature :: "'j shard \<Rightarrow> string \<Rightarrow> 'j shard" where
  "shard_setSignature sh h = sh \<lparr>sh_signature := h\<rparr>"

lemmas shard_setters = setTransactionList_def shard_emplaceBack_def shard_setRp_def shard_setSp_def shard_setSignature_def

definition serializeTransactions :: "'j shard \<Rightarrow> string option" where
  \<open>serializeTransactions sh = pop_back (concat (map (\<lambda>tx. ''"'' @ tx_hash tx @ ''",'') (sh_txs sh)))\<close>

definition shard_serialize :: "'j shard \<Rightarrow> string option" where
  \<open>shard_serialize sh =
     (case serializeTransactions sh of None \<Rightarrow> None | Some txs \<Rightarrow>
      Some (''{"shardID":"'' @ sh_id sh @ ''", "transactionMerkleRoot":"'' @ sh_root sh @ ''", "transactionList":['' @ txs @ '']''
        @ '', "signature":"'' @ sh_signature sh @ ''", "rP":"'' @ sh_rP sh @ ''", "sP":"'' @ sh_sP sh @ ''"}''))\<close>

definition shard_serializeWithoutSignatures :: "'j shard \<Rightarrow> string option" where
  \<open>shard_serializeWithoutSignatures sh =
     (case serializeTransactions sh of None \<Rightarrow> None | Some txs \<Rightarrow>
      Some (''{"shardID":"'' @ sh_id sh @ ''", "transactionMerkleRoot":"'' @ sh_root sh @ ''", "transactionList":['' @ txs @ '']}''))\<close>

section \<open>Block\<close>

record 'j block =
  bl_header :: block_header
  bl_message :: string
  bl_signP :: string
  bl_rP :: string
  bl_sP :: string
  bl_difficulty :: string
  bl_miner :: string
  bl_rewardProverAddress :: string
  bl_logsBloom :: string
  bl_shards :: "'j shard list"
  bl_reward :: string
  bl_epoch :: string

definition empty_block :: "'j block" where
  "empty_block = \<lparr>bl_header = empty_header, bl_message = '''', bl_signP = '''', bl_rP = '''', bl_sP = '''', bl_difficulty = '''',
     bl_miner = ''LOCAL_TEST'', bl_rewardProverAddress = '''', bl_logsBloom = ''0x0'', bl_shards = [], bl_reward = '''', bl_epoch = ''''\<rparr>"

text \<open>The long constructor leaves the remaining members at their defaults.\<close>

definition Block_of ::
  "string \<Rightarrow> string \<Rightarrow> string \<Rightarrow> u64 \<Rightarrow> u64 \<Rightarrow> u64 \<Rightarrow> u64 \<Rightarrow> u32 \<Rightarrow> int \<Rightarrow> string \<Rightarrow> string \<Rightarrow> string \<Rightarrow> 'j shard list \<Rightarrow> string \<Rightarrow> 'j block" where
  "Block_of hash previousHash merkleRoot time version transactionCount index sz nonce message signP rewardP shardList reward =
     empty_block \<lparr>bl_header := header_all hash previousHash merkleRoot time version transactionCount index (ucast sz) nonce,
       bl_message := message, bl_signP := signP, bl_rewardProverAddress := rewardP, bl_shards := shardList, bl_reward := reward\<rparr>"

definition block_setBlockHeader :: "'j block \<Rightarrow> block_header \<Rightarrow> 'j block" where
  "block_setBlockHeader b h = b \<lparr>bl_header := header_assign (bl_header b) h\<rparr>"

definition block_setMessage :: "'j block \<Rightarrow> string \<Rightarrow> 'j block" where
  "block_setMessage b v = b \<lparr>bl_message := v\<rparr>"

definition block_setSignP :: "'j block \<Rightarrow> string \<Rightarrow> 'j block" where
  "block_setSignP b v = b \<lparr>bl_signP := v\<rparr>"

definition block_setRewardProverAddress :: "'j block \<Rightarrow> string \<Rightarrow> 'j block" where
  "block_setRewardProverAddress b v = b \<lparr>bl_rewardProverAddress := v\<rparr>"

definition block_setShardList :: "'j block \<Rightarrow> 'j shard list \<Rightarrow> 'j block" where
  "block_setShardList b v = b \<lparr>bl_shards := v\<rparr>"

definition block_setReward :: "'j block \<Rightarrow> string \<Rightarrow> 'j block" where
  "block_setReward b v = b \<lparr>bl_reward := v\<rparr>"

definition block_setRp :: "'j block \<Rightarrow> string \<Rightarrow> 'j block" where
  "block_setRp b v = b \<lparr>bl_rP := v\<rparr>"

definition block_setSp :: "'j block \<Rightarrow> string \<Rightarrow> 'j block" where
  "block_setSp b v = b \<lparr>bl_sP := v\<rparr>"

definition block_setEpoch :: "'j block \<Rightarrow> string \<Rightarrow> 'j block" where
  "block_setEpoch b v = b \<lparr>bl_epoch := v\<rparr>"

definition block_setDifficulty :: "'j block \<Rightarrow> string \<Rightarrow> 'j block" where
  "block_setDifficulty b v = b \<lparr>bl_difficulty := v\<rparr>"

definition block_setMiner :: "'j block \<Rightarrow> string \<Rightarrow> 'j block" where
  "block_setMiner b v = b \<lparr>bl_miner := v\<rparr>"

definition block_setLogsBloom :: "'j block \<Rightarrow> string \<Rightarrow> 'j block" where
  "block_setLogsBloom b v = b \<lparr>bl_logsBloom := v\<rparr>"

definition block_emplaceBack :: "'j block \<Rightarrow> 'j shard \<Rightarrow> 'j block" where
  "block_emplaceBack b sh = b \<lparr>bl_shards := emplace_back (bl_shards b) sh\<rparr>"

lemmas block_setters = block_setBlockHeader_def block_setMessage_def block_setSignP_def block_setRewardProverAddress_def block_setShardList_def
  block_setReward_def block_setRp_def block_setSp_def block_setEpoch_def block_setDifficulty_def block_setMiner_def block_setLogsBloom_def
  block_emplaceBack_def

definition serializeShards :: "'j block \<Rightarrow> string option" where
  "serializeShards b =
     (if bl_shards b = [] then Some ''''
      else case those (map shard_serialize (bl_shards b)) of
             None \<Rightarrow> None
           | Some texts \<Rightarrow> pop_back (concat (map (\<lambda>t. t @ '','') texts)))"

definition serializeBlock :: "'j block \<Rightarrow> string option" where
  \<open>serializeBlock b =
     (case serializeShards b of None \<Rightarrow> None | Some shards \<Rightarrow>
      Some (serializeBlockHeader (bl_header b) @ '', "message":"'' @ bl_message b @ ''", "signP":"'' @ bl_signP b
        @ ''", "rP":"'' @ bl_rP b @ ''", "sP":"'' @ bl_sP b @ ''", "rewardProverAddress":"'' @ bl_rewardProverAddress b
        @ ''", "logsBloom": "'' @ bl_logsBloom b @ ''", "difficulty":"'' @ bl_difficulty b @ ''", "miner":"'' @ bl_miner b
        @ ''", "reward":"'' @ bl_reward b @ ''", "shards":['' @ shards @ '']}''))\<close>

text \<open>
  A \<open>stringstream\<close> constructed from a text writes over that text from its beginning.
\<close>

definition overwrite :: "string \<Rightarrow> string \<Rightarrow> string" where
  "overwrite old new = new @ drop (length new) old"

definition serializeForSigning :: "'j block \<Rightarrow> string" where
  \<open>serializeForSigning b =
     overwrite (serializeBlockHeader (bl_header b))
       (''", "message":"'' @ bl_message b @ ''", "rewardProverAddress":"'' @ bl_rewardProverAddress b @ ''", "reward":'' @ bl_reward b @ ''}'')\<close>

text \<open>
  The vector of leaves is constructed with as many empty strings as there are shards, and the
  roots of the shards are appended behind them.
\<close>

definition generateMerkleRoot :: "'j block \<Rightarrow> (string \<times> 'j block) option" where
  "generateMerkleRoot b =
     (let set_root = (\<lambda>r. b \<lparr>bl_header := (bl_header b) \<lparr>bh_merkleRoot := r\<rparr>\<rparr>) in
      if bl_shards b = []
      then Some (bh_hash (bl_header b), set_root (sha3_256 (sha3_256 (replicate 32 (CHR 0x00)))))
      else (case tree_root (replicate (length (bl_shards b)) '''' @ map sh_root (bl_shards b)) of
              None \<Rightarrow> None
            | Some root \<Rightarrow>
                if root = '''' then Some (bh_hash (bl_header b), set_root (sha3_256 (sha3_256 (replicate 32 (CHR 0x00)))))
                else Some (root, set_root root)))"

definition block_generateHash :: "'j block \<Rightarrow> 'j block option" where
  "block_generateHash b =
     (case serializeBlock b of None \<Rightarrow> None | Some t \<Rightarrow>
      Some (b \<lparr>bl_header := (bl_header b) \<lparr>bh_hash := sha3_256 (sha3_256 t)\<rparr>\<rparr>))"

definition getSize :: "'j block \<Rightarrow> (u64 \<times> 'j block) option" where
  "getSize b =
     (if bl_shards b = [] then Some (0, b)
      else case those (map shard_serialize (bl_shards b)) of
             None \<Rightarrow> None
           | Some texts \<Rightarrow>
              (let n = foldl (\<lambda>n t. n + of_nat (length t)) (bh_size (bl_header b)) texts
               in Some (n, b \<lparr>bl_header := (bl_header b) \<lparr>bh_size := n\<rparr>\<rparr>)))"

section \<open>Block builder\<close>

text \<open>
  The builder keeps its own header; \<open>setBlockHeader\<close> copies it over the header of the block. The
  chain of calls of \<open>Blockchain::start\<close>, after the header: the hash is generated before the Merkle
  root, and both before the signature. \<open>sign\<close> is \<open>ecdsa_sign_message\<close> with the prover's key.
\<close>

definition builder_header :: "block_header \<Rightarrow> string \<Rightarrow> u64 \<Rightarrow> u64 \<Rightarrow> block_header" where
  "builder_header h previousHash now index =
     h \<lparr>bh_previousHash := previousHash, bh_time := now, bh_version := 1, bh_index := index, bh_nonce := 0\<rparr>"

definition insertShard :: "'j shard option \<Rightarrow> 'j block \<Rightarrow> 'j block" where
  "insertShard sh b = (case sh of None \<Rightarrow> b | Some s \<Rightarrow> b \<lparr>bl_shards := emplace_back (bl_shards b) s\<rparr>)"

text \<open>\<open>operator=\<close> copies every member; it then reaches its end without returning a value.\<close>

definition block_assign :: "'j block \<Rightarrow> 'j block \<Rightarrow> 'j block" where
  "block_assign b c2 = b \<lparr>bl_header := header_assign (bl_header b) (bl_header c2), bl_message := bl_message c2, bl_signP := bl_signP c2,
     bl_rP := bl_rP c2, bl_sP := bl_sP c2, bl_difficulty := bl_difficulty c2, bl_miner := bl_miner c2,
     bl_rewardProverAddress := bl_rewardProverAddress c2, bl_logsBloom := bl_logsBloom c2, bl_shards := bl_shards c2,
     bl_reward := bl_reward c2, bl_epoch := bl_epoch c2\<rparr>"

definition setProverSign :: "(string \<Rightarrow> (string \<times> string \<times> string) option) \<Rightarrow> 'j block \<Rightarrow> 'j block option" where
  "setProverSign sign b =
     (case sign (serializeForSigning b) of None \<Rightarrow> None
      | Some (r, s, h) \<Rightarrow> Some (b \<lparr>bl_rP := r, bl_sP := s, bl_signP := h\<rparr>))"

definition build_block ::
  "(string \<Rightarrow> (string \<times> string \<times> string) option) \<Rightarrow> string \<Rightarrow> block_header \<Rightarrow> 'j block \<Rightarrow> 'j shard option \<Rightarrow> 'j block option" where
  "build_block sign addressP h b opShard =
     (let b1 = b \<lparr>bl_epoch := ''0x0'', bl_header := h, bl_message := ''test block'', bl_rewardProverAddress := addressP\<rparr>
      in case block_generateHash (insertShard opShard b1) of None \<Rightarrow> None
       | Some b2 \<Rightarrow> (case generateMerkleRoot b2 of None \<Rightarrow> None | Some (_, b3) \<Rightarrow> setProverSign sign b3))"

section \<open>Lemmas\<close>

lemma header_assign_copies: "header_assign h c2 = c2"
  by (cases c2) (simp add: header_assign_def)

lemma block_assign_copies: "block_assign b c2 = c2"
  by (cases c2) (simp add: block_assign_def header_assign_copies)

lemma pop_back_snoc [simp]: "pop_back (xs @ [x]) = Some xs"
  by (simp add: pop_back_def)

lemma tree_root_nonempty: "leaves \<noteq> [] \<Longrightarrow> tree_root leaves = Some (reference_root leaves)"
  by (simp add: tree_root_def merkle_root_reference)

lemma reference_root_nonempty: "leaves \<noteq> [] \<Longrightarrow> reference_root leaves \<noteq> []"
proof -
  assume ne: "leaves \<noteq> []"
  have "sha3_256 t \<noteq> []" for t using length_sha3_256 [of t] by auto
  then have "hash_tree leaves \<noteq> []" if "1 < length leaves"
    using that by (subst hash_tree.simps) (simp add: parent_hash_def)
  with \<open>\<And>t. sha3_256 t \<noteq> []\<close> show ?thesis
    using ne by (cases "length leaves = 1") (auto simp: reference_root_def Suc_lessI)
qed

lemma serializeTransactions_None: "serializeTransactions sh = None \<longleftrightarrow> sh_txs sh = []"
  by (auto simp: serializeTransactions_def pop_back_def)

lemma shard_serialize_None: "shard_serialize sh = None \<longleftrightarrow> sh_txs sh = []"
  using serializeTransactions_None [of sh] by (auto simp: shard_serialize_def split: option.splits)

text \<open>Every shard of the block has a transaction.\<close>

definition nonempty_shards :: "'j block \<Rightarrow> bool" where
  "nonempty_shards b \<longleftrightarrow> (\<forall>sh \<in> set (bl_shards b). sh_txs sh \<noteq> [])"

lemma those_None: "those xs = None \<longleftrightarrow> None \<in> set xs"
proof (induction xs)
  case (Cons x xs)
  then show ?case by (cases x) auto
qed simp

lemma serializeBlock_None: "serializeBlock b = None \<longleftrightarrow> \<not> nonempty_shards b"
proof -
  have texts: "those (map shard_serialize (bl_shards b)) = None \<longleftrightarrow> \<not> nonempty_shards b"
    by (auto simp: those_None nonempty_shards_def shard_serialize_None image_iff) (metis shard_serialize_None)+
  have pop: "pop_back (concat (map (\<lambda>t. t @ '','') texts)) = None \<longleftrightarrow> texts = []" for texts :: "string list"
    by (cases texts) (auto simp: pop_back_def)
  have "those (map shard_serialize (bl_shards b)) = Some texts \<Longrightarrow> bl_shards b \<noteq> [] \<Longrightarrow> texts \<noteq> []" for texts
    by (cases "bl_shards b") (auto split: option.splits)
  then have "bl_shards b \<noteq> [] \<Longrightarrow> serializeShards b = None \<longleftrightarrow> \<not> nonempty_shards b"
    using texts by (cases "those (map shard_serialize (bl_shards b))") (auto simp: serializeShards_def pop)
  then show ?thesis
    by (cases "bl_shards b = []") (auto simp: serializeBlock_def serializeShards_def nonempty_shards_def split: option.splits)
qed

lemma generateMerkleRoot_keeps:
  "\<exists>r root. generateMerkleRoot b = Some (r, b \<lparr>bl_header := (bl_header b) \<lparr>bh_merkleRoot := root\<rparr>\<rparr>)"
proof -
  have "replicate (length (bl_shards b)) '''' @ map sh_root (bl_shards b) \<noteq> []" if "bl_shards b \<noteq> []" using that by simp
  then show ?thesis
    using tree_root_nonempty reference_root_nonempty by (cases "bl_shards b = []") (fastforce simp: generateMerkleRoot_def Let_def)+
qed

lemma build_block_spec:
  assumes "sign = (\<lambda>t. Some (sg t))" and "nonempty_shards (insertShard opShard b)"
  shows "\<exists>b'. build_block sign addressP h b opShard = Some b' \<and> bl_shards b' = bl_shards (insertShard opShard b)
    \<and> bh_previousHash (bl_header b') = bh_previousHash h \<and> bh_index (bl_header b') = bh_index h
    \<and> bl_rewardProverAddress b' = addressP"
proof -
  let ?b = "insertShard opShard (b \<lparr>bl_epoch := ''0x0'', bl_header := h, bl_message := ''test block'', bl_rewardProverAddress := addressP\<rparr>)"
  have sh: "bl_shards ?b = bl_shards (insertShard opShard b)" "bl_header ?b = h" "bl_rewardProverAddress ?b = addressP"
    by (simp_all add: insertShard_def split: option.splits)
  have "serializeBlock ?b \<noteq> None" using assms(2) sh(1) by (simp add: serializeBlock_None nonempty_shards_def)
  then obtain t where "serializeBlock ?b = Some t" by blast
  then have b2: "block_generateHash ?b = Some (?b \<lparr>bl_header := h \<lparr>bh_hash := sha3_256 (sha3_256 t)\<rparr>\<rparr>)"
    by (simp add: block_generateHash_def sh)
  let ?b2 = "?b \<lparr>bl_header := h \<lparr>bh_hash := sha3_256 (sha3_256 t)\<rparr>\<rparr>"
  obtain r root where "generateMerkleRoot ?b2 = Some (r, ?b2 \<lparr>bl_header := (bl_header ?b2) \<lparr>bh_merkleRoot := root\<rparr>\<rparr>)"
    using generateMerkleRoot_keeps by blast
  then show ?thesis
    using b2 sh by (cases "sg (serializeForSigning (?b2 \<lparr>bl_header := (bl_header ?b2) \<lparr>bh_merkleRoot := root\<rparr>\<rparr>))")
      (simp add: build_block_def Let_def setProverSign_def assms(1))
qed

end
