(* ===== verification/Node.thy ===== *)
theory Node
  imports Blocks
begin

text \<open>
  The running node: \<open>pools/TransactionPool.h\<close> and \<open>PendingPool.h\<close>, the shard factory of
  \<open>blockHandler/ShardInserter.h\<close> and the block generator \<open>Blockchain::start\<close>. The two infinite loops
  and the RPC threads share the pool and the list of shards; their atomic actions are the steps of
  a transition relation. A pass of the shard factory is three steps, because it copies the pool,
  appends the shard to the list and empties the pool under separate locks. A pass of the block
  generator is two: it looks at the front of the list, and later removes an element when the block is
  built; what it gets from the clock, the databases and the signature is its environment.
\<close>

section \<open>Transaction pool\<close>

datatype pool_error = OutOfPoolRange | InvalidHashType | OutOfRange

definition pool_emplaceBack :: "'j transaction list \<Rightarrow> 'j transaction \<Rightarrow> 'j transaction list" where
  "pool_emplaceBack pool tx = emplace_back pool tx"

definition pool_dropTransaction :: "'j transaction list \<Rightarrow> 'j transaction \<Rightarrow> 'j transaction list" where
  "pool_dropTransaction pool tx = vector_remove pool tx"

definition pool_getTransaction :: "'j transaction list \<Rightarrow> nat \<Rightarrow> pool_error + 'j transaction" where
  "pool_getTransaction pool i =
     (if length pool < i then Inl OutOfPoolRange else if i < length pool then Inr (pool ! i) else Inl OutOfRange)"

definition pool_getPoolSize :: "'j transaction list \<Rightarrow> nat" where
  "pool_getPoolSize pool = length pool"

definition pool_dropTransactions :: "'j transaction list \<Rightarrow> nat \<Rightarrow> 'j transaction list option" where
  "pool_dropTransactions pool tillPosition = erase_prefix pool tillPosition"

section \<open>Pending pool\<close>

text \<open>
  The three templates compare \<open>decltype(hash)\<close>, which is a reference type, with \<open>std::string\<close>, so
  they throw whatever they are called with.
\<close>

type_synonym 'j pending = "string \<rightharpoonup> 'j transaction"

definition pending_emplaceBack :: "'j json_lib \<Rightarrow> 'j pending \<Rightarrow> 'j transaction \<Rightarrow> exn + 'j pending \<times> 'j transaction" where
  "pending_emplaceBack lib pool tx =
     (if tx_hash tx \<in> dom pool then Inr (pool, tx)
      else res_bind (generateHash lib tx) (\<lambda>tx'.
        Inr (if tx_hash tx' \<in> dom pool then pool else pool(tx_hash tx' \<mapsto> tx'), tx')))"

definition pending_getTransaction :: "'j pending \<Rightarrow> string \<Rightarrow> pool_error + 'j transaction" where
  "pending_getTransaction pool h = Inl InvalidHashType"

definition pending_hasTransaction :: "'j pending \<Rightarrow> string \<Rightarrow> pool_error + bool" where
  "pending_hasTransaction pool h = Inl InvalidHashType"

definition pending_dropTransaction :: "'j pending \<Rightarrow> string \<Rightarrow> pool_error + 'j pending" where
  "pending_dropTransaction pool h = Inl InvalidHashType"

definition pending_getPoolSize :: "'j pending \<Rightarrow> nat" where
  "pending_getPoolSize pool = card (dom pool)"

section \<open>Shard factory\<close>

definition make_shard ::
  "(string \<Rightarrow> string \<times> string \<times> string) \<Rightarrow> string \<Rightarrow> 'j transaction list \<Rightarrow> 'j shard option" where
  "make_shard sign addr txs =
     (let shard1 = insertList empty_shard txs in
      case shard_serializeWithoutSignatures shard1 of None \<Rightarrow> None | Some t \<Rightarrow>
      (let (r, s, h) = sign t
       in Some (shard_setSignature (shard_setSp (shard_setRp (setShardId shard1 addr) r) s) h)))"

lemma pool_getPoolSize_simps [simp]:
  "pool_getPoolSize pool = 0 \<longleftrightarrow> pool = []" "pool_dropTransactions pool (pool_getPoolSize pool) = Some []"
  "pool_dropTransactions (pool @ txs) (pool_getPoolSize pool) = Some txs" "pool_getPoolSize pool \<le> length pool"
  by (simp_all add: pool_getPoolSize_def pool_dropTransactions_def erase_prefix_def)

section \<open>Block generator\<close>

text \<open>
  Where the two loops are: the factory waits for transactions, holds a copy of the pool, has
  appended the shard, or has read the size of the pool again and is about to erase as many
  transactions; the generator has looked at the list or not.
\<close>

datatype 'j factory = Waiting | Copied "'j transaction list" | Pushed | Measured nat

record 'j node =
  n_pool :: "'j transaction list"
  n_factory :: "'j factory"
  n_shards :: "'j shard list"
  n_front :: "'j shard option option"
  n_previous :: "'j block option"
  n_header :: block_header
  n_chain :: "'j block list"
  n_written :: "batch list"
  n_explorer :: "string list"
  n_committed :: "batch list"

record 'j node_env =
  e_lib :: "'j json_lib"
  e_now :: u64
  e_sign :: "string \<Rightarrow> string \<times> string \<times> string"
  e_prover :: string
  e_current :: "exn + string"
  e_users :: "string list \<Rightarrow> db_error + string option list"
  e_history :: "string \<Rightarrow> exn + string"

definition genesis_request :: string where
  \<open>genesis_request = ''{"from": "UNTCoinbase","to": "UNTwLjJNFd7zuoGBzTM5jvAPjdLAwmg","amount": "0x55730","type": 0,"signature": "null","r": "null","s": "null","nonce": 0,"fee":0}''\<close>

definition queue_front :: "'j shard list \<Rightarrow> 'j shard option" where
  "queue_front shards = front shards"

definition built :: "'j block option \<Rightarrow> fault + 'j block" where
  "built b = (case b of None \<Rightarrow> Inl Undefined | Some b \<Rightarrow> Inr b)"

text \<open>
  The first branch: the block after the previous one, with the shard that was at the front of the
  list. The element that is then removed is the one at the end, whatever it is by then.
\<close>

definition next_block :: "'j node_env \<Rightarrow> 'j shard option \<Rightarrow> 'j node \<Rightarrow> 'j block \<Rightarrow> fault + 'j block \<times> 'j node" where
  "next_block env opShard st prev =
     (let h = builder_header (n_header st) (bh_hash (bl_header prev)) (e_now env) (bh_index (bl_header prev) + 1)
      in res_bind (built (build_block (\<lambda>t. Some (e_sign env t)) (e_prover env) h empty_block opShard)) (\<lambda>b.
           case (if opShard \<noteq> None then pop_back (n_shards st) else Some (n_shards st)) of
             None \<Rightarrow> Inl Undefined
           | Some shards \<Rightarrow> Inr (b, st \<lparr>n_header := h, n_shards := shards\<rparr>)))"

text \<open>The second branch: after a restart, from the block that the database holds as the current one.\<close>

definition stored_position :: "'j node_env \<Rightarrow> exn + string \<times> u64" where
  "stored_position env =
     res_bind (e_current env) (\<lambda>t. res_bind (j_parse (e_lib env) t) (\<lambda>v.
     res_bind (string_at (e_lib env) v ''hash'') (\<lambda>h. res_bind (uint64_at (e_lib env) v ''index'') (\<lambda>i. Inr (h, i)))))"

definition restart_block :: "'j node_env \<Rightarrow> 'j node \<Rightarrow> string \<Rightarrow> u64 \<Rightarrow> fault + 'j block \<times> 'j node" where
  "restart_block env st parentHash i =
     (let h = builder_header (n_header st) parentHash (e_now env) i
      in res_bind (built (build_block (\<lambda>t. Some (e_sign env t)) (e_prover env) h empty_block None)) (\<lambda>b. Inr (b, st \<lparr>n_header := h\<rparr>)))"

text \<open>The third branch: the genesis block, with the shard at the front of the list, which stays there.\<close>

definition genesis_block :: "'j node_env \<Rightarrow> 'j shard option \<Rightarrow> 'j node \<Rightarrow> fault + 'j block \<times> 'j node" where
  "genesis_block env opShard st =
     res_bind (throwing (res_bind (parseToGenesis (e_lib env) (e_now env) genesis_request) (generateHash (e_lib env)))) (\<lambda>tx.
     (let h = builder_header (n_header st) ''genesis'' (e_now env) 0;
          b0 = empty_block \<lparr>bl_shards := emplace_back [] (Shard_of [tx])\<rparr>
      in res_bind (built (build_block (\<lambda>t. Some (e_sign env t)) (e_prover env) h b0 opShard)) (\<lambda>b.
           Inr (b, st \<lparr>n_header := h\<rparr>))))"

definition prepare_block :: "'j node_env \<Rightarrow> 'j shard option \<Rightarrow> 'j node \<Rightarrow> fault + 'j block \<times> 'j node" where
  "prepare_block env opShard st =
     (case n_previous st of
        Some prev \<Rightarrow> next_block env opShard st prev
      | None \<Rightarrow>
         (case stored_position env of
            Inr (parentHash, i) \<Rightarrow> restart_block env st parentHash i
          | Inl e \<Rightarrow> genesis_block env opShard st))"

text \<open>
  The transaction thread updates the shards and the size of the block; then the block is written
  under its hash and as the current block, and handed to the explorer.
\<close>

definition replace_txs :: "'j shard list \<Rightarrow> 'j transaction list list \<Rightarrow> 'j shard list" where
  "replace_txs shards txss = map2 (\<lambda>sh txs. sh \<lparr>sh_txs := txs\<rparr>) shards txss"

definition process_block :: "'j node_env \<Rightarrow> 'j block \<Rightarrow> fault + 'j block \<times> 'j proc" where
  "process_block env b =
     res_bind (setTxBatch (e_lib env) (e_users env) (e_history env) (bh_index (bl_header b)) (map sh_txs (bl_shards b))) (\<lambda>(txss, p).
       Inr (b \<lparr>bl_shards := replace_txs (bl_shards b) txss, bl_header := (bl_header b) \<lparr>bh_size := p_size p\<rparr>\<rparr>, p))"

definition commit_block :: "'j block \<Rightarrow> 'j proc \<Rightarrow> 'j node \<Rightarrow> fault + 'j node" where
  "commit_block b p st =
     (case serializeBlock b of
        None \<Rightarrow> Inl Undefined
      | Some t \<Rightarrow>
          Inr (st \<lparr>n_written := n_written st @ [[(bh_hash (bl_header b), t), (''current'', t)]], n_explorer := emplace_back (n_explorer st) t,
            n_committed := n_committed st @ (if p_writes p \<noteq> [] then [p_writes p] else []),
            n_chain := n_chain st @ [b], n_previous := Some b\<rparr>))"

definition produce :: "'j node_env \<Rightarrow> 'j shard option \<Rightarrow> 'j node \<Rightarrow> fault + 'j node" where
  "produce env opShard st =
     res_bind (prepare_block env opShard st) (\<lambda>(b, st1).
     res_bind (process_block env b) (\<lambda>(b', p). commit_block b' p st1))"

section \<open>Transition relation\<close>

text \<open>
  The generator looks at the list in every pass, although the code of the second branch does not:
  there what it saw is not used.
\<close>

datatype 'j event =
  Submit "'j transaction"
| Take
| Push "string \<Rightarrow> string \<times> string \<times> string" string
| Measure
| Drop
| Look
| Produce "'j node_env"

inductive node_step :: "'j node \<Rightarrow> 'j event \<Rightarrow> 'j node \<Rightarrow> bool" where
  submit: "node_step st (Submit tx) (st \<lparr>n_pool := pool_emplaceBack (n_pool st) tx\<rparr>)"
| take: "n_factory st = Waiting \<Longrightarrow> pool_getPoolSize (n_pool st) \<noteq> 0 \<Longrightarrow> node_step st Take (st \<lparr>n_factory := Copied (n_pool st)\<rparr>)"
| push: "n_factory st = Copied txs \<Longrightarrow> make_shard sign addr txs = Some sh \<Longrightarrow>
    node_step st (Push sign addr) (st \<lparr>n_factory := Pushed, n_shards := emplace_back (n_shards st) sh\<rparr>)"
| measure: "n_factory st = Pushed \<Longrightarrow> node_step st Measure (st \<lparr>n_factory := Measured (pool_getPoolSize (n_pool st))\<rparr>)"
| drop: "n_factory st = Measured tillPosition \<Longrightarrow> pool_dropTransactions (n_pool st) tillPosition = Some pool' \<Longrightarrow>
    node_step st Drop (st \<lparr>n_factory := Waiting, n_pool := pool'\<rparr>)"
| look: "n_front st = None \<Longrightarrow> node_step st Look (st \<lparr>n_front := Some (queue_front (n_shards st))\<rparr>)"
| produce: "n_front st = Some opShard \<Longrightarrow> produce env opShard st = Inr st' \<Longrightarrow> node_step st (Produce env) (st' \<lparr>n_front := None\<rparr>)"

inductive_cases submitE: "node_step st (Submit tx) st'"
inductive_cases takeE: "node_step st Take st'"
inductive_cases pushE: "node_step st (Push sign addr) st'"
inductive_cases measureE: "node_step st Measure st'"
inductive_cases dropE: "node_step st Drop st'"
inductive_cases lookE: "node_step st Look st'"
inductive_cases produceE: "node_step st (Produce env) st'"

inductive node_run :: "'j node \<Rightarrow> 'j event list \<Rightarrow> 'j node \<Rightarrow> bool" where
  nil: "node_run st [] st"
| step: "node_run st es st' \<Longrightarrow> node_step st' e st'' \<Longrightarrow> node_run st (es @ [e]) st''"

inductive_simps node_run_nil: "node_run st [] st'"

definition initial_node :: "'j node" where
  "initial_node = \<lparr>n_pool = [], n_factory = Waiting, n_shards = [], n_front = None, n_previous = None, n_header = empty_header, n_chain = [],
     n_written = [], n_explorer = [], n_committed = []\<rparr>"

section \<open>Lemmas\<close>

definition linked :: "'j block \<Rightarrow> 'j block \<Rightarrow> bool" where
  "linked a b \<longleftrightarrow> bh_previousHash (bl_header b) = bh_hash (bl_header a) \<and> bh_index (bl_header b) = bh_index (bl_header a) + 1"

definition chain_invar :: "'j node \<Rightarrow> bool" where
  "chain_invar st \<longleftrightarrow>
     n_previous st = (if n_chain st = [] then None else Some (last (n_chain st)))
     \<and> (\<forall>i. Suc i < length (n_chain st) \<longrightarrow> linked (n_chain st ! i) (n_chain st ! Suc i))
     \<and> length (n_written st) = length (n_chain st) \<and> length (n_explorer st) = length (n_chain st)
     \<and> (\<forall>i < length (n_chain st). \<exists>t. serializeBlock (n_chain st ! i) = Some t \<and> n_explorer st ! i = t
          \<and> n_written st ! i = [(bh_hash (bl_header (n_chain st ! i)), t), (''current'', t)])"

lemma build_block_header:
  assumes "build_block (\<lambda>t. Some (sg t)) addr h b opShard = Some b'"
  shows "bh_previousHash (bl_header b') = bh_previousHash h" and "bh_index (bl_header b') = bh_index h"
    and "bl_shards b' = bl_shards (insertShard opShard b)"
proof -
  have "nonempty_shards (insertShard opShard b)"
  proof (rule ccontr)
    let ?b = "insertShard opShard (b \<lparr>bl_epoch := ''0x0'', bl_header := h, bl_message := ''test block'', bl_rewardProverAddress := addr\<rparr>)"
    assume "\<not> nonempty_shards (insertShard opShard b)"
    moreover have "bl_shards ?b = bl_shards (insertShard opShard b)" by (simp add: insertShard_def split: option.splits)
    ultimately have "serializeBlock ?b = None" by (simp add: serializeBlock_None nonempty_shards_def)
    then show False using assms by (simp add: build_block_def block_generateHash_def Let_def)
  qed
  from build_block_spec [OF refl this, of sg addr h] assms show
    "bh_previousHash (bl_header b') = bh_previousHash h" "bh_index (bl_header b') = bh_index h"
    "bl_shards b' = bl_shards (insertShard opShard b)" by auto
qed

lemma prepare_keeps:
  assumes "prepare_block env opShard st = Inr (b, st1)"
  shows "n_chain st1 = n_chain st" "n_written st1 = n_written st" "n_explorer st1 = n_explorer st" "n_pool st1 = n_pool st"
    "n_factory st1 = n_factory st" "n_previous st1 = n_previous st"
  using assms
  by (auto simp: prepare_block_def next_block_def restart_block_def genesis_block_def Let_def res_simps
      split: option.splits sum.splits if_splits)

lemma built_Inr: "built m = Inr b \<longleftrightarrow> m = Some b"
  by (simp add: built_def split: option.split)

lemma prepare_linked:
  assumes "prepare_block env opShard st = Inr (b, st1)" and "n_previous st = Some prev"
  shows "linked prev b"
proof -
  let ?h = "builder_header (n_header st) (bh_hash (bl_header prev)) (e_now env) (bh_index (bl_header prev) + 1)"
  have "next_block env opShard st prev = Inr (b, st1)" using assms by (simp add: prepare_block_def)
  then have "build_block (\<lambda>t. Some (e_sign env t)) (e_prover env) ?h empty_block opShard = Some b"
    by (auto simp: next_block_def Let_def res_simps built_Inr split: option.splits)
  from build_block_header(1,2) [OF this] show ?thesis by (simp add: linked_def builder_header_def)
qed

lemma process_keeps_header:
  assumes "process_block env b = Inr (b', p)"
  shows "bh_previousHash (bl_header b') = bh_previousHash (bl_header b)" "bh_index (bl_header b') = bh_index (bl_header b)"
    "bh_hash (bl_header b') = bh_hash (bl_header b)"
  using assms by (auto simp: process_block_def res_simps)

lemma chain_invar_snoc:
  assumes inv: "chain_invar st" and "serializeBlock b = Some t" and "\<And>prev. n_previous st = Some prev \<Longrightarrow> linked prev b"
    and st': "n_chain st' = n_chain st @ [b]" "n_previous st' = Some b" "n_explorer st' = n_explorer st @ [t]"
    "n_written st' = n_written st @ [[(bh_hash (bl_header b), t), (''current'', t)]]"
  shows "chain_invar st'"
proof -
  have "linked (n_chain st' ! i) (n_chain st' ! Suc i)" if "Suc i < length (n_chain st')" for i
  proof (cases "Suc i = length (n_chain st)")
    case True
    then have ne: "n_chain st \<noteq> []" by auto
    with True have "n_chain st ! i = last (n_chain st)" by (metis last_conv_nth diff_Suc_1)
    moreover have "n_previous st = Some (last (n_chain st))" using inv ne by (simp add: chain_invar_def)
    ultimately show ?thesis using assms(3) True by (simp add: st' nth_append)
  next
    case False
    then show ?thesis using inv that by (auto simp: st' chain_invar_def nth_append)
  qed
  moreover have "\<exists>t. serializeBlock (n_chain st' ! i) = Some t \<and> n_explorer st' ! i = t
      \<and> n_written st' ! i = [(bh_hash (bl_header (n_chain st' ! i)), t), (''current'', t)]" if "i < length (n_chain st')" for i
    using inv assms(2) that by (cases "i < length (n_chain st)") (simp_all add: chain_invar_def st' nth_append less_Suc_eq)
  ultimately show ?thesis using inv by (simp add: chain_invar_def st')
qed

lemma produce_invar:
  assumes "chain_invar st" and "produce env opShard st = Inr st'"
  shows "chain_invar st'"
proof -
  obtain b st1 b' p where run: "prepare_block env opShard st = Inr (b, st1)" "process_block env b = Inr (b', p)" "commit_block b' p st1 = Inr st'"
    using assms(2) by (auto simp: produce_def res_simps)
  obtain t where t: "serializeBlock b' = Some t" using run(3) by (auto simp: commit_block_def split: option.splits)
  have "linked prev b'" if "n_previous st = Some prev" for prev
    using prepare_linked [OF run(1) that] process_keeps_header [OF run(2)] by (simp add: linked_def)
  then show ?thesis
    using run(3) t prepare_keeps [OF run(1)] by (intro chain_invar_snoc [OF assms(1) t]) (auto simp: commit_block_def emplace_back_def)
qed

lemma chain_invar_cong:
  "chain_invar st \<Longrightarrow> n_chain st' = n_chain st \<Longrightarrow> n_previous st' = n_previous st \<Longrightarrow> n_explorer st' = n_explorer st
     \<Longrightarrow> n_written st' = n_written st \<Longrightarrow> chain_invar st'"
  by (simp add: chain_invar_def)

lemma step_invar: "node_step st e st' \<Longrightarrow> chain_invar st \<Longrightarrow> chain_invar st'"
  by (induction rule: node_step.induct) (auto intro: chain_invar_cong produce_invar)

lemma run_invar: "node_run st es st' \<Longrightarrow> chain_invar st \<Longrightarrow> chain_invar st'"
  by (induction rule: node_run.induct) (auto intro: step_invar)

lemma initial_invar: "chain_invar initial_node"
  by (simp add: chain_invar_def initial_node_def)

lemma commit_block_Inr:
  "nonempty_shards b \<Longrightarrow> \<exists>st'. commit_block b p st = Inr st' \<and> n_chain st' = n_chain st @ [b] \<and> n_previous st' = Some b
     \<and> n_pool st' = n_pool st \<and> n_shards st' = n_shards st \<and> n_factory st' = n_factory st \<and> length (n_explorer st') = Suc (length (n_explorer st))"
  using serializeBlock_None [of b] by (cases "serializeBlock b") (auto simp: commit_block_def emplace_back_def)

lemma next_block_Inr:
  assumes "\<And>sh. opShard = Some sh \<Longrightarrow> sh_txs sh \<noteq> [] \<and> n_shards st \<noteq> []"
  shows "\<exists>b st1. next_block env opShard st prev = Inr (b, st1) \<and> bl_shards b = (case opShard of None \<Rightarrow> [] | Some sh \<Rightarrow> [sh])
    \<and> bh_index (bl_header b) = bh_index (bl_header prev) + 1
    \<and> n_shards st1 = (if opShard = None then n_shards st else butlast (n_shards st))"
proof -
  let ?h = "builder_header (n_header st) (bh_hash (bl_header prev)) (e_now env) (bh_index (bl_header prev) + 1)"
  have sh: "bl_shards (insertShard opShard empty_block) = (case opShard of None \<Rightarrow> [] | Some sh \<Rightarrow> [sh])"
    by (simp add: insertShard_def emplace_back_def empty_block_def split: option.split)
  then have "nonempty_shards (insertShard opShard empty_block)" using assms by (simp add: nonempty_shards_def split: option.split)
  from build_block_spec [OF refl this, of "e_sign env" "e_prover env" ?h] obtain b where
    b: "build_block (\<lambda>t. Some (e_sign env t)) (e_prover env) ?h empty_block opShard = Some b"
    "bl_shards b = bl_shards (insertShard opShard empty_block)" "bh_index (bl_header b) = bh_index ?h" by blast
  have "next_block env opShard st prev = Inr (b, st \<lparr>n_header := ?h,
      n_shards := (if opShard = None then n_shards st else butlast (n_shards st))\<rparr>)"
    unfolding next_block_def Let_def b(1) built_def using assms by (cases opShard) (simp_all add: pop_back_def)
  then show ?thesis using b(2,3) sh by (simp add: builder_header_def)
qed

lemma node_run_Cons: "node_run st' es st'' \<Longrightarrow> node_step st e st' \<Longrightarrow> node_run st (e # es) st''"
proof (induction rule: node_run.induct)
  case (nil st')
  then show ?case using node_run.step [OF node_run.nil, of st e st'] by simp
next
  case (step st' es st1 e' st2)
  then show ?case using node_run.step [of st "e # es" st1 e' st2] by simp
qed

lemma node_run_append: "node_run st' es' st'' \<Longrightarrow> node_run st es st' \<Longrightarrow> node_run st (es @ es') st''"
proof (induction rule: node_run.induct)
  case (step st' es' st1 e st2)
  then show ?case using node_run.step [of st "es @ es'" st1 e st2] by simp
qed simp

lemma node_run_Cons_iff: "node_run st (e # es) st'' \<longleftrightarrow> (\<exists>st'. node_step st e st' \<and> node_run st' es st'')"
proof (induction es arbitrary: st'' rule: rev_induct)
  case Nil
  then show ?case using node_run_Cons [OF node_run.nil] by (auto elim: node_run.cases simp: node_run_nil)
next
  case (snoc e' es)
  have snoc_iff: "node_run a (es1 @ [e']) c \<longleftrightarrow> (\<exists>b. node_run a es1 b \<and> node_step b e' c)" for a es1 and c :: "'a node"
    by (auto elim: node_run.cases intro: node_run.step)
  show ?case using snoc.IH snoc_iff [of st "e # es" st''] snoc_iff [of _ es st''] by auto
qed

lemma make_shard_Some:
  assumes "txs \<noteq> []"
  shows "\<exists>sh. make_shard sign addr txs = Some sh \<and> sh_txs sh = txs"
proof -
  have "serializeTransactions (insertList empty_shard txs) \<noteq> None"
    using assms by (simp add: serializeTransactions_None insertList_def insert_front_def)
  then obtain t where "shard_serializeWithoutSignatures (insertList empty_shard txs) = Some t"
    by (auto simp: shard_serializeWithoutSignatures_def)
  then show ?thesis
    by (auto simp: make_shard_def split_beta setShardId_def shard_setters insertList_def insert_front_def empty_shard_def)
qed

text \<open>With no submission between its two calls, the factory leaves the pool empty.\<close>

lemma clear_run:
  assumes "n_factory st = Pushed"
  shows "node_run st [Measure, Drop] (st \<lparr>n_factory := Waiting, n_pool := []\<rparr>)"
proof -
  let ?si = "st \<lparr>n_factory := Measured (pool_getPoolSize (n_pool st))\<rparr>"
  have "node_step ?si Drop (?si \<lparr>n_factory := Waiting, n_pool := []\<rparr>)"
    by (rule node_step.drop [of _ "pool_getPoolSize (n_pool st)"]) simp_all
  then show ?thesis by (intro node_run_Cons [OF node_run_Cons [OF node_run.nil] node_step.measure [OF assms]]) simp
qed

text \<open>Without interference, a pass of the factory moves the pool into a new shard at the end of the list.\<close>

lemma factory_pass:
  assumes "n_factory st = Waiting" and "n_pool st \<noteq> []"
  shows "\<exists>sh. sh_txs sh = n_pool st
    \<and> node_run st [Take, Push sign addr, Measure, Drop] (st \<lparr>n_shards := n_shards st @ [sh], n_factory := Waiting, n_pool := []\<rparr>)"
proof -
  obtain sh where sh: "make_shard sign addr (n_pool st) = Some sh" "sh_txs sh = n_pool st"
    using make_shard_Some [OF assms(2)] by blast
  let ?st1 = "st \<lparr>n_factory := Copied (n_pool st)\<rparr>" and ?st2 = "st \<lparr>n_factory := Pushed, n_shards := n_shards st @ [sh]\<rparr>"
  have "node_step ?st1 (Push sign addr) (?st1 \<lparr>n_factory := Pushed, n_shards := emplace_back (n_shards ?st1) sh\<rparr>)"
    using sh(1) by (intro node_step.push) simp_all
  then have "node_step ?st1 (Push sign addr) ?st2" by (simp add: emplace_back_def)
  moreover have "node_run ?st2 [Measure, Drop] (?st2 \<lparr>n_factory := Waiting, n_pool := []\<rparr>)"
    by (rule clear_run) simp
  ultimately have "node_run st [Take, Push sign addr, Measure, Drop] (?st2 \<lparr>n_factory := Waiting, n_pool := []\<rparr>)"
    using assms by (intro node_run_Cons [OF node_run_Cons node_step.take]) simp_all
  then show ?thesis using sh(2) by auto
qed

lemma removed_keeps: "t \<in> set xs \<Longrightarrow> t \<notin> set ds \<Longrightarrow> t \<in> set (foldl vector_remove xs ds)"
proof (induction ds arbitrary: xs)
  case (Cons d ds)
  then have "t \<in> set (vector_remove xs d)" by (simp add: vector_remove_def Let_def)
  with Cons show ?case by simp
qed simp

lemma single_shard_result:
  "setTxBatch lib users hist i [txs] = Inr (txss, p) \<Longrightarrow> txss = [foldl vector_remove txs (p_deleted p)]"
  by (auto simp: setTxBatch_def shard_batch_def Let_def res_simps)

lemma empty_build:
  "\<exists>b :: 'j block. build_block (\<lambda>t. Some (sg t)) addr h empty_block None = Some b \<and> bl_shards b = []
     \<and> bh_previousHash (bl_header b) = bh_previousHash h \<and> bh_index (bl_header b) = bh_index h"
proof -
  have sh: "bl_shards (insertShard None (empty_block :: 'j block)) = []" by (simp add: insertShard_def empty_block_def)
  then have "nonempty_shards (insertShard None (empty_block :: 'j block))" by (simp add: nonempty_shards_def)
  from build_block_spec [OF refl this, of sg addr h] show ?thesis by (metis sh)
qed

text \<open>A restarted node takes over the index of the stored block instead of continuing after it.\<close>

lemma restart_repeats_index:
  fixes st :: "'j node"
  assumes "n_previous st = None" and "stored_position env = Inr (h, i)"
  shows "\<exists>b st1. prepare_block env opShard st = Inr (b, st1) \<and> bh_previousHash (bl_header b) = h \<and> bh_index (bl_header b) = i"
proof -
  let ?h = "builder_header (n_header st) h (e_now env) i"
  obtain b :: "'j block" where b: "build_block (\<lambda>t. Some (e_sign env t)) (e_prover env) ?h empty_block None = Some b"
    "bh_previousHash (bl_header b) = bh_previousHash ?h" "bh_index (bl_header b) = bh_index ?h"
    using empty_build by blast
  have "prepare_block env opShard st = Inr (b, st \<lparr>n_header := ?h\<rparr>)"
    using assms by (simp add: prepare_block_def restart_block_def built_def Let_def b(1))
  then show ?thesis using b(2,3) by (simp add: builder_header_def)
qed


section \<open>Properties\<close>

text \<open>
  C3. In every run of the node, whatever the interleaving of submissions, shard factory and block
  generator and whatever the databases and the clock answer, the blocks form a chain: each block
  carries the hash of its predecessor and the next index, and each was written under its own
  hash and as the current block and handed to the explorer, in order.
\<close>

theorem chain_linked:
  assumes "node_run initial_node es st"
  shows "(\<forall>i. Suc i < length (n_chain st) \<longrightarrow>
      bh_previousHash (bl_header (n_chain st ! Suc i)) = bh_hash (bl_header (n_chain st ! i))
      \<and> bh_index (bl_header (n_chain st ! Suc i)) = bh_index (bl_header (n_chain st ! i)) + 1)
    \<and> (\<forall>i < length (n_chain st). \<exists>t. serializeBlock (n_chain st ! i) = Some t \<and> n_explorer st ! i = t
        \<and> n_written st ! i = [(bh_hash (bl_header (n_chain st ! i)), t), (''current'', t)])"
  using run_invar [OF assms initial_invar] by (simp add: chain_invar_def linked_def)

lemma produce_idle:
  assumes "n_previous st = Some prev" and "n_shards st = []" and "n_front st = None"
  shows "\<exists>st' b. node_run st [Look, Produce env] st' \<and> n_chain st' = n_chain st @ [b] \<and> n_previous st' = Some b \<and> n_shards st' = []"
proof -
  let ?st = "st \<lparr>n_front := Some (queue_front (n_shards st))\<rparr>"
  obtain b st1 where b: "next_block env None ?st prev = Inr (b, st1)" "bl_shards b = []" "n_shards st1 = []"
    using next_block_Inr [of None ?st env prev] assms(2) by auto
  have prep: "prepare_block env None ?st = Inr (b, st1)" using assms(1) b(1) by (simp add: prepare_block_def)
  let ?b = "b \<lparr>bl_shards := [], bl_header := (bl_header b) \<lparr>bh_size := 0\<rparr>\<rparr>"
  have pr: "process_block env b = Inr (?b, empty_proc)"
    using b(2) by (simp add: process_block_def setTxBatch_def replace_txs_def empty_proc_def)
  have "nonempty_shards ?b" by (simp add: nonempty_shards_def)
  from commit_block_Inr [OF this, of empty_proc st1] obtain st' where st': "commit_block ?b empty_proc st1 = Inr st'"
    "n_chain st' = n_chain st1 @ [?b]" "n_previous st' = Some ?b" "n_shards st' = n_shards st1" by blast
  have "node_step ?st (Produce env) (st' \<lparr>n_front := None\<rparr>)"
    using prep pr st'(1) assms(2) by (intro node_step.produce [of _ None]) (simp_all add: produce_def queue_front_def front_def)
  from node_run_Cons [OF node_run_Cons [OF node_run.nil this] node_step.look [OF assms(3)]] show ?thesis
    using st'(2-4) b(3) prepare_keeps(1) [OF prep] by auto
qed

definition env_example :: "jval node_env" where
  "env_example = \<lparr>e_lib = jval_lib (\<lambda>_. Some (JObj [(''hash'', JStr ''h0''), (''index'', JNum 41)])), e_now = 5,
     e_sign = (\<lambda>_. (''r'', ''s'', ''m'')), e_prover = ''P'', e_current = Inr ''stored'', e_users = (\<lambda>as. Inr (map (\<lambda>_. None) as)),
     e_history = (\<lambda>_. Inl (StdExn ''none''))\<rparr>"

lemma restart_example:
  "\<exists>st b. node_run initial_node [Look, Produce env_example] st \<and> n_chain st = [b] \<and> n_previous st = Some b \<and> n_shards st = []
     \<and> n_front st = None \<and> n_pool st = [] \<and> n_factory st = Waiting \<and> bh_index (bl_header b) = 41 \<and> length (n_explorer st) = 1"
proof -
  have pos: "stored_position env_example = Inr (''h0'', 41)"
    by (simp add: stored_position_def env_example_def jval_lib_def jval_at_def string_at_def uint64_at_def)
  let ?h = "builder_header empty_header ''h0'' 5 41" and ?si = "initial_node \<lparr>n_front := Some None\<rparr> :: jval node"
  obtain b :: "jval block" where
    b: "build_block (\<lambda>t. Some (e_sign env_example t)) ''P'' ?h empty_block None = Some b" "bl_shards b = []"
    "bh_index (bl_header b) = bh_index ?h"
    using empty_build by blast
  let ?st = "?si \<lparr>n_header := ?h\<rparr>" and ?b = "b \<lparr>bl_shards := [], bl_header := (bl_header b) \<lparr>bh_size := 0\<rparr>\<rparr>"
  have prep: "prepare_block env_example None ?si = Inr (b, ?st)"
    using pos b(1) by (simp add: prepare_block_def restart_block_def initial_node_def env_example_def built_def Let_def)
  have pr: "process_block env_example b = Inr (?b, empty_proc)"
    using b(2) by (simp add: process_block_def setTxBatch_def replace_txs_def empty_proc_def)
  have "nonempty_shards ?b" by (simp add: nonempty_shards_def)
  from commit_block_Inr [OF this, of empty_proc ?st] obtain st' where st': "commit_block ?b empty_proc ?st = Inr st'"
    "n_chain st' = n_chain ?st @ [?b]" "n_previous st' = Some ?b" "n_shards st' = n_shards ?st" "n_pool st' = n_pool ?st"
    "n_factory st' = n_factory ?st" "length (n_explorer st') = Suc (length (n_explorer ?st))" by blast
  have "node_step initial_node Look ?si"
    using node_step.look [of initial_node] by (simp add: initial_node_def queue_front_def front_def)
  moreover have "node_step ?si (Produce env_example) (st' \<lparr>n_front := None\<rparr>)"
    using prep pr st'(1) by (intro node_step.produce [of _ None]) (simp_all add: produce_def)
  ultimately have "node_run initial_node [Look, Produce env_example] (st' \<lparr>n_front := None\<rparr>)"
    by (intro node_run_Cons [OF node_run_Cons [OF node_run.nil]])
  then show ?thesis using st'(2-7) b(3) by (auto simp: initial_node_def builder_header_def)
qed

theorem chain_linked_witness:
  "\<exists>st. node_run initial_node [Look, Produce env_example, Look, Produce env_example] st \<and> length (n_chain st) = 2
     \<and> bh_previousHash (bl_header (n_chain st ! 1)) = bh_hash (bl_header (n_chain st ! 0))
     \<and> bh_index (bl_header (n_chain st ! 1)) = bh_index (bl_header (n_chain st ! 0)) + 1"
proof -
  obtain st b where st: "node_run initial_node [Look, Produce env_example] st" "n_chain st = [b]" "n_previous st = Some b"
    "n_shards st = []" "n_front st = None"
    using restart_example by blast
  obtain st' b' where st': "node_run st [Look, Produce env_example] st'" "n_chain st' = [b] @ [b']"
    using produce_idle [OF st(3-5), of env_example] st(2) by auto
  have run: "node_run initial_node [Look, Produce env_example, Look, Produce env_example] st'"
    using node_run_append [OF st'(1) st(1)] by simp
  then show ?thesis using chain_linked [OF run] st'(2) by (intro exI [of _ st']) simp
qed

definition holds_tx :: "'j node \<Rightarrow> 'j transaction \<Rightarrow> bool" where
  "holds_tx st tx \<longleftrightarrow> tx \<in> set (n_pool st) \<or> (\<exists>txs. n_factory st = Copied txs \<and> tx \<in> set txs)
     \<or> (\<exists>sh \<in> set (n_shards st). tx \<in> set (sh_txs sh)) \<or> (\<exists>sh. n_front st = Some (Some sh) \<and> tx \<in> set (sh_txs sh))
     \<or> (\<exists>b \<in> set (n_chain st). \<exists>sh \<in> set (bl_shards b). tx \<in> set (sh_txs sh))"

lemma push_Some:
  assumes "n_factory st = Copied txs" and "node_step st (Push sign addr) st'"
  shows "\<exists>sh. make_shard sign addr txs = Some sh \<and> sh_txs sh = txs \<and> txs \<noteq> []
    \<and> st' = st \<lparr>n_factory := Pushed, n_shards := n_shards st @ [sh]\<rparr>"
proof -
  obtain sh where sh: "make_shard sign addr txs = Some sh" "st' = st \<lparr>n_factory := Pushed, n_shards := n_shards st @ [sh]\<rparr>"
    using assms by (auto elim!: pushE simp: emplace_back_def)
  have "txs \<noteq> []"
    using sh(1) serializeTransactions_None [of "insertList empty_shard txs"]
    by (auto simp: make_shard_def shard_serializeWithoutSignatures_def insertList_def insert_front_def empty_shard_def)
  then show ?thesis using make_shard_Some [of txs sign addr] sh by auto
qed

lemma drop_empties: "node_run st [Measure, Drop] st' \<Longrightarrow> n_factory st = Pushed \<and> st' = st \<lparr>n_factory := Waiting, n_pool := []\<rparr>"
  by (auto simp: node_run_Cons_iff node_run_nil elim!: measureE dropE)

text \<open>What is submitted after the size has been read stays in the pool.\<close>

lemma submitted_after_measure_stays:
  "node_run st [Measure, Submit tx, Drop] st' \<Longrightarrow> n_pool st' = [tx]"
  by (auto simp: node_run_Cons_iff node_run_nil pool_emplaceBack_def emplace_back_def elim!: measureE submitE dropE)

lemma submit_appends: "node_step st (Submit tx) st' \<Longrightarrow> st' = st \<lparr>n_pool := n_pool st @ [tx]\<rparr>"
  by (auto elim!: submitE simp: pool_emplaceBack_def emplace_back_def)



text \<open>
  The generator removes the shard at the end of the list, not the one it has put into the block: the
  other shards stay, the one in the block among them when it is not the only one.
\<close>

lemma produce_removes_end:
  assumes "n_previous st = Some prev" and "n_front st = Some (Some sh)" and "node_step st (Produce env) st'"
  shows "n_shards st' = butlast (n_shards st) \<and> n_shards st \<noteq> []
    \<and> (\<exists>b b' p. bl_shards b = [sh] \<and> process_block env b = Inr (b', p) \<and> n_chain st' = n_chain st @ [b'])"
proof -
  obtain st2 where st2: "produce env (Some sh) st = Inr st2" "st' = st2 \<lparr>n_front := None\<rparr>" using assms(2,3) by (auto elim!: produceE)
  then obtain b st1 b' p where run: "prepare_block env (Some sh) st = Inr (b, st1)" "process_block env b = Inr (b', p)"
    "commit_block b' p st1 = Inr st2" by (auto simp: produce_def res_simps)
  let ?h = "builder_header (n_header st) (bh_hash (bl_header prev)) (e_now env) (bh_index (bl_header prev) + 1)"
  have nb: "next_block env (Some sh) st prev = Inr (b, st1)" using run(1) assms(1) by (simp add: prepare_block_def)
  then have "build_block (\<lambda>t. Some (e_sign env t)) (e_prover env) ?h empty_block (Some sh) = Some b"
    by (auto simp: next_block_def Let_def res_simps built_Inr split: option.splits)
  from build_block_header(3) [OF this] have "bl_shards b = [sh]" by (simp add: insertShard_def emplace_back_def empty_block_def)
  moreover have "n_shards st1 = butlast (n_shards st) \<and> n_shards st \<noteq> []"
    using nb by (auto simp: next_block_def Let_def res_simps pop_back_def split: option.splits if_splits)
  ultimately show ?thesis
    using run st2(2) prepare_keeps(1) [OF run(1)] by (auto simp: commit_block_def split: option.splits)
qed

text \<open>
  C39. The block generator looks at the front of the list and removes an element in separate calls: a
  shard that the factory appends in between is the one that is removed. Its transactions are in no
  block, while the shard that went into the block is still in the list, to be put into another.
\<close>

theorem shard_pushed_during_pass_is_lost:
  assumes "n_previous st = Some prev" and "n_shards st \<noteq> []" and "node_run st [Look, Push sign addr, Produce env] st'"
  shows "n_shards st' = n_shards st
    \<and> (\<exists>b b' p. bl_shards b = [hd (n_shards st)] \<and> process_block env b = Inr (b', p) \<and> n_chain st' = n_chain st @ [b'])"
proof -
  obtain st1 st2 where run: "node_step st Look st1" "node_step st1 (Push sign addr) st2" "node_step st2 (Produce env) st'"
    using assms(3) by (auto simp: node_run_Cons_iff node_run_nil)
  have st1: "st1 = st \<lparr>n_front := Some (Some (hd (n_shards st)))\<rparr>"
    using run(1) assms(2) by (auto elim!: lookE simp: queue_front_def front_def)
  obtain txs where "n_factory st1 = Copied txs" using run(2) by (auto elim: pushE)
  from push_Some [OF this run(2)] obtain sh where
    st2: "st2 = st1 \<lparr>n_factory := Pushed, n_shards := n_shards st1 @ [sh]\<rparr>" by blast
  show ?thesis
    using produce_removes_end [OF _ _ run(3), of prev "hd (n_shards st)"] assms(1) by (simp add: st2 st1)
qed

text \<open>A pass of the generator with a shard of which processing leaves a transaction ends with a block.\<close>

lemma produce_single:
  assumes "n_previous st = Some prev" and "n_front st = Some (Some sh)" and "n_shards st \<noteq> []"
    and "setTxBatch (e_lib env) (e_users env) (e_history env) (bh_index (bl_header prev) + 1) [sh_txs sh] = Inr (txss, p)"
    and "tx \<in> set (sh_txs sh)" and "tx \<notin> set (p_deleted p)"
  shows "\<exists>st' b. node_step st (Produce env) st' \<and> n_chain st' = n_chain st @ [b] \<and> (\<exists>sh \<in> set (bl_shards b). tx \<in> set (sh_txs sh))
    \<and> n_pool st' = n_pool st \<and> n_shards st' = butlast (n_shards st)"
proof -
  have "sh_txs sh \<noteq> []" using assms(5) by auto
  then obtain b st1 where b: "next_block env (Some sh) st prev = Inr (b, st1)" "bl_shards b = [sh]"
    "bh_index (bl_header b) = bh_index (bl_header prev) + 1" "n_shards st1 = butlast (n_shards st)"
    using next_block_Inr [of "Some sh" st env prev] assms(3) by auto
  have prep: "prepare_block env (Some sh) st = Inr (b, st1)" using assms(1) b(1) by (simp add: prepare_block_def)
  let ?txs = "foldl vector_remove (sh_txs sh) (p_deleted p)"
  let ?b = "b \<lparr>bl_shards := [sh \<lparr>sh_txs := ?txs\<rparr>], bl_header := (bl_header b) \<lparr>bh_size := p_size p\<rparr>\<rparr>"
  have tx: "tx \<in> set ?txs" using removed_keeps [OF assms(5,6)] .
  have pr: "process_block env b = Inr (?b, p)"
    using assms(4) single_shard_result [OF assms(4)] b(2,3) by (simp add: process_block_def replace_txs_def)
  have "nonempty_shards ?b" using tx by (auto simp: nonempty_shards_def)
  from commit_block_Inr [OF this, of p st1] obtain st' where st': "commit_block ?b p st1 = Inr st'"
    "n_chain st' = n_chain st1 @ [?b]" "n_pool st' = n_pool st1" "n_shards st' = n_shards st1" by blast
  have "produce env (Some sh) st = Inr st'" unfolding produce_def prep by (simp add: pr st'(1))
  from node_step.produce [OF assms(2) this] show ?thesis
    using st' tx prepare_keeps(1,4) [OF prep] b(4) by (intro exI [of _ "st' \<lparr>n_front := None\<rparr>"] exI [of _ ?b]) simp
qed

definition zero_tx_example :: "jval transaction" where
  "zero_tx_example = tx_example \<lparr>tx_amount := 0\<rparr>"

lemma zero_batch:
  "\<exists>txss p. setTxBatch (e_lib env_example) (e_users env_example) (e_history env_example) 1 [[zero_tx_example]] = Inr (txss, p)
     \<and> p_deleted p = []"
  by (simp add: env_example_def setTxBatch_def shard_batch_def shard_accounts_def note_account_def cache_emplace_def throwing_def process_tx_def
      cache_at_def deref_def TRANSFER_def CREATE_TOKENS_def transfer_def load_history_def debit_sender_def credit_recipient_def record_tx_def
      assign_cell_def subtract_def increase_def createEmptyWallet_def serializeToJsonTransaction_def signed_text_def empty_proc_def Let_def
      zero_tx_example_def tx_example_def Transaction_extra_def)

theorem shard_pushed_during_pass_is_lost_witness:
  "\<exists>sh st'. sh_txs sh = [zero_tx_example]
     \<and> node_run (initial_node \<lparr>n_previous := Some empty_block, n_shards := [sh], n_factory := Copied [tx_example]\<rparr>)
         [Look, Push (\<lambda>_. (''r'', ''s'', ''m'')) ''P'', Produce env_example] st'
     \<and> n_shards st' = [sh]"
proof -
  define sh where "sh = (empty_shard :: jval shard) \<lparr>sh_txs := [zero_tx_example]\<rparr>"
  let ?sign = "\<lambda>_ :: string. (''r'', ''s'', ''m'')"
  let ?st = "initial_node \<lparr>n_previous := Some empty_block, n_shards := [sh], n_factory := Copied [tx_example]\<rparr>"
  let ?sti = "?st \<lparr>n_front := Some (Some sh)\<rparr>"
  have look: "node_step ?st Look ?sti" using node_step.look [of ?st] by (simp add: initial_node_def queue_front_def front_def)
  obtain new where new: "make_shard ?sign ''P'' [tx_example] = Some new" using make_shard_Some [of "[tx_example]"] by blast
  let ?stp = "?sti \<lparr>n_factory := Pushed, n_shards := emplace_back (n_shards ?sti) new\<rparr>"
  have push: "node_step ?sti (Push ?sign ''P'') ?stp" using new by (intro node_step.push) simp_all
  obtain txss p where p: "setTxBatch (e_lib env_example) (e_users env_example) (e_history env_example) 1 [[zero_tx_example]] = Inr (txss, p)"
    "p_deleted p = []" using zero_batch by blast
  then have p': "setTxBatch (e_lib env_example) (e_users env_example) (e_history env_example)
      (bh_index (bl_header (empty_block :: jval block)) + 1) [sh_txs sh] = Inr (txss, p)"
    by (simp add: sh_def empty_block_def empty_header_def)
  obtain st' where prod: "node_step ?stp (Produce env_example) st'"
    using produce_single [of ?stp empty_block sh env_example, OF _ _ _ p', of zero_tx_example] p(2) by (auto simp: sh_def emplace_back_def)
  have run: "node_run ?st [Look, Push ?sign ''P'', Produce env_example] st'"
    by (rule node_run_Cons [OF node_run_Cons [OF node_run_Cons [OF node_run.nil prod] push] look])
  show ?thesis using shard_pushed_during_pass_is_lost [OF _ _ run, of empty_block] run
    by (intro exI [of _ sh] exI [of _ st']) (simp add: sh_def)
qed

text \<open>
  Without interference a submitted transaction reaches a block: from a state with an empty
  list of shards, one pass of the shard factory and one of the block generator put every
  transaction of the pool into the new block, except those that processing rejects.
\<close>

lemma submitted_reaches_block:
  assumes "n_factory st = Waiting" and "n_front st = None" and "tx \<in> set (n_pool st)" and "n_shards st = []" and "n_previous st = Some prev"
    and "setTxBatch (e_lib env) (e_users env) (e_history env) (bh_index (bl_header prev) + 1) [n_pool st] = Inr (txss, p)"
    and "tx \<notin> set (p_deleted p)"
  shows "\<exists>st' b. node_run st [Take, Push sign addr, Measure, Drop, Look, Produce env] st' \<and> n_chain st' = n_chain st @ [b]
    \<and> (\<exists>sh \<in> set (bl_shards b). tx \<in> set (sh_txs sh)) \<and> n_pool st' = [] \<and> n_shards st' = []"
proof -
  have ne: "n_pool st \<noteq> []" using assms(3) by auto
  obtain sh where sh: "sh_txs sh = n_pool st"
    "node_run st [Take, Push sign addr, Measure, Drop] (st \<lparr>n_shards := [sh], n_factory := Waiting, n_pool := []\<rparr>)"
    using factory_pass [OF assms(1) ne, of sign addr] assms(4) by auto
  let ?si = "st \<lparr>n_shards := [sh], n_factory := Waiting, n_pool := []\<rparr>" and ?st = "st \<lparr>n_shards := [sh], n_factory := Waiting, n_pool := [], n_front := Some (Some sh)\<rparr>"
  have look: "node_step ?si Look ?st" using node_step.look [of ?si] assms(2) by (simp add: queue_front_def front_def)
  have "setTxBatch (e_lib env) (e_users env) (e_history env) (bh_index (bl_header prev) + 1) [sh_txs sh] = Inr (txss, p)"
    using assms(6) sh(1) by simp
  from produce_single [OF _ _ _ this, of ?st tx] obtain st' b where st': "node_step ?st (Produce env) st'" "n_chain st' = n_chain st @ [b]"
    "\<exists>sh \<in> set (bl_shards b). tx \<in> set (sh_txs sh)" "n_pool st' = []" "n_shards st' = []"
    using assms(3,5,7) sh(1) by auto
  from node_run_append [OF node_run_Cons [OF node_run_Cons [OF node_run.nil st'(1)] look] sh(2)] show ?thesis
    using st'(2-5) by (intro exI [of _ st'] exI [of _ b]) simp
qed

section \<open>No thread is stuck\<close>

text \<open>
  What the two loops rely on of each other: shards in the list have transactions, the copy of the
  pool is not empty, the pool has not shrunk since its size was read, and the shard the generator has looked at is still at the front of the list.
\<close>

definition queue_invar :: "'j node \<Rightarrow> bool" where
  "queue_invar st \<longleftrightarrow> (\<forall>sh \<in> set (n_shards st). sh_txs sh \<noteq> []) \<and> (\<forall>txs. n_factory st = Copied txs \<longrightarrow> txs \<noteq> [])
     \<and> (\<forall>n. n_factory st = Measured n \<longrightarrow> n \<le> length (n_pool st))
     \<and> (\<forall>sh. n_front st = Some (Some sh) \<longrightarrow> queue_front (n_shards st) = Some sh)"

lemma prepare_shards:
  assumes "prepare_block env opShard st = Inr (b, st1)"
  shows "set (n_shards st1) \<subseteq> set (n_shards st)"
  using assms
  by (auto simp: prepare_block_def next_block_def restart_block_def genesis_block_def Let_def res_simps pop_back_def
      split: option.splits sum.splits if_splits dest: in_set_butlastD)

lemma produce_keeps:
  assumes "produce env opShard st = Inr st'"
  shows "set (n_shards st') \<subseteq> set (n_shards st)" and "n_factory st' = n_factory st" and "n_pool st' = n_pool st"
proof -
  obtain b st1 b' p where run: "prepare_block env opShard st = Inr (b, st1)" "commit_block b' p st1 = Inr st'"
    using assms by (auto simp: produce_def res_simps)
  have "n_shards st' = n_shards st1" "n_factory st' = n_factory st1" "n_pool st' = n_pool st1"
    using run(2) by (auto simp: commit_block_def split: option.splits)
  then show "set (n_shards st') \<subseteq> set (n_shards st)" "n_factory st' = n_factory st" "n_pool st' = n_pool st"
    using prepare_shards [OF run(1)] prepare_keeps [OF run(1)] by simp_all
qed

lemma step_queue_invar: "node_step st e st' \<Longrightarrow> queue_invar st \<Longrightarrow> queue_invar st'"
proof (induction rule: node_step.induct)
  case (push st txs sign addr sh)
  then have "sh_txs sh = txs" "txs \<noteq> []" using make_shard_Some [of txs sign addr] by (auto simp: queue_invar_def)
  then show ?case
    using push by (auto simp: queue_invar_def emplace_back_def queue_front_def front_def split: if_splits)
next
  case (produce st opShard env st')
  then show ?case using produce_keeps [OF produce(2)] by (auto simp: queue_invar_def)
qed (auto simp: queue_invar_def pool_emplaceBack_def emplace_back_def)

lemma run_queue_invar: "node_run st es st' \<Longrightarrow> queue_invar st \<Longrightarrow> queue_invar st'"
  by (induction rule: node_run.induct) (auto intro: step_queue_invar)

text \<open>
  C13. In every run of the node, however the threads interleave: when the shard factory has copied the
  pool, it can sign and append the shard; when it has appended the shard and read the size of the pool, it can erase as many transactions;
  and when the block generator has looked at the list, it can build the next block, that is, the list
  it removes an element from is not empty and the shard it serialises has transactions.
\<close>

theorem node_threads_not_stuck:
  assumes "node_run initial_node es st"
  shows "(\<forall>txs sign addr. n_factory st = Copied txs \<longrightarrow> (\<exists>st'. node_step st (Push sign addr) st'))
    \<and> (\<forall>n. n_factory st = Measured n \<longrightarrow> (\<exists>st'. node_step st Drop st'))
    \<and> (\<forall>opShard prev env. n_front st = Some opShard \<and> n_previous st = Some prev \<longrightarrow> (\<exists>b st1. prepare_block env opShard st = Inr (b, st1)))"
proof -
  have inv: "queue_invar st" using run_queue_invar [OF assms] by (simp add: queue_invar_def initial_node_def)
  have "\<exists>st'. node_step st (Push sign addr) st'" if "n_factory st = Copied txs" for txs sign addr
    using inv that make_shard_Some [of txs sign addr] node_step.push [OF that] by (auto simp: queue_invar_def)
  moreover have "\<exists>st'. node_step st Drop st'" if "n_factory st = Measured n" for n
    using inv that node_step.drop [OF that] by (auto simp: queue_invar_def pool_dropTransactions_def erase_prefix_def)
  moreover have "\<exists>b st1. prepare_block env opShard st = Inr (b, st1)" if "n_front st = Some opShard" "n_previous st = Some prev"
    for opShard prev env
  proof -
    have "sh_txs sh \<noteq> [] \<and> n_shards st \<noteq> []" if "opShard = Some sh" for sh
      using inv that \<open>n_front st = Some opShard\<close> by (auto simp: queue_invar_def queue_front_def front_def split: if_splits)
    from next_block_Inr [OF this] that(2) show ?thesis by (fastforce simp: prepare_block_def)
  qed
  ultimately show ?thesis by blast
qed

theorem node_threads_not_stuck_witness:
  "\<exists>st st'. node_run initial_node [Submit tx_example, Take] st \<and> node_step st (Push (\<lambda>_. (''r'', ''s'', ''m'')) ''P'') st'"
proof -
  let ?st = "initial_node \<lparr>n_pool := pool_emplaceBack [] tx_example\<rparr>"
  let ?sti = "?st \<lparr>n_factory := Copied (n_pool ?st)\<rparr>"
  have "node_step initial_node (Submit tx_example) ?st" using node_step.submit [of initial_node tx_example] by (simp add: initial_node_def)
  moreover have "node_step ?st Take ?sti" by (intro node_step.take) (simp_all add: initial_node_def pool_emplaceBack_def emplace_back_def)
  ultimately have run: "node_run initial_node [Submit tx_example, Take] ?sti" by (intro node_run_Cons [OF node_run_Cons [OF node_run.nil]])
  have "\<exists>st'. node_step ?sti (Push (\<lambda>_. (''r'', ''s'', ''m'')) ''P'') st'"
    using node_threads_not_stuck [OF run] by simp
  then show ?thesis using run by blast
qed

section \<open>Where transactions come from\<close>

text \<open>The transaction of the genesis block, which the generator makes itself.\<close>

definition genesis_tx :: "'j node_env \<Rightarrow> 'j transaction \<Rightarrow> bool" where
  "genesis_tx env tx \<longleftrightarrow> res_bind (parseToGenesis (e_lib env) (e_now env) genesis_request) (generateHash (e_lib env)) = Inr tx"

lemma removed_subset: "set (foldl vector_remove xs ds) \<subseteq> set xs"
proof (induction ds arbitrary: xs)
  case (Cons d ds)
  then show ?case using set_vector_remove [of xs d] by force
qed simp

lemma shards_batch_subset:
  "shards_batch lib users hist i txss st = Inr (txss', st') \<Longrightarrow> list_all2 (\<lambda>a b. set a \<subseteq> set b) txss' txss"
proof (induction txss arbitrary: st txss')
  case (Cons txs txss)
  obtain txs' st1 txss1 where "shard_batch lib users hist i txs st = Inr (txs', st1)"
    "shards_batch lib users hist i txss st1 = Inr (txss1, st')" "txss' = txs' # txss1"
    using Cons.prems by (auto simp: res_simps)
  moreover from this(1) have "set txs' \<subseteq> set txs"
    using removed_subset by (fastforce simp: shard_batch_def Let_def res_simps)
  ultimately show ?case using Cons.IH by simp
qed simp

lemma replaced_subset:
  "list_all2 (\<lambda>a b. set a \<subseteq> set b) txss (map sh_txs shards) \<Longrightarrow> sh' \<in> set (replace_txs shards txss) \<Longrightarrow>
     \<exists>sh \<in> set shards. set (sh_txs sh') \<subseteq> set (sh_txs sh)"
proof (induction shards arbitrary: txss)
  case (Cons sh shards)
  obtain txs txss1 where txss: "txss = txs # txss1" "set txs \<subseteq> set (sh_txs sh)" "list_all2 (\<lambda>a b. set a \<subseteq> set b) txss1 (map sh_txs shards)"
    using Cons.prems(1) by (cases txss) auto
  show ?case
  proof (cases "sh' = sh \<lparr>sh_txs := txs\<rparr>")
    case True
    then show ?thesis using txss(2) by simp
  next
    case False
    then have "sh' \<in> set (replace_txs shards txss1)" using Cons.prems(2) txss(1) by (simp add: replace_txs_def)
    then show ?thesis using Cons.IH [OF txss(3)] by auto
  qed
qed (simp add: replace_txs_def)

text \<open>Processing a block removes transactions from its shards or repeats them; it adds none.\<close>

lemma process_block_txs:
  assumes "process_block env b = Inr (b', p)" and "sh' \<in> set (bl_shards b')" and "tx \<in> set (sh_txs sh')"
  shows "\<exists>sh \<in> set (bl_shards b). tx \<in> set (sh_txs sh)"
proof -
  obtain txss where txss: "setTxBatch (e_lib env) (e_users env) (e_history env) (bh_index (bl_header b)) (map sh_txs (bl_shards b)) = Inr (txss, p)"
    "bl_shards b' = replace_txs (bl_shards b) txss"
    using assms(1) by (auto simp: process_block_def res_simps)
  have "list_all2 (\<lambda>a b. set a \<subseteq> set b) txss (map sh_txs (bl_shards b))"
    using txss(1) shards_batch_subset by (auto simp: setTxBatch_def split: if_splits)
  from replaced_subset [OF this] assms(2,3) txss(2) show ?thesis by auto
qed

lemma prepare_block_txs:
  assumes "prepare_block env opShard st = Inr (b, st1)" and "sh \<in> set (bl_shards b)" and "tx \<in> set (sh_txs sh)"
  shows "opShard = Some sh \<or> genesis_tx env tx"
proof -
  have built: "sh \<in> set (bl_shards b0) \<or> opShard = Some sh" if "build_block (\<lambda>t. Some (e_sign env t)) (e_prover env) h b0 opShard = Some b" for h b0
    using build_block_header(3) [OF that] assms(2) by (auto simp: insertShard_def emplace_back_def split: option.splits)
  have none: False if "build_block (\<lambda>t. Some (e_sign env t)) (e_prover env) h empty_block None = Some b" for h
    using build_block_header(3) [OF that] assms(2) by (simp add: insertShard_def empty_block_def)
  consider (nxt) prev where "n_previous st = Some prev" | (restart) i h where "n_previous st = None" "stored_position env = Inr (h, i)"
    | (genesis) e where "n_previous st = None" "stored_position env = Inl e"
    by (cases "n_previous st"; cases "stored_position env") auto
  then show ?thesis
  proof cases
    case nxt
    then have "next_block env opShard st prev = Inr (b, st1)" using assms(1) by (simp add: prepare_block_def)
    then obtain h where "build_block (\<lambda>t. Some (e_sign env t)) (e_prover env) h empty_block opShard = Some b"
      by (auto simp: next_block_def Let_def res_simps built_Inr split: option.splits)
    from built [OF this] show ?thesis by (simp add: empty_block_def)
  next
    case restart
    then have "restart_block env st h i = Inr (b, st1)" using assms(1) by (simp add: prepare_block_def)
    then show ?thesis using none by (auto simp: restart_block_def Let_def res_simps built_Inr)
  next
    case genesis
    then have "genesis_block env opShard st = Inr (b, st1)" using assms(1) by (simp add: prepare_block_def)
    then obtain gtx h where g: "genesis_tx env gtx"
      "build_block (\<lambda>t. Some (e_sign env t)) (e_prover env) h (empty_block \<lparr>bl_shards := emplace_back [] (Shard_of [gtx])\<rparr>) opShard = Some b"
      by (auto simp: genesis_block_def genesis_tx_def throwing_def Let_def res_simps built_Inr split: sum.splits)
    from built [OF g(2)] g(1) assms(3) show ?thesis by (auto simp: emplace_back_def Shard_of_def empty_shard_def)
  qed
qed

text \<open>A step of the node brings in no transaction but the one submitted and that of the genesis block.\<close>

lemma step_provenance:
  assumes "node_step st e st'" and "holds_tx st' tx"
  shows "holds_tx st tx \<or> e = Submit tx \<or> (\<exists>env. e = Produce env \<and> genesis_tx env tx)"
  using assms
proof (induction rule: node_step.induct)
  case (submit st tx')
  then show ?case by (auto simp: holds_tx_def pool_emplaceBack_def emplace_back_def)
next
  case (push st txs sign addr sh)
  then have "sh_txs sh = txs" using push_Some [OF push(1) node_step.push [OF push(1,2)]] by (auto simp: emplace_back_def)
  then show ?case using push by (auto simp: holds_tx_def emplace_back_def)
next
  case (drop st n pool')
  then show ?case
    by (auto simp: holds_tx_def pool_dropTransactions_def erase_prefix_def split: if_splits dest: in_set_dropD)
next
  case (look st)
  then show ?case by (auto simp: holds_tx_def queue_front_def front_def split: if_splits)
next
  case (produce st opShard env st')
  obtain b st1 b' p where run: "prepare_block env opShard st = Inr (b, st1)" "process_block env b = Inr (b', p)" "commit_block b' p st1 = Inr st'"
    using produce(2) by (auto simp: produce_def res_simps)
  have chain: "n_chain st' = n_chain st @ [b']"
    using run(3) prepare_keeps(1) [OF run(1)] by (auto simp: commit_block_def split: option.splits)
  have "holds_tx st tx \<or> genesis_tx env tx" if "sh \<in> set (bl_shards b')" "tx \<in> set (sh_txs sh)" for sh
    using process_block_txs [OF run(2) that] prepare_block_txs [OF run(1)] produce(1) by (fastforce simp: holds_tx_def)
  then show ?case using produce(3) produce_keeps [OF produce(2)] chain by (auto simp: holds_tx_def)
qed (auto simp: holds_tx_def)

end
