(* ===== verification/Db.thy ===== *)
theory Db
  imports Ledger
begin

text \<open>
  \<open>db/DB.h\<close>, \<open>db/DBError.h\<close>, \<open>db/JsonMergeOperator.h\<close> and \<open>concurrency/DBWriter.h\<close>: the key-value
  store of the node. RocksDB is a parameter: the status of each attempt to open the database, of
  each read and of a write, on a content that is an explicit state. The attempts of one call are
  numbered, so that an answer may change from one attempt to the next; a call that keeps waiting
  for ever is \<open>None\<close>. The operations also tell how many database handles they leave open.
\<close>

section \<open>RocksDB\<close>

datatype status = kOk | kNotFound | kCorruption | kIOError | kOther nat

type_synonym content = "string \<rightharpoonup> string"

record rocksdb =
  r_open_ro :: "nat \<Rightarrow> status"
  r_open :: "nat \<Rightarrow> status"
  r_get :: "nat \<Rightarrow> content \<Rightarrow> string \<Rightarrow> status \<times> string"
  r_write :: "content \<Rightarrow> batch \<Rightarrow> status \<times> content"
  r_multi_get :: "content \<Rightarrow> string list \<Rightarrow> status list \<times> string list"

text \<open>
  What the documentation of RocksDB promises: a read that succeeds returns the stored value, a
  read answers \<open>kNotFound\<close> only for an absent key, a batch is written as a whole or not at all.
\<close>

definition rocksdb_ok :: "rocksdb \<Rightarrow> bool" where
  "rocksdb_ok db \<longleftrightarrow>
     (\<forall>i c k. (fst (r_get db i c k) = kOk \<longrightarrow> c k = Some (snd (r_get db i c k))) \<and> (fst (r_get db i c k) = kNotFound \<longrightarrow> c k = None))
     \<and> (\<forall>c b. snd (r_write db c b) = (if fst (r_write db c b) = kOk then c ++ map_of (rev b) else c))"

section \<open>Database\<close>

definition db_exn :: "db_error \<Rightarrow> exn" where
  "db_exn e = StdExn (case e of DBCorruption \<Rightarrow> ''DB corruption'' | DBIOError \<Rightarrow> ''DB IO error'' | DBNotFound \<Rightarrow> ''DB not found'')"

text \<open>The waiting loops: from attempt \<open>i\<close>, the first attempt that succeeds.\<close>

partial_function (option) retry :: "(nat \<Rightarrow> bool) \<Rightarrow> nat \<Rightarrow> nat option" where
  "retry ok i = (if ok i then Some i else retry ok (Suc i))"

definition open_for_read :: "rocksdb \<Rightarrow> nat option" where
  "open_for_read db = retry (\<lambda>i. r_open_ro db i = kOk) 0"

definition read_key :: "rocksdb \<Rightarrow> content \<Rightarrow> string \<Rightarrow> ((db_error + string) \<times> nat) option" where
  "read_key db c key =
     (let (st, response) = r_get db 0 c key in
      if st \<noteq> kOk then
        if st = kNotFound then Some (Inl DBNotFound, 0)
        else (case retry (\<lambda>i. fst (r_get db i c key) = kOk) 0 of None \<Rightarrow> None | Some i \<Rightarrow> Some (Inr (snd (r_get db i c key)), 1))
      else Some (Inr response, 1))"

definition BasicDB_get :: "rocksdb \<Rightarrow> content \<Rightarrow> string \<Rightarrow> ((db_error + string) \<times> nat) option" where
  "BasicDB_get db c key =
     (if r_open_ro db 0 = kCorruption then Some (Inl DBCorruption, 0)
      else case open_for_read db of None \<Rightarrow> None | Some _ \<Rightarrow> read_key db c key)"

definition getWithIO :: "rocksdb \<Rightarrow> content \<Rightarrow> string \<Rightarrow> ((db_error + string) \<times> nat) option" where
  "getWithIO db c key =
     (if r_open_ro db 0 = kCorruption then Some (Inl DBCorruption, 0)
      else if r_open_ro db 0 = kIOError then Some (Inl DBIOError, 0)
      else case open_for_read db of None \<Rightarrow> None | Some _ \<Rightarrow> read_key db c key)"

text \<open>
  The loop of \<open>commit\<close> returns after its first pass, whatever the second attempt to open answers;
  that attempt leaves its handle open when it succeeds.
\<close>

definition BasicDB_commit :: "rocksdb \<Rightarrow> content \<Rightarrow> batch \<Rightarrow> (db_error option \<times> content) \<times> nat" where
  "BasicDB_commit db c batch =
     (if r_open db 0 = kCorruption then ((Some DBCorruption, c), 0)
      else if r_open db 0 = kIOError then ((Some DBIOError, c), 0)
      else if r_open db 0 \<noteq> kOk then ((Some DBIOError, c), if r_open db 1 = kOk then 1 else 0)
      else (let (st, c') = r_write db c batch in
            if st = kCorruption then ((Some DBCorruption, c'), 1) else ((None, c'), 0)))"

definition newDB :: "rocksdb \<Rightarrow> ((db_error + unit) \<times> nat) option" where
  "newDB db =
     (if r_open_ro db 0 = kCorruption then Some (Inl DBCorruption, 0)
      else if r_open_ro db 0 = kIOError then Some (Inl DBIOError, 0)
      else case open_for_read db of None \<Rightarrow> None | Some _ \<Rightarrow> Some (Inr (), 1))"

text \<open>The keys become slices once, before or during the wait; the read itself is one call.\<close>

definition multiGet :: "rocksdb \<Rightarrow> content \<Rightarrow> string list \<Rightarrow> ((db_error + status list \<times> string list) \<times> nat) option" where
  "multiGet db c keys =
     (if r_open_ro db 0 = kCorruption then Some (Inl DBCorruption, 0)
      else if r_open_ro db 0 = kIOError then Some (Inl DBIOError, 0)
      else case open_for_read db of None \<Rightarrow> None | Some _ \<Rightarrow> Some (Inr (r_multi_get db c keys), 1))"

text \<open>The read over a handle that the caller opened; not finding the key closes it.\<close>

definition get_open :: "rocksdb \<Rightarrow> content \<Rightarrow> string \<Rightarrow> ((db_error + string) \<times> nat) option" where
  "get_open db c key = read_key db c key"

section \<open>Writer thread\<close>

text \<open>One pass of the thread: the batch at the back is committed and dropped whatever the commit says.\<close>

definition writer_pass :: "rocksdb \<Rightarrow> batch list \<times> content \<Rightarrow> batch list \<times> content" where
  "writer_pass db s = (case s of (deque, c) \<Rightarrow>
     if deque \<noteq> [] then (butlast deque, snd (fst (BasicDB_commit db c (last deque)))) else (deque, c))"

text \<open>
  The same pass in its two accesses to the deque, which has no lock: the thread copies and commits
  the last batch, and removes the last batch; \<open>emplaceBack\<close> may come in between.
\<close>

record db_writer =
  dw_deque :: "batch list"
  dw_content :: content
  dw_committed :: bool

definition dbwriter_emplaceBack :: "batch \<Rightarrow> db_writer \<Rightarrow> db_writer" where
  "dbwriter_emplaceBack b w = w \<lparr>dw_deque := dw_deque w @ [b]\<rparr>"

definition dbwriter_commit :: "rocksdb \<Rightarrow> db_writer \<Rightarrow> db_writer" where
  "dbwriter_commit db w =
     (if dw_deque w \<noteq> [] then w \<lparr>dw_content := snd (fst (BasicDB_commit db (dw_content w) (last (dw_deque w)))), dw_committed := True\<rparr> else w)"

definition dbwriter_pop :: "db_writer \<Rightarrow> db_writer" where
  "dbwriter_pop w = (if dw_committed w then w \<lparr>dw_deque := butlast (dw_deque w), dw_committed := False\<rparr> else w)"

section \<open>Options and operations without an implementation\<close>

text \<open>
  The options of a database that depend on the machine; the quotients are those of \<open>int\<close>. The
  operations that are declared but not implemented return the default value of their result: the
  variants hold their first alternative, an empty text or false, and the null pointer.
\<close>

record db_options =
  do_create_if_missing :: bool
  do_error_if_exists :: bool
  do_unordered_write :: bool
  do_parallelism :: int
  do_max_background_jobs :: int

definition DB_options :: "nat \<Rightarrow> db_options" where
  "DB_options hardware_concurrency =
     (let cpuPiece = int hardware_concurrency div 2
      in \<lparr>do_create_if_missing = True, do_error_if_exists = False, do_unordered_write = True, do_parallelism = cpuPiece,
          do_max_background_jobs = (if cpuPiece div 2 \<le> 2 then 1 else cpuPiece div 2)\<rparr>)"

definition BasicDB_seek :: "string \<Rightarrow> string + exn" where
  "BasicDB_seek key = Inl ''''"

definition BasicDB_has :: "string \<Rightarrow> bool + exn" where
  "BasicDB_has key = Inl False"

definition BasicDB_put :: "string \<Rightarrow> string \<Rightarrow> exn" where
  "BasicDB_put key value = StdExn ''std::exception''"

definition BasicDB_deleteKey :: "string \<Rightarrow> exn option" where
  "BasicDB_deleteKey key = Some (StdExn ''std::exception'')"

definition BasicDB_getSnapshot :: "nat option + exn" where
  "BasicDB_getSnapshot = Inl None"

definition BasicDB_hasSnapshot :: "nat option \<Rightarrow> bool + exn" where
  "BasicDB_hasSnapshot snapshot = Inl False"

section \<open>Merge operator\<close>

text \<open>\<open>trim\<close> is \<open>boost::trim\<close>; the last word is not trimmed.\<close>

fun split_loop :: "(string \<Rightarrow> string) \<Rightarrow> char \<Rightarrow> string \<Rightarrow> string \<Rightarrow> string list \<Rightarrow> string list" where
  "split_loop trim del [] temp words = words @ [temp]"
| "split_loop trim del (i # str) temp words =
     (if i \<noteq> del then split_loop trim del str (temp @ [i]) words
      else split_loop trim del str '''' (words @ [trim temp]))"

definition split :: "(string \<Rightarrow> string) \<Rightarrow> string \<Rightarrow> char \<Rightarrow> string list" where
  "split trim str del = split_loop trim del str '''' []"

text \<open>An operand without the separator makes the code read behind the vector of words.\<close>

fun merge_operands :: "'j json_lib \<Rightarrow> (string \<Rightarrow> string) \<Rightarrow> string list \<Rightarrow> 'j \<Rightarrow> fault + 'j" where
  "merge_operands lib trim [] obj = Inr obj"
| "merge_operands lib trim (value # operands) obj =
     (case split trim value (CHR ''='') of
        a # b # _ \<Rightarrow> res_bind (throwing (res_bind (j_object lib obj) (\<lambda>o'. j_put lib o' a b))) (merge_operands lib trim operands)
      | _ \<Rightarrow> Inl Undefined)"

definition FullMergeV2 :: "'j json_lib \<Rightarrow> (string \<Rightarrow> string) \<Rightarrow> string option \<Rightarrow> string list \<Rightarrow> fault + string option" where
  "FullMergeV2 lib trim existing operands =
     (let merge = (\<lambda>obj. res_bind (merge_operands lib trim operands obj) (\<lambda>obj'. throwing (res_bind (j_string lib obj') (\<lambda>t. Inr (Some t)))))
      in case existing of
           None \<Rightarrow> merge (j_null lib)
         | Some t \<Rightarrow> (case j_parse lib t of Inl _ \<Rightarrow> Inr None | Inr obj \<Rightarrow> merge obj))"

definition PartialMerge :: "(string \<Rightarrow> string) \<Rightarrow> string \<Rightarrow> string \<Rightarrow> string option" where
  "PartialMerge trim left_operand right_operand =
     (if hd (split trim left_operand (CHR ''='')) = hd (split trim right_operand (CHR ''='')) then Some right_operand else None)"

section \<open>Lemmas\<close>

lemma throwing_Inr [res_simps]: "throwing m = Inr x \<longleftrightarrow> m = Inr x"
  by (simp add: throwing_def split: sum.split)

lemma retry_sound: "retry ok i = Some j \<Longrightarrow> ok j \<and> i \<le> j"
proof (erule retry.raw_induct [rotated])
  fix rec and ok :: "nat \<Rightarrow> bool" and i j
  assume IH: "\<And>ok i j. rec ok i = Some j \<Longrightarrow> ok j \<and> i \<le> j" and step: "(if ok i then Some i else rec ok (Suc i)) = Some j"
  show "ok j \<and> i \<le> j" using IH [of ok "Suc i" j] step by (cases "ok i") simp_all
qed

lemma retry_finds: "ok (i + n) \<Longrightarrow> \<exists>j. retry ok i = Some j"
proof (induction n arbitrary: i)
  case 0
  then show ?case by (simp add: retry.simps)
next
  case (Suc n)
  then have "\<exists>j. retry ok (Suc i) = Some j" using Suc.IH [of "Suc i"] by simp
  then show ?case by (subst retry.simps) simp
qed

lemma retry_returns_iff: "(\<exists>j. retry ok i = Some j) \<longleftrightarrow> (\<exists>n. ok (i + n))"
  using retry_sound retry_finds by (metis le_Suc_ex)

lemma retry_first [simp]: "ok i \<Longrightarrow> retry ok i = Some i"
  by (simp add: retry.simps)

lemma open_for_read_iff: "(\<exists>j. open_for_read db = Some j) \<longleftrightarrow> (\<exists>i. r_open_ro db i = kOk)"
  using retry_returns_iff [of "\<lambda>i. r_open_ro db i = kOk" 0] by (simp add: open_for_read_def)

lemma read_key_value:
  assumes "rocksdb_ok db" and "read_key db c key = Some (Inr v, n)"
  shows "c key = Some v \<and> n = 1"
proof -
  have ok: "fst (r_get db i c key) = kOk \<Longrightarrow> c key = Some (snd (r_get db i c key))" for i
    using assms(1) by (simp add: rocksdb_ok_def)
  show ?thesis
  proof (cases "fst (r_get db 0 c key) = kOk")
    case True
    then show ?thesis using assms(2) ok by (simp add: read_key_def split_beta)
  next
    case False
    then obtain i where "retry (\<lambda>i. fst (r_get db i c key) = kOk) 0 = Some i" "v = snd (r_get db i c key)" "n = 1"
      using assms(2) by (auto simp: read_key_def split_beta split: if_splits option.splits)
    then show ?thesis using ok [of i] retry_sound by fastforce
  qed
qed

lemma read_key_absent:
  "rocksdb_ok db \<Longrightarrow> read_key db c key = Some (Inl e, n) \<Longrightarrow> e = DBNotFound \<and> c key = None \<and> n = 0"
  by (auto simp: read_key_def rocksdb_ok_def split_beta split: if_splits option.splits)

lemma read_key_returns_iff:
  "(\<exists>r. read_key db c key = Some r) \<longleftrightarrow> fst (r_get db 0 c key) = kNotFound \<or> (\<exists>i. fst (r_get db i c key) = kOk)"
proof -
  let ?ok = "\<lambda>i. fst (r_get db i c key) = kOk"
  have "(\<exists>j. retry ?ok 0 = Some j) \<longleftrightarrow> (\<exists>i. ?ok i)" using retry_returns_iff [of ?ok 0] by simp
  then show ?thesis by (auto simp: read_key_def split_beta split: option.splits)
qed

lemma split_loop_append: "split_loop trim del str temp (ws @ ws') = ws @ split_loop trim del str temp ws'"
  by (induction str arbitrary: temp ws') simp_all

lemma split_plain: "del \<notin> set str \<Longrightarrow> split_loop trim del str temp [] = [temp @ str]"
  by (induction str arbitrary: temp) auto

lemma split_pair: "del \<notin> set a \<Longrightarrow> del \<notin> set b \<Longrightarrow> split trim (a @ del # b) del = [trim a, b]"
proof -
  have "del \<notin> set a \<Longrightarrow> split_loop trim del (a @ del # b) temp [] = trim (temp @ a) # split_loop trim del b '''' []" for temp
  proof (induction a arbitrary: temp)
    case Nil
    show ?case using split_loop_append [of trim del b "''''" "[trim temp]" "[]"] by simp
  qed auto
  then show "del \<notin> set a \<Longrightarrow> del \<notin> set b \<Longrightarrow> ?thesis" by (simp add: split_def split_plain)
qed

text \<open>
  A merge with at least one operand never produces a value: the merged object is converted to a
  string, which an object is not.
\<close>

lemma merge_operands_object:
  assumes "\<And>v w k t. j_put lib v k t = Inr w \<Longrightarrow> \<exists>e. j_string lib w = Inl e"
  shows "merge_operands lib trim ops obj = Inr obj' \<Longrightarrow> ops \<noteq> [] \<Longrightarrow> \<exists>e. j_string lib obj' = Inl e"
proof (induction ops arbitrary: obj)
  case (Cons op ops)
  then obtain a b ws where "split trim op (CHR ''='') = a # b # ws" by (auto split: list.splits)
  with Cons.prems obtain o1 o2 where step: "j_put lib o1 a b = Inr o2" "merge_operands lib trim ops o2 = Inr obj'"
    by (auto simp: res_simps)
  then show ?case using Cons.IH [OF step(2)] assms [OF step(1)] by (cases "ops = []") auto
qed simp

lemma FullMergeV2_fails:
  assumes "\<And>v w k t. j_put lib v k t = Inr w \<Longrightarrow> \<exists>e. j_string lib w = Inl e" and "ops \<noteq> []"
  shows "FullMergeV2 lib trim existing ops \<noteq> Inr (Some t)"
proof
  assume "FullMergeV2 lib trim existing ops = Inr (Some t)"
  then obtain obj obj' where run: "merge_operands lib trim ops obj = Inr obj'" "j_string lib obj' = Inr t"
    by (auto simp: FullMergeV2_def Let_def res_simps split: option.splits sum.splits)
  show False using merge_operands_object [OF assms(1) run(1) assms(2)] run(2) by auto
qed

interpretation db_writer: back_reader dw_deque dw_committed dbwriter_emplaceBack "dbwriter_commit db" dbwriter_pop for db
  by unfold_locales (simp_all add: dbwriter_emplaceBack_def dbwriter_commit_def dbwriter_pop_def)

lemma dbwriter_undisturbed:
  assumes "\<not> dw_committed w"
  shows "writer_pass db (dw_deque w, dw_content w) = (dw_deque (dbwriter_pop (dbwriter_commit db w)), dw_content (dbwriter_pop (dbwriter_commit db w)))"
  using assms by (simp add: writer_pass_def dbwriter_commit_def dbwriter_pop_def)

text \<open>A batch that is appended while the thread commits another is removed without being committed.\<close>

lemma batch_during_pass_is_lost:
  assumes "dw_deque w = ds @ [d]"
  shows "dw_deque (dbwriter_pop (dbwriter_emplaceBack b (dbwriter_commit db w))) = ds @ [d]
    \<and> dw_content (dbwriter_pop (dbwriter_emplaceBack b (dbwriter_commit db w))) = snd (fst (BasicDB_commit db (dw_content w) d))"
  using db_writer.disturbed [of w "[b]" db] assms by (simp add: dbwriter_commit_def dbwriter_pop_def dbwriter_emplaceBack_def)

lemma background_jobs_positive:
  "1 \<le> do_max_background_jobs (DB_options n)" "do_max_background_jobs (DB_options n) \<le> max 1 (int n div 4)"
  by (auto simp: DB_options_def Let_def)

section \<open>Properties\<close>

definition rocksdb_example :: rocksdb where
  "rocksdb_example = \<lparr>r_open_ro = (\<lambda>i. if i < 2 then kIOError else kOk), r_open = (\<lambda>_. kOk),
     r_get = (\<lambda>i c k. if i = 0 \<and> k = ''slow'' then (kOther 7, '''') else case c k of None \<Rightarrow> (kNotFound, '''') | Some v \<Rightarrow> (kOk, v)),
     r_write = (\<lambda>c b. if length b < 3 then (kOk, c ++ map_of (rev b)) else (kIOError, c)),
     r_multi_get = (\<lambda>c ks. (map (\<lambda>k. if c k = None then kNotFound else kOk) ks, map (\<lambda>k. case c k of None \<Rightarrow> '''' | Some v \<Rightarrow> v) ks))\<rparr>"

lemma rocksdb_example_ok: "rocksdb_ok rocksdb_example"
  by (auto simp: rocksdb_ok_def rocksdb_example_def split: option.splits)

text \<open>
  C28. What is committed can be read back. When the database opens and accepts the batch, \<open>commit\<close>
  reports no error and closes its handle, and a later \<open>get\<close>, on any database that opens at last
  and answers the first read, returns the value that the batch gave the key last.
\<close>

theorem commit_get_roundtrip:
  assumes "rocksdb_ok db" and "r_open db 0 = kOk" and "fst (r_write db c batch) = kOk"
    and "map_of (rev batch) key = Some v"
    and "r_open_ro db 0 \<noteq> kCorruption" and "r_open_ro db i = kOk" and "fst (r_get db 0 (snd (r_write db c batch)) key) = kOk"
  shows "\<exists>c'. BasicDB_commit db c batch = ((None, c'), 0) \<and> c' = c ++ map_of (rev batch)
    \<and> BasicDB_get db c' key = Some (Inr v, 1)"
proof -
  have c': "snd (r_write db c batch) = c ++ map_of (rev batch)" using assms(1,3) by (simp add: rocksdb_ok_def)
  obtain j where "open_for_read db = Some j" using assms(6) open_for_read_iff by blast
  then have get: "BasicDB_get db (c ++ map_of (rev batch)) key = Some (Inr (snd (r_get db 0 (c ++ map_of (rev batch)) key)), 1)"
    using assms(5,7) c' by (simp add: BasicDB_get_def read_key_def split_beta)
  have "(c ++ map_of (rev batch)) key = Some (snd (r_get db 0 (c ++ map_of (rev batch)) key))"
    using assms(1,7) unfolding rocksdb_ok_def c' by blast
  then have "snd (r_get db 0 (c ++ map_of (rev batch)) key) = v" using assms(4) by (simp add: map_add_def)
  then show ?thesis
    using assms(2,3) c' get by (simp add: BasicDB_commit_def split_beta)
qed

theorem commit_get_roundtrip_witness:
  "\<exists>c'. BasicDB_commit rocksdb_example Map.empty [(''k'', ''old''), (''k'', ''new'')] = ((None, c'), 0)
     \<and> BasicDB_get rocksdb_example c' ''k'' = Some (Inr ''new'', 1)"
proof -
  have h: "r_open rocksdb_example 0 = kOk" "fst (r_write rocksdb_example Map.empty [(''k'', ''old''), (''k'', ''new'')]) = kOk"
    "map_of (rev [(''k'', ''old''), (''k'', ''new'')]) ''k'' = Some ''new''" "r_open_ro rocksdb_example 0 \<noteq> kCorruption"
    "r_open_ro rocksdb_example 2 = kOk"
    "fst (r_get rocksdb_example 0 (snd (r_write rocksdb_example Map.empty [(''k'', ''old''), (''k'', ''new'')])) ''k'') = kOk"
    by (simp_all add: rocksdb_example_def)
  show ?thesis using commit_get_roundtrip [OF rocksdb_example_ok h] by blast
qed

text \<open>
  A failed write is reported as a success. Only corruption is reported: when the write fails
  with any other status, \<open>commit\<close> returns no error although the content is unchanged.
\<close>

lemma commit_hides_failed_write:
  assumes "rocksdb_ok db" and "r_open db 0 = kOk" and "fst (r_write db c batch) \<notin> {kOk, kCorruption}"
  shows "BasicDB_commit db c batch = ((None, c), 0)"
  using assms by (simp add: BasicDB_commit_def rocksdb_ok_def split_beta)

text \<open>
  C29. When a read returns and what it returns. \<open>get\<close> returns exactly when the first attempt to open
  answers corruption, or some attempt to open succeeds and the first read answers that the key is
  absent or some read succeeds; in every other case, such as a database that does not exist, it
  waits for ever. What it returns is what is stored: the value of the key, with a handle left
  open, or the report that the key is absent.
\<close>

theorem BasicDB_get_returns_stored:
  assumes "rocksdb_ok db"
  shows "((\<exists>r. BasicDB_get db c key = Some r) \<longleftrightarrow>
      r_open_ro db 0 = kCorruption
      \<or> (\<exists>i. r_open_ro db i = kOk) \<and> (fst (r_get db 0 c key) = kNotFound \<or> (\<exists>i. fst (r_get db i c key) = kOk)))
    \<and> (\<forall>v n. BasicDB_get db c key = Some (Inr v, n) \<longrightarrow> c key = Some v \<and> n = 1)
    \<and> (\<forall>n. BasicDB_get db c key = Some (Inl DBNotFound, n) \<longrightarrow> c key = None \<and> n = 0)"
proof (cases "r_open_ro db 0 = kCorruption")
  case False
  then have get: "BasicDB_get db c key = (if \<exists>i. r_open_ro db i = kOk then read_key db c key else None)"
    using open_for_read_iff [of db] by (auto simp: BasicDB_get_def split: option.splits)
  show ?thesis
    using False read_key_returns_iff [of db c key] read_key_value [OF assms, of c key] read_key_absent [OF assms, of c key]
    unfolding get by auto
qed (simp add: BasicDB_get_def)

theorem BasicDB_get_returns_stored_witness:
  "(\<exists>r. BasicDB_get rocksdb_example [''slow'' \<mapsto> ''v''] ''slow'' = Some r)
     \<and> (\<nexists>r. BasicDB_get (rocksdb_example \<lparr>r_open_ro := \<lambda>_. kIOError\<rparr>) [''slow'' \<mapsto> ''v''] ''slow'' = Some r)"
proof -
  have ok: "rocksdb_ok (rocksdb_example \<lparr>r_open_ro := \<lambda>_. kIOError\<rparr>)" using rocksdb_example_ok by (simp add: rocksdb_ok_def)
  have "r_open_ro rocksdb_example 2 = kOk" "fst (r_get rocksdb_example 1 [''slow'' \<mapsto> ''v''] ''slow'') = kOk"
    by (simp_all add: rocksdb_example_def)
  then have "\<exists>r. BasicDB_get rocksdb_example [''slow'' \<mapsto> ''v''] ''slow'' = Some r"
    using BasicDB_get_returns_stored [OF rocksdb_example_ok] by blast
  moreover have "\<nexists>r. BasicDB_get (rocksdb_example \<lparr>r_open_ro := \<lambda>_. kIOError\<rparr>) [''slow'' \<mapsto> ''v''] ''slow'' = Some r"
    using BasicDB_get_returns_stored [OF ok, of "[''slow'' \<mapsto> ''v'']" "''slow''"] by simp
  ultimately show ?thesis by blast
qed

end
