(* ===== verification/Rpc.thy ===== *)
theory Rpc
  imports Db Node Ecdsa
begin

text \<open>
  The JSON-RPC server: \<open>server/ServerIncludes.h\<close>, \<open>RpcExceptions.h\<close>, \<open>RpcFilterChain.h\<close> and the request
  handling of \<open>http_connection\<close> in \<open>Server.h\<close>. A handler works on the response under construction and
  on the pool and explorer queue it shares with the other threads, and both survive an exception;
  handlers are state transformers that return a value or an exception, or do not return at all
  (\<open>None\<close>: a database that never opens, or undefined behaviour of the signature check). The
  connections and their deadlines are in \<open>Connections\<close>, the filter objects in \<open>Filter_Chain\<close>; of the
  response headers, status and server are modelled.
\<close>

section \<open>Responses\<close>

datatype http_status = ok_status | bad_request

record 'j rpc =
  rp_status :: http_status
  rp_server :: string
  rp_body :: string
  rp_pool :: "'j transaction list"
  rp_explorer :: "string list"

datatype rpcError =
  httpMethodError | parsingError | emptyBalanceError | defaultError | defaultAccountError | badNonce | invalidSignature
| lowBalance | invalidMethod | invalidParameter

primrec message :: "rpcError \<Rightarrow> string" where
  "message httpMethodError = ''HTTP request method not supported''"
| "message parsingError = ''failed to parse request''"
| "message emptyBalanceError = ''empty balance''"
| "message defaultError = ''something went wrong''"
| "message defaultAccountError = ''something happening with your account''"
| "message badNonce = ''old nonce is used for current transaction''"
| "message invalidSignature = ''invalid signature''"
| "message lowBalance = ''low balance''"
| "message invalidMethod = ''method not found''"
| "message invalidParameter = ''invalid parameter''"

primrec error_code :: "rpcError \<Rightarrow> int" where
  "error_code httpMethodError = -32003"
| "error_code parsingError = -32700"
| "error_code emptyBalanceError = -32002"
| "error_code defaultError = -32004"
| "error_code defaultAccountError = -32004"
| "error_code badNonce = -32005"
| "error_code invalidSignature = -32006"
| "error_code lowBalance = -32000"
| "error_code invalidMethod = -32001"
| "error_code invalidParameter = -32001"

definition error_text :: "rpcError \<Rightarrow> string" where
  \<open>error_text e = ''{"jsonrpc": "2.0", "error": {"code": '' @ dec_of_int (error_code e) @ '', "message": "'' @ message e @ ''"}, "id": null}''\<close>

definition create_error_response :: "rpcError \<Rightarrow> 'j rpc \<Rightarrow> 'j rpc" where
  "create_error_response e s = s \<lparr>rp_status := bad_request, rp_server := ''Unit'', rp_body := rp_body s @ error_text e\<rparr>"

definition create_success_response :: "string \<Rightarrow> 'j rpc \<Rightarrow> 'j rpc" where
  "create_success_response t s = s \<lparr>rp_status := ok_status, rp_server := ''unit'', rp_body := rp_body s @ t\<rparr>"

text \<open>The method of \<open>http_connection\<close> with the same name.\<close>

definition connection_error :: "rpcError \<Rightarrow> 'j rpc \<Rightarrow> 'j rpc" where
  "connection_error e s = s \<lparr>rp_status := bad_request, rp_server := ''unit'', rp_body := rp_body s @ error_text e\<rparr>"

definition processSimpleResponse :: "string \<Rightarrow> int \<Rightarrow> string" where
  \<open>processSimpleResponse result i = ''{"jsonrpc": "2.0", "result":'' @ result @ '', "id":"'' @ dec_of_int i @ ''"}''\<close>

definition processSimpleResponse_text :: "string \<Rightarrow> string \<Rightarrow> string" where
  \<open>processSimpleResponse_text result i = ''{"jsonrpc": "2.0", "result":'' @ result @ '', "id":"'' @ i @ ''"}''\<close>

definition processSimpleStringResponse_text :: "string \<Rightarrow> string \<Rightarrow> string" where
  \<open>processSimpleStringResponse_text result i = ''{"jsonrpc": "2.0", "result":"'' @ result @ ''", "id":"'' @ i @ ''"}''\<close>

definition processSimpleStringResponse :: "string \<Rightarrow> int \<Rightarrow> string" where
  \<open>processSimpleStringResponse result i = ''{"jsonrpc": "2.0", "result":"'' @ result @ ''", "id":"'' @ dec_of_int i @ ''"}''\<close>

text \<open>
  The exceptions of \<open>RpcExceptions.h\<close>; \<open>what\<close> is one of the messages. \<open>RpcMethodSupportException\<close> carries
  the message of the HTTP method error.
\<close>

definition rpc_exn :: "rpcError \<Rightarrow> exn" where
  "rpc_exn e = StdExn (message e)"

section \<open>Handlers\<close>

type_synonym ('j, 'a) action = "'j rpc \<Rightarrow> ((exn + 'a) \<times> 'j rpc) option"

definition act_bind :: "('j, 'a) action \<Rightarrow> ('a \<Rightarrow> ('j, 'b) action) \<Rightarrow> ('j, 'b) action" where
  "act_bind m f s = (case m s of None \<Rightarrow> None | Some (Inl e, s') \<Rightarrow> Some (Inl e, s') | Some (Inr x, s') \<Rightarrow> f x s')"

definition act_return :: "'a \<Rightarrow> ('j, 'a) action" where
  "act_return x s = Some (Inr x, s)"

definition act_lift :: "exn + 'a \<Rightarrow> ('j, 'a) action" where
  "act_lift r s = Some (r, s)"

definition act_opt :: "'a option \<Rightarrow> ('j, 'a) action" where
  "act_opt r s = (case r of None \<Rightarrow> None | Some x \<Rightarrow> Some (Inr x, s))"

definition act_do :: "('j rpc \<Rightarrow> 'j rpc) \<Rightarrow> ('j, unit) action" where
  "act_do f s = Some (Inr (), f s)"

text \<open>An error response followed by a throw.\<close>

definition act_fail :: "rpcError \<Rightarrow> rpcError \<Rightarrow> ('j, 'a) action" where
  "act_fail response thrown s = Some (Inl (rpc_exn thrown), create_error_response response s)"

definition act_check :: "bool \<Rightarrow> rpcError \<Rightarrow> rpcError \<Rightarrow> ('j, unit) action" where
  "act_check bad response thrown = (if bad then act_fail response thrown else act_return ())"

record ('j, 'p) rpc_env =
  v_lib :: "'j json_lib"
  v_ec :: "'p ec_lib"
  v_now :: u64
  v_user :: "rocksdb \<times> content"
  v_history :: "rocksdb \<times> content"
  v_block :: "rocksdb \<times> content"
  v_transaction :: "rocksdb \<times> content"

definition act_get :: "rocksdb \<times> content \<Rightarrow> string \<Rightarrow> ('j, string) action" where
  "act_get d key s =
     (case BasicDB_get (fst d) (snd d) key of
        None \<Rightarrow> None | Some (Inl e, _) \<Rightarrow> Some (Inl (db_exn e), s) | Some (Inr t, _) \<Rightarrow> Some (Inr t, s))"

definition param_at :: "'j json_lib \<Rightarrow> 'j \<Rightarrow> string \<Rightarrow> exn + 'j" where
  "param_at lib v key = res_bind (j_at lib v ''params'') (\<lambda>p. j_at lib p key)"

definition param_string :: "'j json_lib \<Rightarrow> 'j \<Rightarrow> string \<Rightarrow> exn + string" where
  "param_string lib v key = res_bind (param_at lib v key) (j_string lib)"

definition int_at :: "'j json_lib \<Rightarrow> 'j \<Rightarrow> string \<Rightarrow> exn + int" where
  "int_at lib v key = res_bind (j_at lib v key) (j_int lib)"

text \<open>
  The balance checks: for type 0 the native balance, for type 1 the balance of the token.
\<close>

definition low_native :: "('j, 'p) rpc_env \<Rightarrow> 'j \<Rightarrow> 'j wallet \<Rightarrow> exn + bool" where
  "low_native env v account =
     res_bind (res_bind (param_at (v_lib env) v ''type'') (j_int (v_lib env))) (\<lambda>ty.
       if ty = 0
       then res_bind (res_bind (param_at (v_lib env) v ''amount'') (compareNativeTokenBalance (v_lib env) account)) (\<lambda>c. Inr (c < 0))
       else Inr False)"

definition low_token :: "('j, 'p) rpc_env \<Rightarrow> 'j \<Rightarrow> 'j wallet \<Rightarrow> exn + bool" where
  "low_token env v account =
     res_bind (res_bind (param_at (v_lib env) v ''type'') (j_int (v_lib env))) (\<lambda>ty.
       if ty = 1
       then res_bind (param_at (v_lib env) v ''amount'') (\<lambda>amount.
            res_bind (res_bind (param_at (v_lib env) v ''extradata'') (\<lambda>ex. j_at (v_lib env) ex ''name'')) (\<lambda>nm.
            res_bind (compareTokenBalance (v_lib env) account amount nm) (\<lambda>c. Inr (c < 0))))
       else Inr False)"

text \<open>
  \<open>get\<close> returns a text or throws, so the variant it is assigned to never holds an exception and the
  branch that answers with an empty balance is never taken.
\<close>

definition transaction_filter :: "('j, 'p) rpc_env \<Rightarrow> 'j \<Rightarrow> ('j, unit) action" where
  "transaction_filter env v =
     (let lib = v_lib env in
      act_bind (act_lift (parse_transaction lib (v_now env) v)) (\<lambda>rawTransaction.
      act_bind (act_lift (param_string lib v ''from'')) (\<lambda>sender.
      act_bind (act_get (v_user env) sender) (\<lambda>dbResponse.
      act_bind (act_lift (parseWallet lib (Some dbResponse))) (\<lambda>opAccount.
      case opAccount of
        None \<Rightarrow> act_fail defaultAccountError emptyBalanceError
      | Some account \<Rightarrow>
          act_bind (act_lift (res_bind (param_at lib v ''nonce'') (j_uint64 lib))) (\<lambda>nonce.
          act_bind (act_check (w_nonce account = nonce) badNonce badNonce) (\<lambda>_.
          act_bind (act_lift (param_string lib v ''r'')) (\<lambda>r.
          act_bind (act_lift (param_string lib v ''s'')) (\<lambda>s.
          act_bind (act_lift (serializeWithoutSignatures lib rawTransaction)) (\<lambda>msg.
          act_bind (act_opt (ecdsa_verify_signature (v_ec env) r s msg sender)) (\<lambda>genuine.
          act_bind (act_check (\<not> genuine) invalidSignature invalidSignature) (\<lambda>_.
          act_bind (act_lift (low_native env v account)) (\<lambda>low0.
          act_bind (act_check low0 lowBalance lowBalance) (\<lambda>_.
          act_bind (act_lift (low_token env v account)) (\<lambda>low1.
          act_bind (act_check low1 lowBalance lowBalance) (\<lambda>_.
          act_bind (act_lift (generateHash lib rawTransaction)) (\<lambda>tx.
          act_bind (act_lift (serializeForResponse lib tx)) (\<lambda>response.
          act_bind (act_do (\<lambda>st. st \<lparr>rp_explorer := emplace_back (rp_explorer st) response\<rparr>)) (\<lambda>_.
          act_bind (act_do (\<lambda>st. st \<lparr>rp_pool := pool_emplaceBack (rp_pool st) tx\<rparr>)) (\<lambda>_.
          act_bind (act_lift (int_at lib v ''id'')) (\<lambda>i.
          act_do (create_success_response (processSimpleStringResponse (tx_hash tx) i)))))))))))))))))))))))"

text \<open>A read of a database under the key that the parameters hold, answered as it is stored.\<close>

definition lookup_filter :: "('j, 'p) rpc_env \<Rightarrow> rocksdb \<times> content \<Rightarrow> 'j \<Rightarrow> ('j, unit) action" where
  "lookup_filter env db v =
     (let lib = v_lib env in
      act_bind (act_lift (res_bind (j_object lib v) (\<lambda>ob. j_contains lib ob ''params''))) (\<lambda>has.
      if \<not> has then act_lift (Inl (rpc_exn invalidParameter))
      else act_bind (act_lift (string_at lib v ''params'')) (\<lambda>key.
           act_bind (act_get db key) (\<lambda>t.
           act_bind (act_lift (int_at lib v ''id'')) (\<lambda>i. act_do (create_success_response (processSimpleResponse t i)))))))"

definition balance_filter :: "('j, 'p) rpc_env \<Rightarrow> 'j \<Rightarrow> ('j, unit) action" where
  "balance_filter env = lookup_filter env (v_user env)"

definition pool_filter :: "('j, 'p) rpc_env \<Rightarrow> 'j \<Rightarrow> ('j, unit) action" where
  "pool_filter env v s =
     act_bind (act_lift (int_at (v_lib env) v ''id'')) (\<lambda>i.
       act_do (create_success_response (processSimpleResponse (dec_of_nat (length (rp_pool s))) i))) s"

definition balance_history_filter :: "('j, 'p) rpc_env \<Rightarrow> 'j \<Rightarrow> ('j, unit) action" where
  "balance_history_filter env = lookup_filter env (v_history env)"

definition block_height_filter :: "('j, 'p) rpc_env \<Rightarrow> 'j \<Rightarrow> ('j, unit) action" where
  "block_height_filter env v =
     act_bind (act_get (v_block env) ''current'') (\<lambda>t.
     act_bind (act_lift (int_at (v_lib env) v ''id'')) (\<lambda>i. act_do (create_success_response (processSimpleResponse t i))))"

definition transaction_by_hash_filter :: "('j, 'p) rpc_env \<Rightarrow> 'j \<Rightarrow> ('j, unit) action" where
  "transaction_by_hash_filter env = lookup_filter env (v_transaction env)"

section \<open>Chain of filters\<close>

text \<open>
  The chain behind the base object. The base object passes a request to the first filter; the
  filters override the method and pass nothing on.
\<close>

definition chain_add :: "('j \<Rightarrow> ('j, unit) action) list \<Rightarrow> ('j \<Rightarrow> ('j, unit) action) \<Rightarrow> ('j \<Rightarrow> ('j, unit) action) list" where
  "chain_add chain n = chain @ [n]"

definition chain_filter :: "('j \<Rightarrow> ('j, unit) action) list \<Rightarrow> 'j \<Rightarrow> ('j, unit) action" where
  "chain_filter chain v = (case chain of [] \<Rightarrow> act_return () | f # _ \<Rightarrow> f v)"

section \<open>Requests\<close>

definition filter_of :: "('j, 'p) rpc_env \<Rightarrow> string \<Rightarrow> ('j \<Rightarrow> ('j, unit) action) option" where
  "filter_of env method =
     (if method = ''transfer'' then Some (transaction_filter env)
      else if method = ''unit_get_balance'' then Some (balance_filter env)
      else if method = ''unit_get_tx_pool_size'' then Some (pool_filter env)
      else if method = ''unit_get_address_tx_history'' then Some (balance_history_filter env)
      else if method = ''unit_get_block_height'' then Some (block_height_filter env)
      else if method = ''unit_get_tx'' then Some (transaction_by_hash_filter env)
      else None)"

definition instruction :: "('j, 'p) rpc_env \<Rightarrow> 'j \<Rightarrow> ('j, unit) action" where
  "instruction env v =
     act_bind (act_lift (string_at (v_lib env) v ''method'')) (\<lambda>method.
     case filter_of env method of
       Some f \<Rightarrow> chain_filter (chain_add [] f) v
     | None \<Rightarrow> act_bind (act_do (connection_error invalidMethod)) (\<lambda>_. act_lift (Inl (rpc_exn httpMethodError))))"

text \<open>Every exception is caught; when nothing was answered before, the answer is the default error.\<close>

definition process_instruction :: "('j, 'p) rpc_env \<Rightarrow> 'j \<Rightarrow> 'j rpc \<Rightarrow> 'j rpc option" where
  "process_instruction env v s =
     (case instruction env v s of
        None \<Rightarrow> None
      | Some (Inl e, s') \<Rightarrow> Some (if rp_body s' = '''' then connection_error defaultError s' else s')
      | Some (Inr _, s') \<Rightarrow> Some s')"

datatype verb = verb_get | verb_post | verb_other

definition process_request :: "('j, 'p) rpc_env \<Rightarrow> verb \<Rightarrow> string \<Rightarrow> 'j rpc \<Rightarrow> 'j rpc option" where
  "process_request env method body s =
     (case method of
        verb_get \<Rightarrow> Some (connection_error httpMethodError s)
      | verb_post \<Rightarrow> (case j_parse (v_lib env) body of Inl _ \<Rightarrow> Some (connection_error parsingError s) | Inr v \<Rightarrow> process_instruction env v s)
      | verb_other \<Rightarrow> Some (connection_error httpMethodError s))"

definition new_connection :: "'j transaction list \<Rightarrow> string list \<Rightarrow> 'j rpc" where
  "new_connection pool explorer = \<lparr>rp_status = ok_status, rp_server = '''', rp_body = '''', rp_pool = pool, rp_explorer = explorer\<rparr>"

section \<open>Lemmas\<close>

lemma act_simps [simp]:
  "act_bind (act_lift r) f s = (case r of Inl e \<Rightarrow> Some (Inl e, s) | Inr x \<Rightarrow> f x s)"
  "act_bind (act_check bad e t) g s = (if bad then Some (Inl (rpc_exn t), create_error_response e s) else g () s)"
  "act_bind (act_opt r') h s = (case r' of None \<Rightarrow> None | Some x \<Rightarrow> h x s)"
  "act_bind (act_do k) g s = g () (k s)"
  "act_lift r s = Some (r, s)" "act_do k s = Some (Inr (), k s)" "act_return x s = Some (Inr x, s)"
  "act_fail e t s = Some (Inl (rpc_exn t), create_error_response e s)"
  by (simp_all add: act_bind_def act_lift_def act_check_def act_fail_def act_return_def act_opt_def act_do_def split: sum.split option.split)

lemma act_get_simps [simp]:
  "act_bind (act_get d key) f s =
     (case BasicDB_get (fst d) (snd d) key of
        None \<Rightarrow> None | Some (Inl e, _) \<Rightarrow> Some (Inl (db_exn e), s) | Some (Inr t, _) \<Rightarrow> f t s)"
  by (simp add: act_bind_def act_get_def split: option.split sum.split prod.split)

lemma response_simps [simp]:
  "rp_pool (create_error_response e s) = rp_pool s" "rp_explorer (create_error_response e s) = rp_explorer s"
  "rp_pool (create_success_response t s) = rp_pool s" "rp_explorer (create_success_response t s) = rp_explorer s"
  "rp_pool (connection_error e s) = rp_pool s" "rp_explorer (connection_error e s) = rp_explorer s"
  "rp_body (create_error_response e s) = rp_body s @ error_text e" "rp_body (create_success_response t s) = rp_body s @ t"
  "rp_body (connection_error e s) = rp_body s @ error_text e"
  by (simp_all add: create_error_response_def create_success_response_def connection_error_def)

lemma texts_nonempty [simp]:
  "error_text e \<noteq> ''''" "processSimpleResponse t i \<noteq> ''''" "processSimpleStringResponse t i \<noteq> ''''"
  by (simp_all add: error_text_def processSimpleResponse_def processSimpleStringResponse_def)

text \<open>
  What a transfer has to satisfy to be admitted: it parses, the stored account of the sender
  parses and has another nonce, the signature is genuine for the sender's address, and the
  balance suffices.
\<close>

definition account_ok :: "('j, 'p) rpc_env \<Rightarrow> 'j \<Rightarrow> string \<Rightarrow> 'j wallet \<Rightarrow> bool" where
  "account_ok env v sender account \<longleftrightarrow>
     (\<exists>text n nonce. BasicDB_get (fst (v_user env)) (snd (v_user env)) sender = Some (Inr text, n)
       \<and> parseWallet (v_lib env) (Some text) = Inr (Some account)
       \<and> res_bind (param_at (v_lib env) v ''nonce'') (j_uint64 (v_lib env)) = Inr nonce \<and> w_nonce account \<noteq> nonce)
     \<and> low_native env v account = Inr False \<and> low_token env v account = Inr False"

definition signature_ok :: "('j, 'p) rpc_env \<Rightarrow> 'j \<Rightarrow> string \<Rightarrow> 'j transaction \<Rightarrow> bool" where
  "signature_ok env v sender raw \<longleftrightarrow>
     (\<exists>r s msg. param_string (v_lib env) v ''r'' = Inr r \<and> param_string (v_lib env) v ''s'' = Inr s
       \<and> serializeWithoutSignatures (v_lib env) raw = Inr msg \<and> ecdsa_verify_signature (v_ec env) r s msg sender = Some True)"

definition admissible :: "('j, 'p) rpc_env \<Rightarrow> 'j \<Rightarrow> 'j transaction \<Rightarrow> string \<Rightarrow> bool" where
  "admissible env v tx response \<longleftrightarrow>
     (\<exists>raw sender account. parse_transaction (v_lib env) (v_now env) v = Inr raw \<and> param_string (v_lib env) v ''from'' = Inr sender
       \<and> account_ok env v sender account \<and> signature_ok env v sender raw
       \<and> generateHash (v_lib env) raw = Inr tx \<and> serializeForResponse (v_lib env) tx = Inr response)"

definition submitted :: "'j transaction \<Rightarrow> string \<Rightarrow> 'j rpc \<Rightarrow> 'j rpc" where
  "submitted tx response s = s \<lparr>rp_explorer := rp_explorer s @ [response], rp_pool := rp_pool s @ [tx]\<rparr>"

lemma transaction_filter_admitted:
  assumes "admissible env v tx response"
  shows "transaction_filter env v s =
    (case int_at (v_lib env) v ''id'' of
       Inl e \<Rightarrow> Some (Inl e, submitted tx response s)
     | Inr i \<Rightarrow> Some (Inr (), create_success_response (processSimpleStringResponse (tx_hash tx) i) (submitted tx response s)))"
  using assms
  by (auto simp: admissible_def account_ok_def signature_ok_def transaction_filter_def Let_def submitted_def emplace_back_def pool_emplaceBack_def
      split: sum.split)

lemma transaction_filter_refused:
  assumes "transaction_filter env v s = Some (r, s')" and "\<And>tx response. \<not> admissible env v tx response"
  shows "rp_pool s' = rp_pool s \<and> rp_explorer s' = rp_explorer s \<and> (\<exists>e. r = Inl e)"
  using assms
  by (auto simp: admissible_def account_ok_def signature_ok_def transaction_filter_def Let_def
      split: sum.splits option.splits if_splits prod.splits)

lemmas lookup_filters = balance_filter_def balance_history_filter_def transaction_by_hash_filter_def lookup_filter_def Let_def
lemmas read_filters = lookup_filters pool_filter_def block_height_filter_def

lemma read_filters_keep:
  assumes "filter_of env method = Some f" and "method \<noteq> ''transfer''" and "f v s = Some (r, s')"
  shows "rp_pool s' = rp_pool s" "rp_explorer s' = rp_explorer s"
  using assms by (auto simp: filter_of_def read_filters split: if_splits sum.splits option.splits prod.splits)

text \<open>A complete response holds one answer, and the status says which kind it is.\<close>

definition answered :: "'j rpc \<Rightarrow> bool" where
  "answered s \<longleftrightarrow> (rp_status s = bad_request \<and> (\<exists>e. rp_body s = error_text e))
     \<or> (rp_status s = ok_status \<and> (\<exists>t i. rp_body s = processSimpleResponse t i \<or> rp_body s = processSimpleStringResponse t i))"

lemma answered_intros [simp]:
  "rp_body s = '''' \<Longrightarrow> answered (create_error_response e s)" "rp_body s = '''' \<Longrightarrow> answered (connection_error e s)"
  "rp_body s = '''' \<Longrightarrow> answered (create_success_response (processSimpleResponse t i) s)"
  "rp_body s = '''' \<Longrightarrow> answered (create_success_response (processSimpleStringResponse t i) s)"
  by (auto simp: answered_def create_error_response_def create_success_response_def connection_error_def)

lemma transfer_answers:
  assumes "transaction_filter env v s = Some (r, s')" and "rp_body s = ''''"
  shows "answered s' \<or> (rp_body s' = '''' \<and> (\<exists>e. r = Inl e))"
proof (cases "\<exists>tx response. admissible env v tx response")
  case True
  then obtain tx response where "admissible env v tx response" by blast
  from assms(1) [unfolded transaction_filter_admitted [OF this]] assms(2) show ?thesis
    by (auto simp: submitted_def split: sum.splits)
next
  case False
  then show ?thesis
    using assms by (auto simp: admissible_def account_ok_def signature_ok_def transaction_filter_def Let_def
        split: sum.splits option.splits if_splits prod.splits)
qed

lemma filters_answer:
  assumes "filter_of env method = Some f" and "f v s = Some (r, s')" and "rp_body s = ''''"
  shows "answered s' \<or> (rp_body s' = '''' \<and> (\<exists>e. r = Inl e))"
proof (cases "method = ''transfer''")
  case True
  then show ?thesis using assms transfer_answers [of env v s r s'] by (simp add: filter_of_def)
next
  case False
  then show ?thesis
    using assms by (auto simp: filter_of_def read_filters split: if_splits sum.splits option.splits prod.splits)
qed

text \<open>The databases open and answer, and the signature check is defined.\<close>

definition responsive :: "('j, 'p) rpc_env \<Rightarrow> bool" where
  "responsive env \<longleftrightarrow>
     (\<forall>d \<in> {v_user env, v_history env, v_block env, v_transaction env}. \<forall>key. BasicDB_get (fst d) (snd d) key \<noteq> None)
     \<and> (\<forall>r s msg addr. ecdsa_verify_signature (v_ec env) r s msg addr \<noteq> None)"

lemma filters_return:
  assumes "responsive env" and "filter_of env method = Some f"
  shows "\<exists>r s'. f v s = Some (r, s')"
proof -
  have get: "\<exists>x n. BasicDB_get (fst d) (snd d) key = Some (x, n)"
    if "d \<in> {v_user env, v_history env, v_block env, v_transaction env}" for d key
    using assms(1) that by (fastforce simp: responsive_def)
  have sg: "\<exists>b. ecdsa_verify_signature (v_ec env) r s msg addr = Some b" for r s msg addr
    using assms(1) by (auto simp: responsive_def)
  show ?thesis
  proof (cases "method = ''transfer''")
    case True
    have "transaction_filter env v s \<noteq> None"
      using get [of "v_user env"] sg
      by (auto simp: transaction_filter_def Let_def split: sum.split option.split prod.split) (metis option.distinct(1))+
    with True assms(2) show ?thesis by (auto simp: filter_of_def)
  next
    case False
    have "f v s \<noteq> None"
      using get [of "v_user env"] get [of "v_history env"] get [of "v_block env"] get [of "v_transaction env"] assms(2) False
      by (auto simp: filter_of_def read_filters split: if_splits sum.split option.split prod.split) (metis option.distinct(1))+
    then show ?thesis by (auto simp: not_None_eq)
  qed
qed

lemma instruction_filter:
  "string_at (v_lib env) v ''method'' = Inr method \<Longrightarrow> filter_of env method = Some f \<Longrightarrow> instruction env v s = f v s"
  by (simp add: instruction_def chain_filter_def chain_add_def)

lemma process_instruction_transfer:
  assumes "string_at (v_lib env) v ''method'' = Inr ''transfer''" and "admissible env v tx response" and "rp_body s = ''''"
  shows "process_instruction env v s = Some
    (case int_at (v_lib env) v ''id'' of
       Inl e \<Rightarrow> connection_error defaultError (submitted tx response s)
     | Inr i \<Rightarrow> create_success_response (processSimpleStringResponse (tx_hash tx) i) (submitted tx response s))"
proof -
  have "instruction env v s = transaction_filter env v s"
    by (rule instruction_filter [OF assms(1)]) (simp add: filter_of_def)
  then show ?thesis
    using assms(3) by (simp add: process_instruction_def transaction_filter_admitted [OF assms(2)] submitted_def split: sum.split)
qed

text \<open>A request that changes the pool or the explorer queue appends one element to each, of a valid transfer.\<close>

lemma instruction_effect:
  assumes "instruction env v s = Some (r, s')" and "rp_pool s' \<noteq> rp_pool s \<or> rp_explorer s' \<noteq> rp_explorer s"
  shows "\<exists>tx response. string_at (v_lib env) v ''method'' = Inr ''transfer'' \<and> admissible env v tx response
    \<and> rp_pool s' = rp_pool s @ [tx] \<and> rp_explorer s' = rp_explorer s @ [response]"
proof -
  obtain meth where m: "string_at (v_lib env) v ''method'' = Inr meth"
    using assms by (auto simp: instruction_def split: sum.splits)
  obtain f where f: "filter_of env meth = Some f" using assms m by (auto simp: instruction_def split: option.splits)
  then have run: "f v s = Some (r, s')" using assms(1) instruction_filter [OF m] by simp
  then have tr: "meth = ''transfer''" using read_filters_keep [OF f _ run] assms(2) by blast
  then have tf: "transaction_filter env v s = Some (r, s')" using f run by (simp add: filter_of_def)
  obtain tx response where adm: "admissible env v tx response" using transaction_filter_refused [OF tf] assms(2) by blast
  then have "rp_pool s' = rp_pool s @ [tx] \<and> rp_explorer s' = rp_explorer s @ [response]"
    using tf [unfolded transaction_filter_admitted [OF adm]] by (auto simp: submitted_def split: sum.splits)
  then show ?thesis using m tr adm by blast
qed

lemma process_request_effect:
  assumes "process_request env method body s = Some s'" and "rp_pool s' \<noteq> rp_pool s \<or> rp_explorer s' \<noteq> rp_explorer s"
  shows "method = verb_post \<and> (\<exists>v tx response. j_parse (v_lib env) body = Inr v
    \<and> string_at (v_lib env) v ''method'' = Inr ''transfer'' \<and> admissible env v tx response
    \<and> rp_pool s' = rp_pool s @ [tx] \<and> rp_explorer s' = rp_explorer s @ [response])"
proof -
  obtain v where v: "method = verb_post" "j_parse (v_lib env) body = Inr v" "process_instruction env v s = Some s'"
    using assms by (auto simp: process_request_def split: verb.splits sum.splits)
  then obtain r s1 where "instruction env v s = Some (r, s1)" "rp_pool s1 = rp_pool s'" "rp_explorer s1 = rp_explorer s'"
    by (auto simp: process_instruction_def split: option.splits sum.splits if_splits)
  with instruction_effect [of env v s r s1] v(1,2) assms(2) show ?thesis by auto
qed

lemma process_request_pool:
  assumes "process_request env method body s = Some s'" and "rp_pool s' \<noteq> rp_pool s"
  shows "method = verb_post \<and> (\<exists>v tx response. j_parse (v_lib env) body = Inr v
    \<and> string_at (v_lib env) v ''method'' = Inr ''transfer'' \<and> admissible env v tx response \<and> rp_pool s' = rp_pool s @ [tx])"
  using process_request_effect [OF assms(1)] assms(2) by blast

text \<open>The overloads for textual identifiers agree with those for numbers.\<close>

lemma response_overloads:
  "processSimpleResponse t i = processSimpleResponse_text t (dec_of_int i)"
  "processSimpleStringResponse t i = processSimpleStringResponse_text t (dec_of_int i)"
  by (simp_all add: processSimpleResponse_def processSimpleResponse_text_def processSimpleStringResponse_def processSimpleStringResponse_text_def)

section \<open>Properties\<close>

text \<open>
  C5. Only valid transfers enter the pool. If handling a request changes the pool, then the request
  is a POST whose body parses and whose method is \<open>transfer\<close>, and exactly one transaction was
  appended, which parses from the request, carries its hash, comes from a stored account with a
  nonce other than the request's, has a signature that verifies against the sender's address, and
  does not exceed the balance of the account.
\<close>

theorem pool_changes_only_by_valid_transfer:
  assumes "process_request env method body s = Some s'" and "rp_pool s' \<noteq> rp_pool s"
  shows "method = verb_post \<and> (\<exists>v tx response. j_parse (v_lib env) body = Inr v
    \<and> string_at (v_lib env) v ''method'' = Inr ''transfer'' \<and> admissible env v tx response \<and> rp_pool s' = rp_pool s @ [tx])"
  by (rule process_request_pool [OF assms])

text \<open>
  C16. Every valid transfer is admitted: the transaction is appended to the pool and announced to the
  explorer. The client is told so only when the identifier of the request is an integer; with any
  other identifier, such as the text of the documented example, the answer is the default error
  although the transaction was admitted.
\<close>

theorem valid_transfer_is_pooled:
  assumes "j_parse (v_lib env) body = Inr v" and "string_at (v_lib env) v ''method'' = Inr ''transfer''"
    and "admissible env v tx response"
  shows "\<exists>s'. process_request env verb_post body (new_connection pool explorer) = Some s'
    \<and> rp_pool s' = pool @ [tx] \<and> rp_explorer s' = explorer @ [response]
    \<and> (case int_at (v_lib env) v ''id'' of
         Inr i \<Rightarrow> rp_status s' = ok_status \<and> rp_body s' = processSimpleStringResponse (tx_hash tx) i
       | Inl _ \<Rightarrow> rp_status s' = bad_request \<and> rp_body s' = error_text defaultError)"
  using process_instruction_transfer [OF assms(2,3), of "new_connection pool explorer"] assms(1)
  by (cases "int_at (v_lib env) v ''id''")
    (simp_all add: process_request_def submitted_def new_connection_def connection_error_def create_success_response_def)

text \<open>
  C19. Every request is answered exactly once: when the databases answer and the signature check is
  defined, handling any request ends with a body that is either one error text with status 400 or
  one result with status 200.
\<close>

theorem request_answered_once:
  assumes "responsive env"
  shows "\<exists>s'. process_request env method body (new_connection pool explorer) = Some s'
    \<and> ((rp_status s' = bad_request \<and> (\<exists>e. rp_body s' = error_text e))
      \<or> (rp_status s' = ok_status \<and> (\<exists>t i. rp_body s' = processSimpleResponse t i \<or> rp_body s' = processSimpleStringResponse t i)))"
proof -
  let ?s = "new_connection pool explorer"
  have empty: "rp_body ?s = ''''" by (simp add: new_connection_def)
  have "\<exists>s'. process_instruction env v ?s = Some s' \<and> answered s'" for v
  proof (cases "string_at (v_lib env) v ''method''")
    case (Inl e)
    then show ?thesis using empty by (simp add: process_instruction_def instruction_def)
  next
    case (Inr m)
    show ?thesis
    proof (cases "filter_of env m")
      case None
      then show ?thesis using empty Inr by (simp add: process_instruction_def instruction_def)
    next
      case (Some f)
      obtain r s' where run: "f v ?s = Some (r, s')" using filters_return [OF assms Some] by blast
      then show ?thesis
        using filters_answer [OF Some run empty] instruction_filter [OF Inr Some]
        by (auto simp: process_instruction_def split: sum.split)
    qed
  qed
  then have "\<exists>s'. process_request env method body ?s = Some s' \<and> answered s'"
    using empty by (auto simp: process_request_def split: verb.split sum.split)
  then show ?thesis by (simp add: answered_def)
qed

definition address_example :: string where
  "address_example = base58_reference (address_payload [] (be_bytes 33 5))"

definition request_example :: "jval \<Rightarrow> jval" where
  "request_example i = JObj [(''method'', JStr ''transfer''), (''id'', i), (''params'', JObj [(''from'', JStr address_example), (''to'', JStr address_example),
     (''type'', JNum 0), (''signature'', JStr ''h''), (''r'', JStr ''1''), (''s'', JStr ''c''), (''amount'', JStr ''7''), (''fee'', JNum 0), (''nonce'', JNum 3)])]"

definition rpc_example :: "(jval, int) rpc_env" where
  "rpc_example =
     (let db = (rocksdb_example \<lparr>r_get := \<lambda>i c k. case c k of None \<Rightarrow> (kNotFound, '''') | Some t \<Rightarrow> (kOk, t)\<rparr>, [address_example \<mapsto> ''account''])
      in \<lparr>v_lib = jval_lib (\<lambda>t. if t = ''account''
              then Some (JObj [(''address'', JStr address_example), (''tokensBalance'', JObj []), (''balance'', JStr ''20''), (''nonce'', JNum 2)])
            else if t = ''good'' then Some (request_example (JNum 1)) else if t = ''documented'' then Some (request_example (JStr ''1'')) else None),
         v_ec = ec_example, v_now = 5, v_user = db, v_history = db, v_block = db, v_transaction = db\<rparr>)"

lemma example_get: "v_user rpc_example = d \<Longrightarrow> \<exists>r. BasicDB_get (fst d) (snd d) key = Some r"
proof -
  assume d: "v_user rpc_example = d"
  have op: "r_open_ro (fst d) 2 = kOk" "r_open_ro (fst d) 0 \<noteq> kCorruption" using d by (auto simp: rpc_example_def rocksdb_example_def Let_def)
  obtain j where "open_for_read (fst d) = Some j" using op(1) open_for_read_iff by blast
  moreover have "\<exists>r. read_key (fst d) (snd d) key = Some r"
    unfolding read_key_returns_iff using d by (auto simp: rpc_example_def rocksdb_example_def Let_def split: option.splits)
  ultimately show ?thesis using op(2) by (simp add: BasicDB_get_def)
qed

lemma example_account: "BasicDB_get (fst (v_user rpc_example)) (snd (v_user rpc_example)) address_example = Some (Inr ''account'', 1)"
proof -
  let ?d = "v_user rpc_example"
  have op: "r_open_ro (fst ?d) 2 = kOk" "r_open_ro (fst ?d) 0 \<noteq> kCorruption" by (auto simp: rpc_example_def rocksdb_example_def Let_def)
  obtain j where "open_for_read (fst ?d) = Some j" using op(1) open_for_read_iff by blast
  then show ?thesis using op(2) by (simp add: BasicDB_get_def read_key_def) (simp add: rpc_example_def rocksdb_example_def Let_def)
qed

lemma example_responsive: "responsive rpc_example"
proof -
  have "BasicDB_get (fst (v_user rpc_example)) (snd (v_user rpc_example)) key \<noteq> None" for key using example_get [OF refl] by blast
  moreover have "v_history rpc_example = v_user rpc_example" "v_block rpc_example = v_user rpc_example"
    "v_transaction rpc_example = v_user rpc_example" "v_ec rpc_example = ec_example"
    by (simp_all add: rpc_example_def Let_def)
  moreover have "ecdsa_verify_signature ec_example r s msg addr \<noteq> None" for r s msg addr
    by (simp add: ecdsa_verify_signature_def Let_def ec_example_address)
  ultimately show ?thesis by (simp add: responsive_def)
qed

lemmas example_defs = rpc_example_def Let_def jval_lib_def jval_at_def request_example_def param_at_def param_string_def string_at_def
  uint64_at_def u256_at_def

lemma example_raw:
  "parse_transaction (v_lib rpc_example) (v_now rpc_example) (request_example i)
    = Inr (Transaction_plain (v_lib rpc_example) 5 address_example address_example 0 ''h'' ''1'' ''c'' 7 0 3)"
  by (simp add: parse_transaction_def obj_index_def plain_of_def example_defs) (simp add: decimal_u256_def)

lemma example_admissible: "\<exists>tx response. admissible rpc_example (request_example i) tx response"
proof -
  let ?v = "request_example i" and ?lib = "v_lib rpc_example"
  note defs = example_defs
  let ?raw = "Transaction_plain ?lib 5 address_example address_example 0 ''h'' ''1'' ''c'' 7 0 3"
  have ty: "tx_type ?raw = 0" by (simp add: Transaction_plain_def)
  let ?acc = "WalletAccount_stored ?lib address_example 20 (JObj []) 2"
  have "parseWallet ?lib (Some ''account'') = Inr (Some ?acc)"
    by (simp add: parseWallet_def parse_ec_def defs) (simp add: decimal_u256_def)
  moreover have "res_bind (param_at ?lib ?v ''nonce'') (j_uint64 ?lib) = Inr 3" "w_nonce ?acc \<noteq> 3"
    by (simp_all add: defs WalletAccount_stored_def)
  moreover have "low_native rpc_example ?v ?acc = Inr False"
    by (simp add: low_native_def compareNativeTokenBalance_def WalletAccount_stored_def defs) (simp add: decimal_u256_def)
  moreover have "low_token rpc_example ?v ?acc = Inr False" by (simp add: low_token_def defs)
  ultimately have "account_ok rpc_example ?v address_example ?acc" using example_account unfolding account_ok_def by blast
  moreover have "signature_ok rpc_example ?v address_example ?raw"
    using ty by (simp add: signature_ok_def serializeWithoutSignatures_def)
      (simp add: defs ec_example_verifies [folded address_example_def])
  moreover have "param_string ?lib ?v ''from'' = Inr address_example" by (simp add: defs)
  moreover have "\<exists>tx. generateHash ?lib ?raw = Inr tx \<and> tx_type tx = 0"
    using ty by (simp add: generateHash_def serializeToRawTransaction_def signed_text_def)
  moreover have "tx_type tx = 0 \<Longrightarrow> \<exists>t. serializeForResponse ?lib tx = Inr t" for tx by (simp add: serializeForResponse_def)
  ultimately show ?thesis unfolding admissible_def using example_raw by blast
qed

lemma example_transaction:
  assumes "admissible rpc_example (request_example i) tx response"
  shows "tx_from tx = address_example \<and> tx_to tx = address_example \<and> tx_type tx = 0 \<and> tx_amount tx = 7"
proof -
  let ?lib = "v_lib rpc_example"
  have "parse_transaction ?lib (v_now rpc_example) (request_example i)
      = Inr (Transaction_plain ?lib 5 address_example address_example 0 ''h'' ''1'' ''c'' 7 0 3)" by (rule example_raw)
  then show ?thesis using assms by (auto simp: admissible_def generateHash_def res_simps Transaction_plain_def)
qed

lemma example_parses:
  "j_parse (v_lib rpc_example) ''good'' = Inr (request_example (JNum 1))"
  "j_parse (v_lib rpc_example) ''documented'' = Inr (request_example (JStr ''1''))"
  "string_at (v_lib rpc_example) (request_example i) ''method'' = Inr ''transfer''"
  "int_at (v_lib rpc_example) (request_example (JNum 1)) ''id'' = Inr 1"
  "int_at (v_lib rpc_example) (request_example (JStr ''1'')) ''id'' = Inl (BoostExn ''not a number'')"
  by (simp_all add: rpc_example_def Let_def jval_lib_def string_at_def int_at_def jval_at_def request_example_def)

theorem pool_changes_only_by_valid_transfer_witness:
  "\<exists>s' v tx response. process_request rpc_example verb_post ''good'' (new_connection [] []) = Some s'
     \<and> j_parse (v_lib rpc_example) ''good'' = Inr v \<and> admissible rpc_example v tx response \<and> rp_pool s' = [tx]"
proof -
  obtain tx response where adm: "admissible rpc_example (request_example (JNum 1)) tx response" using example_admissible by blast
  let ?s = "new_connection [] []"
  obtain s' where s': "process_request rpc_example verb_post ''good'' ?s = Some s'" "rp_pool s' = [tx]"
    using process_instruction_transfer [OF example_parses(3) adm, of ?s] example_parses(1,4)
    by (auto simp: process_request_def new_connection_def submitted_def create_success_response_def)
  then have "rp_pool s' \<noteq> rp_pool ?s" by (simp add: new_connection_def)
  from pool_changes_only_by_valid_transfer [OF s'(1) this] s'(1) show ?thesis by (auto simp: new_connection_def)
qed

theorem valid_transfer_is_pooled_witness:
  "\<exists>s' tx. process_request rpc_example verb_post ''documented'' (new_connection [] []) = Some s'
     \<and> rp_pool s' = [tx] \<and> rp_status s' = bad_request \<and> rp_body s' = error_text defaultError"
proof -
  obtain tx response where adm: "admissible rpc_example (request_example (JStr ''1'')) tx response" using example_admissible by blast
  from valid_transfer_is_pooled [OF example_parses(2,3) adm, of "[]" "[]"] example_parses(5) show ?thesis by auto
qed

theorem request_answered_once_witness:
  "\<exists>s'. process_request rpc_example verb_get ''x'' (new_connection [] []) = Some s'
     \<and> ((rp_status s' = bad_request \<and> (\<exists>e. rp_body s' = error_text e))
       \<or> (rp_status s' = ok_status \<and> (\<exists>t i. rp_body s' = processSimpleResponse t i \<or> rp_body s' = processSimpleStringResponse t i)))"
  by (rule request_answered_once [OF example_responsive])

end
