(* ===== verification/Udp.thy ===== *)
theory Udp
  imports Unit_Prelude
begin

text \<open>
  The UDP library \<open>server_library/udp\<close>: the checksum of \<open>crc32.h\<close> with its table, the second table of
  \<open>crc32_table.h\<close>, and the message queue of \<open>queue.c\<close>, a linked list in an explicit heap. The
  contract of a queue is a locale, interpreted on the linked list.
\<close>

section \<open>Checksum\<close>

definition crc32_tab :: "u32 list" where
  "crc32_tab = concat
    [[0x00000000, 0x77073096, 0xEE0E612C, 0x990951BA, 0x076DC419],
     [0x706AF48F, 0xE963A535, 0x9E6495A3, 0x0EDB8832, 0x79DCB8A4],
     [0xE0D5E91E, 0x97D2D988, 0x09B64C2B, 0x7EB17CBD, 0xE7B82D07],
     [0x90BF1D91, 0x1DB71064, 0x6AB020F2, 0xF3B97148, 0x84BE41DE],
     [0x1ADAD47D, 0x6DDDE4EB, 0xF4D4B551, 0x83D385C7, 0x136C9856],
     [0x646BA8C0, 0xFD62F97A, 0x8A65C9EC, 0x14015C4F, 0x63066CD9],
     [0xFA0F3D63, 0x8D080DF5, 0x3B6E20C8, 0x4C69105E, 0xD56041E4],
     [0xA2677172, 0x3C03E4D1, 0x4B04D447, 0xD20D85FD, 0xA50AB56B],
     [0x35B5A8FA, 0x42B2986C, 0xDBBBC9D6, 0xACBCF940, 0x32D86CE3],
     [0x45DF5C75, 0xDCD60DCF, 0xABD13D59, 0x26D930AC, 0x51DE003A],
     [0xC8D75180, 0xBFD06116, 0x21B4F4B5, 0x56B3C423, 0xCFBA9599],
     [0xB8BDA50F, 0x2802B89E, 0x5F058808, 0xC60CD9B2, 0xB10BE924],
     [0x2F6F7C87, 0x58684C11, 0xC1611DAB, 0xB6662D3D, 0x76DC4190],
     [0x01DB7106, 0x98D220BC, 0xEFD5102A, 0x71B18589, 0x06B6B51F],
     [0x9FBFE4A5, 0xE8B8D433, 0x7807C9A2, 0x0F00F934, 0x9609A88E],
     [0xE10E9818, 0x7F6A0DBB, 0x086D3D2D, 0x91646C97, 0xE6635C01],
     [0x6B6B51F4, 0x1C6C6162, 0x856530D8, 0xF262004E, 0x6C0695ED],
     [0x1B01A57B, 0x8208F4C1, 0xF50FC457, 0x65B0D9C6, 0x12B7E950],
     [0x8BBEB8EA, 0xFCB9887C, 0x62DD1DDF, 0x15DA2D49, 0x8CD37CF3],
     [0xFBD44C65, 0x4DB26158, 0x3AB551CE, 0xA3BC0074, 0xD4BB30E2],
     [0x4ADFA541, 0x3DD895D7, 0xA4D1C46D, 0xD3D6F4FB, 0x4369E96A],
     [0x346ED9FC, 0xAD678846, 0xDA60B8D0, 0x44042D73, 0x33031DE5],
     [0xAA0A4C5F, 0xDD0D7CC9, 0x5005713C, 0x270241AA, 0xBE0B1010],
     [0xC90C2086, 0x5768B525, 0x206F85B3, 0xB966D409, 0xCE61E49F],
     [0x5EDEF90E, 0x29D9C998, 0xB0D09822, 0xC7D7A8B4, 0x59B33D17],
     [0x2EB40D81, 0xB7BD5C3B, 0xC0BA6CAD, 0xEDB88320, 0x9ABFB3B6],
     [0x03B6E20C, 0x74B1D29A, 0xEAD54739, 0x9DD277AF, 0x04DB2615],
     [0x73DC1683, 0xE3630B12, 0x94643B84, 0x0D6D6A3E, 0x7A6A5AA8],
     [0xE40ECF0B, 0x9309FF9D, 0x0A00AE27, 0x7D079EB1, 0xF00F9344],
     [0x8708A3D2, 0x1E01F268, 0x6906C2FE, 0xF762575D, 0x806567CB],
     [0x196C3671, 0x6E6B06E7, 0xFED41B76, 0x89D32BE0, 0x10DA7A5A],
     [0x67DD4ACC, 0xF9B9DF6F, 0x8EBEEFF9, 0x17B7BE43, 0x60B08ED5],
     [0xD6D6A3E8, 0xA1D1937E, 0x38D8C2C4, 0x4FDFF252, 0xD1BB67F1],
     [0xA6BC5767, 0x3FB506DD, 0x48B2364B, 0xD80D2BDA, 0xAF0A1B4C],
     [0x36034AF6, 0x41047A60, 0xDF60EFC3, 0xA867DF55, 0x316E8EEF],
     [0x4669BE79, 0xCB61B38C, 0xBC66831A, 0x256FD2A0, 0x5268E236],
     [0xCC0C7795, 0xBB0B4703, 0x220216B9, 0x5505262F, 0xC5BA3BBE],
     [0xB2BD0B28, 0x2BB45A92, 0x5CB36A04, 0xC2D7FFA7, 0xB5D0CF31],
     [0x2CD99E8B, 0x5BDEAE1D, 0x9B64C2B0, 0xEC63F226, 0x756AA39C],
     [0x026D930A, 0x9C0906A9, 0xEB0E363F, 0x72076785, 0x05005713],
     [0x95BF4A82, 0xE2B87A14, 0x7BB12BAE, 0x0CB61B38, 0x92D28E9B],
     [0xE5D5BE0D, 0x7CDCEFB7, 0x0BDBDF21, 0x86D3D2D4, 0xF1D4E242],
     [0x68DDB3F8, 0x1FDA836E, 0x81BE16CD, 0xF6B9265B, 0x6FB077E1],
     [0x18B74777, 0x88085AE6, 0xFF0F6A70, 0x66063BCA, 0x11010B5C],
     [0x8F659EFF, 0xF862AE69, 0x616BFFD3, 0x166CCF45, 0xA00AE278],
     [0xD70DD2EE, 0x4E048354, 0x3903B3C2, 0xA7672661, 0xD06016F7],
     [0x4969474D, 0x3E6E77DB, 0xAED16A4A, 0xD9D65ADC, 0x40DF0B66],
     [0x37D83BF0, 0xA9BCAE53, 0xDEBB9EC5, 0x47B2CF7F, 0x30B5FFE9],
     [0xBDBDF21C, 0xCABAC28A, 0x53B39330, 0x24B4A3A6, 0xBAD03605],
     [0xCDD70693, 0x54DE5729, 0x23D967BF, 0xB3667A2E, 0xC4614AB8],
     [0x5D681B02, 0x2A6F2B94, 0xB40BBE37, 0xC30C8EA1, 0x5A05DF1B],
     [0x2D02EF8D]]"

text \<open>
  The loop; a character is promoted with its sign, of which the mask keeps the low byte only.
\<close>

definition crc32_step :: "u32 \<Rightarrow> u8 \<Rightarrow> u32" where
  "crc32_step crc32val c = crc32_tab ! unat ((crc32val XOR scast c) AND 0xFF) XOR (drop_bit 8 crc32val AND 0x00FFFFFF)"

definition crc32 :: "bytes \<Rightarrow> int \<Rightarrow> u32" where
  "crc32 str len = foldl crc32_step (0 XOR 0xFFFFFFFF) (take (nat len) str) XOR 0xFFFFFFFF"

definition crctab32 :: "u32 list" where
  "crctab32 = concat
    [[0x00000000, 0xF4ACFB13, 0x1DF50D35, 0xE959F626],
     [0x3BEA1A6A, 0xCF46E179, 0x261F175F, 0xD2B3EC4C],
     [0x77D434D4, 0x8378CFC7, 0x6A2139E1, 0x9E8DC2F2],
     [0x4C3E2EBE, 0xB892D5AD, 0x51CB238B, 0xA567D898],
     [0xEFA869A8, 0x1B0492BB, 0xF25D649D, 0x06F19F8E],
     [0xD44273C2, 0x20EE88D1, 0xC9B77EF7, 0x3D1B85E4],
     [0x987C5D7C, 0x6CD0A66F, 0x85895049, 0x7125AB5A],
     [0xA3964716, 0x573ABC05, 0xBE634A23, 0x4ACFB130],
     [0x2BFC2843, 0xDF50D350, 0x36092576, 0xC2A5DE65],
     [0x10163229, 0xE4BAC93A, 0x0DE33F1C, 0xF94FC40F],
     [0x5C281C97, 0xA884E784, 0x41DD11A2, 0xB571EAB1],
     [0x67C206FD, 0x936EFDEE, 0x7A370BC8, 0x8E9BF0DB],
     [0xC45441EB, 0x30F8BAF8, 0xD9A14CDE, 0x2D0DB7CD],
     [0xFFBE5B81, 0x0B12A092, 0xE24B56B4, 0x16E7ADA7],
     [0xB380753F, 0x472C8E2C, 0xAE75780A, 0x5AD98319],
     [0x886A6F55, 0x7CC69446, 0x959F6260, 0x61339973],
     [0x57F85086, 0xA354AB95, 0x4A0D5DB3, 0xBEA1A6A0],
     [0x6C124AEC, 0x98BEB1FF, 0x71E747D9, 0x854BBCCA],
     [0x202C6452, 0xD4809F41, 0x3DD96967, 0xC9759274],
     [0x1BC67E38, 0xEF6A852B, 0x0633730D, 0xF29F881E],
     [0xB850392E, 0x4CFCC23D, 0xA5A5341B, 0x5109CF08],
     [0x83BA2344, 0x7716D857, 0x9E4F2E71, 0x6AE3D562],
     [0xCF840DFA, 0x3B28F6E9, 0xD27100CF, 0x26DDFBDC],
     [0xF46E1790, 0x00C2EC83, 0xE99B1AA5, 0x1D37E1B6],
     [0x7C0478C5, 0x88A883D6, 0x61F175F0, 0x955D8EE3],
     [0x47EE62AF, 0xB34299BC, 0x5A1B6F9A, 0xAEB79489],
     [0x0BD04C11, 0xFF7CB702, 0x16254124, 0xE289BA37],
     [0x303A567B, 0xC496AD68, 0x2DCF5B4E, 0xD963A05D],
     [0x93AC116D, 0x6700EA7E, 0x8E591C58, 0x7AF5E74B],
     [0xA8460B07, 0x5CEAF014, 0xB5B30632, 0x411FFD21],
     [0xE47825B9, 0x10D4DEAA, 0xF98D288C, 0x0D21D39F],
     [0xDF923FD3, 0x2B3EC4C0, 0xC26732E6, 0x36CBC9F5],
     [0xAFF0A10C, 0x5B5C5A1F, 0xB205AC39, 0x46A9572A],
     [0x941ABB66, 0x60B64075, 0x89EFB653, 0x7D434D40],
     [0xD82495D8, 0x2C886ECB, 0xC5D198ED, 0x317D63FE],
     [0xE3CE8FB2, 0x176274A1, 0xFE3B8287, 0x0A977994],
     [0x4058C8A4, 0xB4F433B7, 0x5DADC591, 0xA9013E82],
     [0x7BB2D2CE, 0x8F1E29DD, 0x6647DFFB, 0x92EB24E8],
     [0x378CFC70, 0xC3200763, 0x2A79F145, 0xDED50A56],
     [0x0C66E61A, 0xF8CA1D09, 0x1193EB2F, 0xE53F103C],
     [0x840C894F, 0x70A0725C, 0x99F9847A, 0x6D557F69],
     [0xBFE69325, 0x4B4A6836, 0xA2139E10, 0x56BF6503],
     [0xF3D8BD9B, 0x07744688, 0xEE2DB0AE, 0x1A814BBD],
     [0xC832A7F1, 0x3C9E5CE2, 0xD5C7AAC4, 0x216B51D7],
     [0x6BA4E0E7, 0x9F081BF4, 0x7651EDD2, 0x82FD16C1],
     [0x504EFA8D, 0xA4E2019E, 0x4DBBF7B8, 0xB9170CAB],
     [0x1C70D433, 0xE8DC2F20, 0x0185D906, 0xF5292215],
     [0x279ACE59, 0xD336354A, 0x3A6FC36C, 0xCEC3387F],
     [0xF808F18A, 0x0CA40A99, 0xE5FDFCBF, 0x115107AC],
     [0xC3E2EBE0, 0x374E10F3, 0xDE17E6D5, 0x2ABB1DC6],
     [0x8FDCC55E, 0x7B703E4D, 0x9229C86B, 0x66853378],
     [0xB436DF34, 0x409A2427, 0xA9C3D201, 0x5D6F2912],
     [0x17A09822, 0xE30C6331, 0x0A559517, 0xFEF96E04],
     [0x2C4A8248, 0xD8E6795B, 0x31BF8F7D, 0xC513746E],
     [0x6074ACF6, 0x94D857E5, 0x7D81A1C3, 0x892D5AD0],
     [0x5B9EB69C, 0xAF324D8F, 0x466BBBA9, 0xB2C740BA],
     [0xD3F4D9C9, 0x275822DA, 0xCE01D4FC, 0x3AAD2FEF],
     [0xE81EC3A3, 0x1CB238B0, 0xF5EBCE96, 0x01473585],
     [0xA420ED1D, 0x508C160E, 0xB9D5E028, 0x4D791B3B],
     [0x9FCAF777, 0x6B660C64, 0x823FFA42, 0x76930151],
     [0x3C5CB061, 0xC8F04B72, 0x21A9BD54, 0xD5054647],
     [0x07B6AA0B, 0xF31A5118, 0x1A43A73E, 0xEEEF5C2D],
     [0x4B8884B5, 0xBF247FA6, 0x567D8980, 0xA2D17293],
     [0x70629EDF, 0x84CE65CC, 0x6D9793EA, 0x993B68F9]]"

section \<open>Reference checksum\<close>

text \<open>
  The bitwise division by the reversed polynomial \<open>0xEDB88320\<close>, and by \<open>0xF4ACFB13\<close> from the other end.
\<close>

definition crc_bit :: "u32 \<Rightarrow> u32" where
  "crc_bit c = (if bit c 0 then drop_bit 1 c XOR 0xEDB88320 else drop_bit 1 c)"

definition crc_byte :: "u32 \<Rightarrow> u8 \<Rightarrow> u32" where
  "crc_byte c b = (crc_bit ^^ 8) (c XOR ucast b)"

definition crc32_reference :: "bytes \<Rightarrow> u32" where
  "crc32_reference bs = foldl crc_byte 0xFFFFFFFF bs XOR 0xFFFFFFFF"

definition crc_bit_msb :: "u32 \<Rightarrow> u32" where
  "crc_bit_msb c = (if bit c 31 then push_bit 1 c XOR 0xF4ACFB13 else push_bit 1 c)"

section \<open>Lemmas on the checksum\<close>

lemma crc_bit_numerals:
  "crc_bit (numeral (num.Bit0 n)) = drop_bit 1 (numeral (num.Bit0 n))"
  "crc_bit (numeral (num.Bit1 n)) = drop_bit 1 (numeral (num.Bit1 n)) XOR 0xEDB88320"
  "crc_bit 0 = 0" "crc_bit 1 = 0xEDB88320"
  by (simp_all add: crc_bit_def)

lemma eight_times: "(f ^^ 8) x = f (f (f (f (f (f (f (f x)))))))"
  by (simp add: eval_nat_numeral)

lemma upto_256: "[0..<256] = 0 # 1 # [2..<256]"
  by (simp add: upt_conv_Cons)

lemma table_entries: "crc32_tab = map (crc_bit ^^ 8) (map of_nat [0..<256])"
  by (simp add: crc32_tab_def upto_256 eight_times crc_bit_numerals upt_rec_numeral del: map_map)

lemma crctab32_entries: "crctab32 = map (crc_bit_msb ^^ 8) (map (push_bit 24) (map of_nat [0..<256]))"
  by (simp add: crctab32_def upto_256 eight_times crc_bit_msb_def upt_rec_numeral del: map_map)

lemma crc_bit_xor: "crc_bit (a XOR b) = crc_bit a XOR crc_bit b"
  by (simp add: crc_bit_def bit_xor_iff drop_bit_xor ac_simps)

lemma crc_bits_xor: "(crc_bit ^^ n) (a XOR b) = (crc_bit ^^ n) a XOR (crc_bit ^^ n) b"
  by (induction n) (simp_all add: crc_bit_xor)

lemma crc_bits_shift: "(\<And>i. i < n \<Longrightarrow> \<not> bit c i) \<Longrightarrow> (crc_bit ^^ n) c = drop_bit n c"
proof (induction n)
  case (Suc n)
  then have "(crc_bit ^^ Suc n) c = crc_bit (drop_bit n c)" by simp
  also have "\<dots> = drop_bit (Suc n) c" using Suc.prems [of n] by (simp add: crc_bit_def bit_drop_bit_eq)
  finally show ?case .
qed simp

lemma crc_step_table: "(crc_bit ^^ 8) c = crc32_tab ! unat (c AND 0xFF) XOR drop_bit 8 c"
proof -
  let ?lo = "c AND 0xFF" and ?hi = "c AND NOT 0xFF"
  have m: "(0xFF :: u32) = mask 8" by (simp add: mask_eq_exp_minus_1)
  have "c = ?lo XOR ?hi" by (rule bit_word_eqI) (auto simp: bit_simps)
  then have "(crc_bit ^^ 8) c = (crc_bit ^^ 8) ?lo XOR (crc_bit ^^ 8) ?hi" by (metis crc_bits_xor)
  also have "(crc_bit ^^ 8) ?hi = drop_bit 8 ?hi" by (rule crc_bits_shift) (simp add: m bit_simps)
  also have "drop_bit 8 ?hi = drop_bit 8 c" by (rule bit_word_eqI) (auto simp: m bit_simps dest: bit_imp_le_length)
  also have "(crc_bit ^^ 8) ?lo = crc32_tab ! unat ?lo"
  proof -
    have "?lo = take_bit 8 c" by (simp add: m take_bit_eq_mask)
    then have "unat ?lo < 256" using take_bit_nat_less_exp [of 8 "unat c"] by (simp add: unsigned_take_bit_eq)
    then show ?thesis by (simp add: table_entries)
  qed
  finally show ?thesis .
qed

lemma low_byte: "(a XOR scast (b :: u8)) AND 0xFF = (a XOR ucast b :: u32) AND 0xFF"
proof -
  have m: "(0xFF :: u32) = mask 8" by (simp add: mask_eq_exp_minus_1)
  show ?thesis by (rule bit_word_eqI) (auto simp: m bit_simps)
qed

lemma crc32_step_byte: "crc32_step c b = crc_byte c b"
proof -
  have "drop_bit 8 c AND 0x00FFFFFF = drop_bit 8 (c XOR ucast b)"
  proof -
    have m: "(0x00FFFFFF :: u32) = mask 24" by (simp add: mask_eq_exp_minus_1)
    show ?thesis by (rule bit_word_eqI) (auto simp: m bit_simps dest: bit_imp_le_length)
  qed
  then show ?thesis by (simp add: crc32_step_def crc_byte_def crc_step_table low_byte)
qed

section \<open>Message queue\<close>

text \<open>
  Nodes live at addresses of a heap; the data of a node is its copy of the message with the
  terminating zero. \<open>malloc\<close> is a parameter that may return null. \<open>None\<close> is undefined behaviour: a
  null pointer dereferenced, a copy that reads behind the data, or an overflow of the counter.
\<close>

type_synonym addr = nat

record qnode =
  qn_data :: bytes
  qn_next :: "addr option"

record queue_t =
  q_heap :: "addr \<rightharpoonup> qnode"
  q_head :: "addr option"
  q_tail :: "addr option"
  q_count :: int

definition queue_init :: "queue_t" where
  "queue_init = \<lparr>q_heap = Map.empty, q_head = None, q_tail = None, q_count = 0\<rparr>"

definition queue_push :: "((addr \<rightharpoonup> qnode) \<Rightarrow> addr option) \<Rightarrow> bytes \<Rightarrow> nat \<Rightarrow> queue_t \<Rightarrow> queue_t option" where
  "queue_push malloc data data_len q =
     (case malloc (q_heap q) of
        None \<Rightarrow> None
      | Some a \<Rightarrow>
          if length data < data_len \<or> q_count q = 2 ^ 31 - 1 then None
          else (let h = (q_heap q)(a \<mapsto> \<lparr>qn_data = take data_len data @ [0], qn_next = None\<rparr>) in
            case q_tail q of
              None \<Rightarrow> Some (q \<lparr>q_heap := h, q_head := Some a, q_tail := Some a, q_count := q_count q + 1\<rparr>)
            | Some t \<Rightarrow>
                (case h t of None \<Rightarrow> None | Some nd \<Rightarrow>
                  Some (q \<lparr>q_heap := h(t \<mapsto> nd \<lparr>qn_next := Some a\<rparr>), q_tail := Some a, q_count := q_count q + 1\<rparr>))))"

text \<open>\<open>queue_pop\<close> waits while the queue is empty.\<close>

datatype pop_result = Waits | Fault | Popped bytes queue_t

definition queue_pop :: "queue_t \<Rightarrow> pop_result" where
  "queue_pop q =
     (if q_count q = 0 then Waits
      else case q_head q of
        None \<Rightarrow> Fault
      | Some a \<Rightarrow>
          (case q_heap q a of None \<Rightarrow> Fault | Some nd \<Rightarrow>
            Popped (qn_data nd) (q \<lparr>q_heap := (q_heap q)(a := None), q_head := qn_next nd,
              q_tail := (if qn_next nd = None then None else q_tail q), q_count := q_count q - 1\<rparr>)))"

section \<open>Server\<close>

definition MAX_BUFFER_SIZE :: nat where
  "MAX_BUFFER_SIZE = 1024"

text \<open>
  The buffer is cleared, \<open>recvfrom\<close> fills it with at most its size of the packet, and all of it is
  queued. A worker thread takes a message when it sees the counter above zero.
\<close>

definition recv_buffer :: "bytes \<Rightarrow> bytes" where
  "recv_buffer packet = take MAX_BUFFER_SIZE packet @ replicate (MAX_BUFFER_SIZE - length packet) 0"

definition receive :: "((addr \<rightharpoonup> qnode) \<Rightarrow> addr option) \<Rightarrow> bytes \<Rightarrow> queue_t \<Rightarrow> queue_t option" where
  "receive malloc packet q = queue_push malloc (recv_buffer packet) MAX_BUFFER_SIZE q"

definition worker_pass :: "queue_t \<Rightarrow> (bytes option \<times> queue_t) option" where
  "worker_pass q =
     (if 0 < q_count q
      then (case queue_pop q of Popped msg q' \<Rightarrow> Some (Some msg, q') | _ \<Rightarrow> None)
      else Some (None, q))"

section \<open>Contract of a queue\<close>

text \<open>Runs of a queue: \<open>Put\<close> is a reception, \<open>Work\<close> a pass of a worker; the result lists the messages worked on.\<close>

datatype 'a traffic = Put 'a | Work

fun queue_run :: "('a \<Rightarrow> 'q \<Rightarrow> 'q option) \<Rightarrow> ('q \<Rightarrow> ('b option \<times> 'q) option) \<Rightarrow> 'a traffic list \<Rightarrow> 'q \<Rightarrow> ('b list \<times> 'q) option" where
  "queue_run put work [] q = Some ([], q)"
| "queue_run put work (Put x # es) q = (case put x q of None \<Rightarrow> None | Some q' \<Rightarrow> queue_run put work es q')"
| "queue_run put work (Work # es) q =
     (case work q of None \<Rightarrow> None
      | Some (out, q') \<Rightarrow> (case queue_run put work es q' of None \<Rightarrow> None
          | Some (outs, q'') \<Rightarrow> Some ((case out of None \<Rightarrow> outs | Some m \<Rightarrow> m # outs), q'')))"

fun fifo_run :: "('a \<Rightarrow> 'b) \<Rightarrow> 'a traffic list \<Rightarrow> 'b list \<Rightarrow> 'b list \<times> 'b list" where
  "fifo_run f [] xs = ([], xs)"
| "fifo_run f (Put x # es) xs = fifo_run f es (xs @ [f x])"
| "fifo_run f (Work # es) [] = fifo_run f es []"
| "fifo_run f (Work # es) (x # xs) = (case fifo_run f es xs of (outs, rest) \<Rightarrow> (x # outs, rest))"

definition puts :: "'a traffic list \<Rightarrow> nat" where
  "puts es = length (filter (\<lambda>e. e \<noteq> Work) es)"

locale message_queue =
  fixes implements :: "'q \<Rightarrow> 'b list \<Rightarrow> bool" and put :: "'a \<Rightarrow> 'q \<Rightarrow> 'q option"
    and work :: "'q \<Rightarrow> ('b option \<times> 'q) option" and stored :: "'a \<Rightarrow> 'b" and room :: nat
  assumes put_law: "implements q xs \<Longrightarrow> length xs < room \<Longrightarrow> \<exists>q'. put x q = Some q' \<and> implements q' (xs @ [stored x])"
    and work_empty: "implements q [] \<Longrightarrow> work q = Some (None, q)"
    and work_law: "implements q (y # xs) \<Longrightarrow> \<exists>q'. work q = Some (Some y, q') \<and> implements q' xs"
begin

lemma run_refines:
  assumes "implements q xs" and "length xs + puts es \<le> room"
  shows "\<exists>outs rest q'. queue_run put work es q = Some (outs, q') \<and> fifo_run stored es xs = (outs, rest) \<and> implements q' rest"
  using assms
proof (induction es arbitrary: q xs)
  case Nil
  then show ?case by auto
next
  case (Cons e es)
  show ?case
  proof (cases e)
    case (Put x)
    then have "length xs < room" using Cons.prems(2) by (simp add: puts_def)
    then obtain q' where q': "put x q = Some q'" "implements q' (xs @ [stored x])" using put_law Cons.prems(1) by blast
    then show ?thesis using Put Cons.IH [OF q'(2)] Cons.prems(2) by (simp add: puts_def)
  next
    case Work
    then have len: "length xs + puts es \<le> room" using Cons.prems(2) by (simp add: puts_def)
    show ?thesis
    proof (cases xs)
      case Nil
      then show ?thesis using Work work_empty Cons.IH [OF Cons.prems(1) len] Cons.prems(1) by auto
    next
      case (Cons y ys)
      then obtain q' where q': "work q = Some (Some y, q')" "implements q' ys" using work_law \<open>implements q xs\<close> by blast
      then show ?thesis using Work Cons \<open>length xs + puts es \<le> room\<close> len Cons.IH [OF q'(2)] by auto
    qed
  qed
qed

end

section \<open>The linked list implements a queue\<close>

fun segment :: "(addr \<rightharpoonup> qnode) \<Rightarrow> addr option \<Rightarrow> (addr \<times> bytes) list \<Rightarrow> bool" where
  "segment h x [] \<longleftrightarrow> x = None"
| "segment h x ((a, d) # ps) \<longleftrightarrow> x = Some a \<and> (\<exists>nxt. h a = Some \<lparr>qn_data = d, qn_next = nxt\<rparr> \<and> segment h nxt ps)"

lemma segment_upd: "a \<notin> fst ` set ps \<Longrightarrow> segment (h(a := v)) x ps = segment h x ps"
  by (induction ps arbitrary: x) auto

lemma segment_snoc:
  "segment h x (ps @ [(t, d)]) \<Longrightarrow> distinct (map fst (ps @ [(t, d)])) \<Longrightarrow> a \<notin> insert t (fst ` set ps) \<Longrightarrow>
     segment (h(a \<mapsto> \<lparr>qn_data = d', qn_next = None\<rparr>, t \<mapsto> \<lparr>qn_data = d, qn_next = Some a\<rparr>)) x (ps @ [(t, d), (a, d')])"
  by (induction ps arbitrary: x) auto

lemma segment_last: "segment h x (ps @ [(t, d)]) \<Longrightarrow> h t = Some \<lparr>qn_data = d, qn_next = None\<rparr>"
  by (induction ps arbitrary: x) auto

lemma segment_dom: "segment h x ps \<Longrightarrow> fst ` set ps \<subseteq> dom h"
proof (induction ps arbitrary: x)
  case (Cons p ps)
  then show ?case by (cases p) fastforce
qed simp

definition implements_list :: "queue_t \<Rightarrow> bytes list \<Rightarrow> bool" where
  "implements_list q xs \<longleftrightarrow> finite (dom (q_heap q)) \<and> q_count q = int (length xs) \<and>
     (\<exists>ps. segment (q_heap q) (q_head q) ps \<and> distinct (map fst ps) \<and> map snd ps = xs
       \<and> q_tail q = (if ps = [] then None else Some (fst (last ps))))"

lemma implements_listE:
  assumes "implements_list q xs"
  obtains ps where "segment (q_heap q) (q_head q) ps" and "distinct (map fst ps)" and "map snd ps = xs"
    and "q_tail q = (if ps = [] then None else Some (fst (last ps)))" and "finite (dom (q_heap q))" and "q_count q = int (length xs)"
  using assms by (auto simp: implements_list_def)

text \<open>What \<open>malloc\<close> promises when memory is left: an address that is not in use.\<close>

definition malloc_ok :: "((addr \<rightharpoonup> qnode) \<Rightarrow> addr option) \<Rightarrow> bool" where
  "malloc_ok malloc \<longleftrightarrow> (\<forall>h. finite (dom h) \<longrightarrow> (\<exists>a. malloc h = Some a \<and> a \<notin> dom h))"

lemma push_implements:
  assumes "malloc_ok malloc" and "implements_list q xs" and "length xs < 2 ^ 31 - 1" and "n \<le> length data"
  shows "\<exists>q'. queue_push malloc data n q = Some q' \<and> implements_list q' (xs @ [take n data @ [0]])"
proof -
  from assms(2) obtain ps where ps: "segment (q_heap q) (q_head q) ps" "distinct (map fst ps)" "map snd ps = xs"
    "q_tail q = (if ps = [] then None else Some (fst (last ps)))" and fin: "finite (dom (q_heap q))" and cnt: "q_count q = int (length xs)"
    by (rule implements_listE)
  obtain a where a: "malloc (q_heap q) = Some a" "a \<notin> dom (q_heap q)" using assms(1) fin by (auto simp: malloc_ok_def)
  have fresh: "a \<notin> fst ` set ps" using segment_dom [OF ps(1)] a(2) by auto
  have guard: "\<not> (length data < n \<or> q_count q = 2 ^ 31 - 1)" using assms(3,4) cnt by auto
  show ?thesis
  proof (cases ps rule: rev_cases)
    case Nil
    then have "implements_list (q \<lparr>q_heap := (q_heap q)(a \<mapsto> \<lparr>qn_data = take n data @ [0], qn_next = None\<rparr>),
        q_head := Some a, q_tail := Some a, q_count := q_count q + 1\<rparr>) (xs @ [take n data @ [0]])"
      using ps fin cnt unfolding implements_list_def by (intro conjI exI [of _ "[(a, take n data @ [0])]"]) simp_all
    then show ?thesis using Nil ps(4) a guard by (simp add: queue_push_def Let_def)
  next
    case (snoc ps' td)
    obtain t d where td: "td = (t, d)" by fastforce
    let ?h = "(q_heap q)(a \<mapsto> \<lparr>qn_data = take n data @ [0], qn_next = None\<rparr>)"
    have t: "q_heap q t = Some \<lparr>qn_data = d, qn_next = None\<rparr>" "a \<noteq> t" using segment_last ps(1) snoc td fresh by fastforce+
    have "implements_list (q \<lparr>q_heap := ?h(t \<mapsto> \<lparr>qn_data = d, qn_next = Some a\<rparr>), q_tail := Some a, q_count := q_count q + 1\<rparr>)
        (xs @ [take n data @ [0]])"
      unfolding implements_list_def
      using ps fin cnt segment_snoc [of "q_heap q" "q_head q" ps' t d a "take n data @ [0]"] fresh snoc td
      by (intro conjI exI [of _ "ps' @ [(t, d), (a, take n data @ [0])]"]) auto
    then show ?thesis using ps(4) a guard t snoc td by (simp add: queue_push_def Let_def)
  qed
qed

lemma pop_implements:
  assumes "implements_list q (y # xs)"
  shows "\<exists>q'. queue_pop q = Popped y q' \<and> implements_list q' xs"
proof -
  from assms obtain ps where ps: "segment (q_heap q) (q_head q) ps" "distinct (map fst ps)" "map snd ps = y # xs"
    "q_tail q = (if ps = [] then None else Some (fst (last ps)))" and fin: "finite (dom (q_heap q))" and cnt: "q_count q = int (length (y # xs))"
    by (rule implements_listE)
  obtain a ps' where ps': "ps = (a, y) # ps'" "map snd ps' = xs" using ps(3) by (cases ps) auto
  obtain nxt where nxt: "q_head q = Some a" "q_heap q a = Some \<lparr>qn_data = y, qn_next = nxt\<rparr>" "segment (q_heap q) nxt ps'"
    using ps(1) ps' by auto
  have seg: "segment ((q_heap q)(a := None)) nxt ps'" using nxt(3) ps(2) ps' by (simp add: segment_upd)
  have tl: "nxt = None \<longleftrightarrow> ps' = []" using nxt(3) by (cases ps') auto
  let ?q = "q \<lparr>q_heap := (q_heap q)(a := None), q_head := nxt, q_tail := (if nxt = None then None else q_tail q), q_count := q_count q - 1\<rparr>"
  have "implements_list ?q xs"
    unfolding implements_list_def using seg tl ps ps' fin cnt by (intro conjI exI [of _ ps']) auto
  then show ?thesis using nxt cnt by (simp add: queue_pop_def)
qed

lemma length_recv_buffer [simp]: "length (recv_buffer packet) = MAX_BUFFER_SIZE"
  by (simp add: recv_buffer_def)

text \<open>A concrete allocator that returns the address behind the last one in use.\<close>

definition next_address :: "(addr \<rightharpoonup> qnode) \<Rightarrow> addr option" where
  "next_address h = Some (Suc (Max (insert 0 (dom h))))"

lemma next_address_ok: "malloc_ok next_address"
  unfolding malloc_ok_def next_address_def
proof (intro allI impI exI conjI)
  fix h :: "addr \<rightharpoonup> qnode"
  assume "finite (dom h)"
  then have "x \<le> Max (insert 0 (dom h))" if "x \<in> dom h" for x using that by (intro Max_ge) auto
  then show "Suc (Max (insert 0 (dom h))) \<notin> dom h" using Suc_n_not_le_n by blast
qed simp

lemma queue_contract:
  assumes "malloc_ok malloc"
  shows "message_queue implements_list (receive malloc) worker_pass (\<lambda>packet. recv_buffer packet @ [0]) (2 ^ 31 - 1)"
proof
  fix q xs packet
  assume "implements_list q xs" "length xs < 2 ^ 31 - 1"
  then show "\<exists>q'. receive malloc packet q = Some q' \<and> implements_list q' (xs @ [recv_buffer packet @ [0]])"
    using push_implements [OF assms, of q xs MAX_BUFFER_SIZE "recv_buffer packet"] by (simp add: receive_def)
next
  fix q y and xs :: "bytes list"
  assume q: "implements_list q (y # xs)"
  then have "0 < q_count q" by (simp add: implements_list_def)
  then show "\<exists>q'. worker_pass q = Some (Some y, q') \<and> implements_list q' xs"
    using pop_implements [OF q] by (auto simp: worker_pass_def)
qed (simp add: implements_list_def worker_pass_def)

interpretation udp_queue: message_queue implements_list "receive next_address" worker_pass "\<lambda>packet. recv_buffer packet @ [0]" "2 ^ 31 - 1"
  by (rule queue_contract [OF next_address_ok])

section \<open>Properties\<close>

text \<open>
  C30. The table-driven checksum is CRC-32: on every message it equals the bitwise division by the
  reversed polynomial.
\<close>

theorem crc32_is_reference: "crc32 str (int (length str)) = crc32_reference str"
proof -
  have "foldl crc32_step c bs = foldl crc_byte c bs" for c bs
    by (induction bs arbitrary: c) (simp_all add: crc32_step_byte)
  then show ?thesis by (simp add: crc32_def crc32_reference_def)
qed

text \<open>
  C14. The linked list is a queue: whatever the order of receptions and worker passes, as long as
  memory is left and fewer than \<open>2^31\<close> packets arrive, no pointer is misused and the workers get
  the packets in the order of reception, each cut or padded with zeros to 1024 bytes and
  terminated.
\<close>

theorem udp_queue_is_fifo:
  assumes "malloc_ok malloc" and "puts es < 2 ^ 31"
  shows "\<exists>outs rest q. queue_run (receive malloc) worker_pass es queue_init = Some (outs, q)
    \<and> fifo_run (\<lambda>packet. recv_buffer packet @ [0]) es [] = (outs, rest) \<and> implements_list q rest"
proof -
  have "implements_list queue_init []" by (simp add: implements_list_def queue_init_def)
  from message_queue.run_refines [OF queue_contract [OF assms(1)] this, of es] assms(2) show ?thesis by simp
qed

theorem udp_queue_is_fifo_witness:
  "\<exists>rest q. queue_run (receive next_address) worker_pass [Put [1], Work, Work, Put [2], Put [3], Work] queue_init
     = Some ([recv_buffer [1] @ [0], recv_buffer [2] @ [0]], q) \<and> rest = [recv_buffer [3] @ [0]] \<and> implements_list q rest"
  using udp_queue_is_fifo [OF next_address_ok, of "[Put [1], Work, Work, Put [2], Put [3], Work]"] by (simp add: puts_def)

end
