(* ===== verification/Explorer.thy ===== *)
theory Explorer
  imports Containers "HOL-Library.Sublist"
begin

text \<open>
  The block explorer: the writer thread of \<open>server/explorer_handler.h\<close>, \<open>shared_state\<close>, the outgoing
  queue of \<open>websocket_session\<close> and the file server of \<open>http_session.cpp\<close>. The handlers that Boost.Asio
  calls are the steps of a transition relation; the work posted to the strand of a session is a
  list. The file system and the case-insensitive comparison \<open>beast::iequals\<close> are parameters of the
  file server.
\<close>

section \<open>WebSocket session\<close>

text \<open>
  \<open>ws_posted\<close> is the work posted to the strand, \<open>ws_writing\<close> the message of an outstanding write, and
  \<open>ws_written\<close> the messages whose write has completed.
\<close>

record session =
  ws_posted :: "string list"
  ws_queue :: "string list"
  ws_writing :: "string option"
  ws_written :: "string list"

definition new_session :: session where
  "new_session = \<lparr>ws_posted = [], ws_queue = [], ws_writing = None, ws_written = []\<rparr>"

definition ws_send :: "string \<Rightarrow> session \<Rightarrow> session" where
  "ws_send m s = s \<lparr>ws_posted := ws_posted s @ [m]\<rparr>"

definition on_send :: "string \<Rightarrow> session \<Rightarrow> session" where
  "on_send m s =
     (let s1 = s \<lparr>ws_queue := emplace_back (ws_queue s) m\<rparr> in
      if 1 < length (ws_queue s1) then s1 else s1 \<lparr>ws_writing := Some (hd (ws_queue s1))\<rparr>)"

text \<open>A failed write is reported and changes nothing else.\<close>

definition on_write :: "bool \<Rightarrow> session \<Rightarrow> session" where
  "on_write failed s =
     (if failed then s
      else (let q = tl (ws_queue s) in s \<lparr>ws_queue := q, ws_writing := (if q \<noteq> [] then Some (hd q) else None)\<rparr>))"

text \<open>
  The events of a session: a message is posted, the strand runs the next posted handler, the
  outstanding write completes or fails.
\<close>

datatype session_event = Posted string | Strand | Written | Failed

inductive session_step :: "session \<Rightarrow> session_event \<Rightarrow> session \<Rightarrow> bool" where
  post: "session_step s (Posted m) (ws_send m s)"
| strand: "ws_posted s = m # ms \<Longrightarrow> session_step s Strand (on_send m (s \<lparr>ws_posted := ms\<rparr>))"
| written: "ws_writing s = Some m \<Longrightarrow>
    session_step s Written (on_write False (s \<lparr>ws_writing := None, ws_written := ws_written s @ [m]\<rparr>))"
| failed: "ws_writing s = Some m \<Longrightarrow> session_step s Failed (on_write True (s \<lparr>ws_writing := None\<rparr>))"

inductive session_run :: "session_event list \<Rightarrow> session \<Rightarrow> bool" where
  start: "session_run [] new_session"
| step: "session_run es s \<Longrightarrow> session_step s e s' \<Longrightarrow> session_run (es @ [e]) s'"

section \<open>Sessions of the server\<close>

text \<open>The joined sessions and the sessions that are still alive; a message goes to those that are both.\<close>

record shared_state =
  st_sessions :: "nat set"
  st_alive :: "nat \<rightharpoonup> session"

definition join :: "nat \<Rightarrow> shared_state \<Rightarrow> shared_state" where
  "join i st = st \<lparr>st_sessions := insert i (st_sessions st)\<rparr>"

definition leave :: "nat \<Rightarrow> shared_state \<Rightarrow> shared_state" where
  "leave i st = st \<lparr>st_sessions := st_sessions st - {i}\<rparr>"

definition broadcast :: "string \<Rightarrow> shared_state \<Rightarrow> shared_state" where
  "broadcast m st = st \<lparr>st_alive := (\<lambda>i. if i \<in> st_sessions st then map_option (ws_send m) (st_alive st i) else st_alive st i)\<rparr>"

definition isEmpty :: "shared_state \<Rightarrow> bool" where
  "isEmpty st \<longleftrightarrow> st_sessions st = {}"

definition on_accept :: "bool \<Rightarrow> nat \<Rightarrow> shared_state \<Rightarrow> shared_state" where
  "on_accept failed i st = (if failed then st else join i st)"

text \<open>What a client sends goes to every client.\<close>

definition on_read :: "bool \<Rightarrow> string \<Rightarrow> shared_state \<Rightarrow> shared_state" where
  "on_read failed m st = (if failed then st else broadcast m st)"

section \<open>Writer thread\<close>

text \<open>
  A pass reads the last element of the queue, sends it, and then removes the last element; other
  threads append to the queue at any time.
\<close>

record explorer =
  ex_queue :: "string list"
  ex_state :: shared_state
  ex_sending :: bool

definition announce :: "string \<Rightarrow> explorer \<Rightarrow> explorer" where
  "announce m x = x \<lparr>ex_queue := emplace_back (ex_queue x) m\<rparr>"

definition writer_send :: "explorer \<Rightarrow> explorer" where
  "writer_send x =
     (if ex_queue x = [] then x else x \<lparr>ex_state := broadcast (last (ex_queue x)) (ex_state x), ex_sending := True\<rparr>)"

definition writer_pop :: "explorer \<Rightarrow> explorer" where
  "writer_pop x = (if ex_sending x then x \<lparr>ex_queue := butlast (ex_queue x), ex_sending := False\<rparr> else x)"

section \<open>File server\<close>

definition extension :: "string \<Rightarrow> string" where
  "extension path =
     (if CHR ''.'' \<in> set path then CHR ''.'' # rev (takeWhile (\<lambda>c. c \<noteq> CHR ''.'') (rev path)) else '''')"

definition mime_types :: "(string \<times> string) list" where
  "mime_types =
     [(''.htm'', ''text/html''), (''.html'', ''text/html''), (''.php'', ''text/html''), (''.css'', ''text/css''),
      (''.txt'', ''text/plain''), (''.js'', ''application/javascript''), (''.json'', ''application/json''),
      (''.xml'', ''application/xml''), (''.swf'', ''application/x-shockwave-flash''), (''.flv'', ''video/x-flv''),
      (''.png'', ''image/png''), (''.jpe'', ''image/jpeg''), (''.jpeg'', ''image/jpeg''), (''.jpg'', ''image/jpeg''),
      (''.gif'', ''image/gif''), (''.bmp'', ''image/bmp''), (''.ico'', ''image/vnd.microsoft.icon''), (''.tiff'', ''image/tiff''),
      (''.tif'', ''image/tiff''), (''.svg'', ''image/svg+xml''), (''.svgz'', ''image/svg+xml'')]"

definition mime_type :: "(string \<Rightarrow> string \<Rightarrow> bool) \<Rightarrow> string \<Rightarrow> string" where
  "mime_type iequals path =
     (case find (\<lambda>(e, t). iequals (extension path) e) mime_types of Some (_, t) \<Rightarrow> t | None \<Rightarrow> ''application/text'')"

definition path_cat :: "string \<Rightarrow> string \<Rightarrow> string" where
  "path_cat base path =
     (if base = '''' then path else (if last base = CHR ''/'' then butlast base else base) @ path)"

datatype opened = NoSuchFile | OpenError string | File string

datatype http_method = method_get | method_head | method_other

record response =
  res_status :: nat
  res_type :: string
  res_body :: string
  res_length :: nat

definition html_response :: "nat \<Rightarrow> string \<Rightarrow> response" where
  "html_response status t = \<lparr>res_status = status, res_type = ''text/html'', res_body = t, res_length = length t\<rparr>"

definition target_path :: "string \<Rightarrow> string \<Rightarrow> string" where
  "target_path doc_root target = path_cat doc_root target @ (if last target = CHR ''/'' then ''index.html'' else '''')"

definition handle_request ::
  "(string \<Rightarrow> string \<Rightarrow> bool) \<Rightarrow> (string \<Rightarrow> opened) \<Rightarrow> string \<Rightarrow> http_method \<Rightarrow> string \<Rightarrow> response" where
  "handle_request iequals fs doc_root method target =
     (if method \<noteq> method_get \<and> method \<noteq> method_head then html_response 400 ''Unknown HTTP-method''
      else if target = '''' \<or> hd target \<noteq> CHR ''/'' \<or> sublist ''..'' target then html_response 400 ''Illegal request-target''
      else (let path = target_path doc_root target in
        case fs path of
          NoSuchFile \<Rightarrow> html_response 404 (''The resource '' @ [CHR 0x27] @ target @ [CHR 0x27] @ '' was not found.'')
        | OpenError what \<Rightarrow> html_response 500 (''An error occurred: '' @ [CHR 0x27] @ what @ [CHR 0x27])
        | File content \<Rightarrow>
            \<lparr>res_status = 200, res_type = mime_type iequals path, res_body = (if method = method_head then '''' else content),
             res_length = length content\<rparr>))"

section \<open>Lemmas\<close>

fun posts :: "session_event list \<Rightarrow> string list" where
  "posts [] = []"
| "posts (Posted m # es) = m # posts es"
| "posts (_ # es) = posts es"

lemma posts_append [simp]: "posts (es @ es') = posts es @ posts es'"
  by (induction es rule: posts.induct) auto

text \<open>
  The invariant of a session, where \<open>f\<close> tells whether a write has failed: nothing is lost or
  reordered, a write is always of the front of the queue, and exactly one write is outstanding
  while the queue is not empty, unless one has failed, after which no write starts again.
\<close>

definition session_invar :: "string list \<Rightarrow> bool \<Rightarrow> session \<Rightarrow> bool" where
  "session_invar ps f s \<longleftrightarrow> ps = ws_written s @ ws_queue s @ ws_posted s
     \<and> (if f then ws_writing s = None \<and> ws_queue s \<noteq> [] else ws_writing s = (if ws_queue s = [] then None else Some (hd (ws_queue s))))"

lemma on_send_invar: "session_invar ps f s \<Longrightarrow> ws_posted s = m # ms \<Longrightarrow> session_invar ps f (on_send m (s \<lparr>ws_posted := ms\<rparr>))"
  by (auto simp: session_invar_def on_send_def emplace_back_def Let_def hd_append split: if_splits)

lemma on_write_invar:
  assumes "session_invar ps f s" and "ws_writing s = Some m"
  shows "session_invar ps f (on_write False (s \<lparr>ws_writing := None, ws_written := ws_written s @ [m]\<rparr>))"
    and "session_invar ps True (on_write True (s \<lparr>ws_writing := None\<rparr>))"
  using assms by (auto simp: session_invar_def on_write_def Let_def split: if_splits) (metis list.exhaust_sel)

lemma session_step_invar:
  "session_step s e s' \<Longrightarrow> session_invar (posts es) (Failed \<in> set es) s \<Longrightarrow> session_invar (posts (es @ [e])) (Failed \<in> set (es @ [e])) s'"
proof (induction rule: session_step.induct)
  case (post s m)
  then show ?case by (auto simp: session_invar_def ws_send_def)
next
  case (strand s m ms)
  then show ?case by (simp add: on_send_invar)
next
  case (written s m)
  then show ?case using on_write_invar(1) by simp
next
  case (failed s m)
  then show ?case using on_write_invar(2) by simp
qed

lemma session_run_invar: "session_run es s \<Longrightarrow> session_invar (posts es) (Failed \<in> set es) s"
proof (induction rule: session_run.induct)
  case start
  then show ?case by (simp add: session_invar_def new_session_def)
next
  case (step es s e s')
  show ?case by (rule session_step_invar [OF step.hyps(2) step.IH])
qed

text \<open>Without other threads, the writer sends the newest announcement first.\<close>

definition writer_cycle :: "explorer \<Rightarrow> explorer" where
  "writer_cycle x = writer_pop (writer_send x)"

lemma broadcast_sessions [simp]: "st_sessions (broadcast m st) = st_sessions st"
  by (simp add: broadcast_def)

lemma broadcast_joined: "i \<in> st_sessions st \<Longrightarrow> st_alive (broadcast m st) i = map_option (ws_send m) (st_alive st i)"
  by (simp add: broadcast_def)

lemma writer_cycle_simps:
  "ex_queue x = q @ [m] \<Longrightarrow> ex_queue (writer_cycle x) = q \<and> ex_state (writer_cycle x) = broadcast m (ex_state x)"
  by (simp add: writer_cycle_def writer_send_def writer_pop_def)

lemma newest_first:
  assumes "i \<in> st_sessions (ex_state x)" and "st_alive (ex_state x) i = Some s"
  shows "\<exists>s'. ex_queue ((writer_cycle ^^ length (ex_queue x)) x) = [] \<and> st_alive (ex_state ((writer_cycle ^^ length (ex_queue x)) x)) i = Some s'
    \<and> ws_posted s' = ws_posted s @ rev (ex_queue x)"
  using assms
proof (induction "ex_queue x" arbitrary: x s rule: rev_induct)
  case Nil
  then show ?case by auto
next
  case (snoc m q)
  let ?x = "writer_cycle x"
  have x: "ex_queue ?x = q" "ex_state ?x = broadcast m (ex_state x)" using writer_cycle_simps [of x q m] snoc.hyps(2) by simp_all
  have al: "st_alive (ex_state ?x) i = Some (ws_send m s)" "i \<in> st_sessions (ex_state ?x)"
    using snoc.prems x(2) by (simp_all add: broadcast_joined)
  have "(writer_cycle ^^ length (ex_queue x)) x = (writer_cycle ^^ length (ex_queue ?x)) ?x"
    using snoc.hyps(2) [symmetric] x(1) by (simp add: funpow_Suc_right del: funpow.simps)
  then show ?case using snoc.hyps(1) [OF x(1) [symmetric] al(2,1)] snoc.hyps(2) [symmetric] x(1) by (simp add: ws_send_def)
qed

lemma sublist_pair_append:
  "sublist [a, a] (xs @ ys) \<longleftrightarrow> sublist [a, a] xs \<or> sublist [a, a] ys \<or> (xs \<noteq> [] \<and> ys \<noteq> [] \<and> last xs = a \<and> hd ys = a)"
proof (induction xs)
  case (Cons x xs)
  show ?case
  proof (cases "xs @ ys")
    case (Cons z zs)
    then show ?thesis using Cons.IH by (cases xs) (auto simp: sublist_Cons_right)
  qed (auto simp: sublist_Cons_right)
qed simp

lemma target_path_confined:
  assumes "target \<noteq> ''''" and "hd target = CHR ''/''" and "\<not> sublist ''..'' target"
  shows "\<exists>rest. target_path root target = path_cat root (CHR ''/'' # rest) \<and> \<not> sublist ''..'' (CHR ''/'' # rest)"
proof -
  let ?suffix = "if last target = CHR ''/'' then ''index.html'' else ''''"
  obtain rest where rest: "target = CHR ''/'' # rest" using assms(1,2) by (cases target) auto
  have "\<not> sublist ''..'' (target @ ?suffix)"
    using assms by (auto simp: sublist_pair_append sublist_Cons_right)
  moreover have "target_path root target = path_cat root (target @ ?suffix)" by (simp add: target_path_def path_cat_def)
  ultimately show ?thesis using rest by (intro exI [of _ "rest @ ?suffix"]) simp
qed

section \<open>Properties\<close>


lemma session_example:
  "session_run [Posted ''a'', Posted ''b'', Strand, Strand, Written]
     \<lparr>ws_posted = [], ws_queue = [''b''], ws_writing = Some ''b'', ws_written = [''a'']\<rparr>"
proof -
  let ?s1 = "ws_send ''a'' new_session"
  let ?s2 = "ws_send ''b'' ?s1"
  let ?s3 = "on_send ''a'' (?s2 \<lparr>ws_posted := [''b'']\<rparr>)"
  let ?s4 = "on_send ''b'' (?s3 \<lparr>ws_posted := []\<rparr>)"
  let ?s5 = "on_write False (?s4 \<lparr>ws_writing := None, ws_written := ws_written ?s4 @ [''a'']\<rparr>)"
  note defs = ws_send_def new_session_def on_send_def on_write_def emplace_back_def Let_def
  have "session_run [Posted ''a''] ?s1" using session_run.step [OF session_run.start session_step.post] by simp
  then have "session_run [Posted ''a'', Posted ''b''] ?s2" using session_run.step [OF _ session_step.post] by fastforce
  moreover have "session_step ?s2 Strand ?s3" by (rule session_step.strand) (simp add: defs)
  ultimately have "session_run [Posted ''a'', Posted ''b'', Strand] ?s3" using session_run.step by fastforce
  moreover have "session_step ?s3 Strand ?s4" by (rule session_step.strand) (simp add: defs)
  ultimately have "session_run [Posted ''a'', Posted ''b'', Strand, Strand] ?s4" using session_run.step by fastforce
  moreover have "session_step ?s4 Written ?s5" by (rule session_step.written) (simp add: defs)
  ultimately have "session_run [Posted ''a'', Posted ''b'', Strand, Strand, Written] ?s5" using session_run.step by fastforce
  then show ?thesis by (simp add: defs)
qed


text \<open>
  An announcement that arrives while the writer is between reading and removing is never sent:
  it is removed in place of the one that was read, and that one stays and is sent again.
\<close>

interpretation explorer_writer: back_reader ex_queue ex_sending announce writer_send writer_pop
  by unfold_locales (simp_all add: announce_def emplace_back_def writer_send_def writer_pop_def)

lemma announcement_during_pass_is_lost:
  assumes "ex_queue x = q @ [old]"
  shows "ex_queue (writer_pop (announce new (writer_send x))) = q @ [old]
    \<and> ex_state (writer_pop (announce new (writer_send x))) = broadcast old (ex_state x)"
  using explorer_writer.disturbed [of x "[new]"] assms by (simp add: writer_send_def writer_pop_def announce_def)

text \<open>
  C35. The file server stays below its root: its response depends only on files whose path is the
  root followed by an absolute path without two consecutive dots, for every request.
\<close>

theorem handle_request_confined:
  assumes "\<And>rest. \<not> sublist ''..'' (CHR ''/'' # rest) \<Longrightarrow> fs (path_cat root (CHR ''/'' # rest)) = fs' (path_cat root (CHR ''/'' # rest))"
  shows "handle_request iequals fs root method target = handle_request iequals fs' root method target"
proof (cases "target = '''' \<or> hd target \<noteq> CHR ''/'' \<or> sublist ''..'' target")
  case True
  then show ?thesis by (auto simp: handle_request_def)
next
  case False
  then have "fs (target_path root target) = fs' (target_path root target)" using target_path_confined [of target root] assms by force
  then show ?thesis by (simp add: handle_request_def Let_def)
qed

theorem handle_request_confined_witness:
  "handle_request (=) (\<lambda>p. if p = ''./a.txt'' then File ''text'' else NoSuchFile) ''.'' method_get ''/../secret''
   = handle_request (=) (\<lambda>p. if p = ''./a.txt'' then File ''text'' else if p = ''./../secret'' then File ''key'' else NoSuchFile) ''.'' method_get ''/../secret''"
proof (rule handle_request_confined)
  fix rest
  assume "\<not> sublist ''..'' (CHR ''/'' # rest)"
  then have "CHR ''/'' # rest \<noteq> ''/../secret''" by (auto simp: sublist_Cons_right)
  then show "(if path_cat ''.'' (CHR ''/'' # rest) = ''./a.txt'' then File ''text'' else NoSuchFile)
    = (if path_cat ''.'' (CHR ''/'' # rest) = ''./a.txt'' then File ''text'' else if path_cat ''.'' (CHR ''/'' # rest) = ''./../secret'' then File ''key'' else NoSuchFile)"
    by (simp add: path_cat_def)
qed

end
