(* ===== verification/Initiator.thy ===== *)
theory Initiator
  imports Bip44
begin

text \<open>
  The start of the program: \<open>UnitInitiator::init\<close> reads the flags and derives the prover's wallet, and
  \<open>main\<close> calls it with fixed arguments. The loop over the arguments may run for ever, which is
  \<open>None\<close>; reading outside the array of arguments is \<open>BadRead\<close>. The threads that \<open>init\<close> starts are the
  components of the other theories.
\<close>

section \<open>Flags\<close>

datatype init_error = NoArgsException | InvalidFlag | MissingImportantFlags | StoiError | BadRead

definition flag_names :: "string list" where
  "flag_names = [''--userpath'', ''--historyPath'', ''--blockPath'', ''--transactionPath'', ''--tokenPath'', ''--mnemonicSize'',
     ''--mnemonic'', ''--walletIndex'', ''--passphrase'']"

text \<open>The value of every flag; a flag that was not given has the empty value.\<close>

type_synonym flags = "string \<Rightarrow> string"

text \<open>\<open>std::stoi\<close>: optional white space and sign, then digits, and the rest is ignored.\<close>

definition stoi_digits :: "string \<Rightarrow> init_error + int" where
  "stoi_digits t =
     (let ds = takeWhile (\<lambda>c. c \<in> set ''0123456789'') t in
      if ds = [] then Inl StoiError else Inr (foldl (\<lambda>v c. 10 * v + (int (of_char c) - 48)) 0 ds))"

definition stoi :: "string \<Rightarrow> init_error + int" where
  "stoi t =
     res_bind (case dropWhile (\<lambda>c. c \<in> {CHR '' '', CHR 0x09, CHR 0x0A, CHR 0x0B, CHR 0x0C, CHR 0x0D}) t of
                 [] \<Rightarrow> Inl StoiError
               | c # cs \<Rightarrow> if c = CHR ''-'' then res_bind (stoi_digits cs) (\<lambda>n. Inr (- n))
                           else if c = CHR ''+'' then stoi_digits cs else stoi_digits (c # cs))
       (\<lambda>n. if - (2 ^ 31) \<le> n \<and> n < 2 ^ 31 then Inr n else Inl StoiError)"

text \<open>The words behind \<open>--mnemonic\<close>, each but the first after a space.\<close>

definition mnemonic_words :: "string list \<Rightarrow> int \<Rightarrow> int \<Rightarrow> init_error + string" where
  "mnemonic_words argv i n =
     (let ws = take (nat n) (drop (nat i) argv) in
      if length ws < nat n then Inl BadRead
      else Inr (concat (map (\<lambda>(j, w). (if 0 < j then '' '' else '''') @ w) (enumerate 0 ws))))"

partial_function (option) flags_loop :: "string list \<Rightarrow> int \<Rightarrow> flags \<Rightarrow> (init_error + flags) option" where
  "flags_loop argv i fl =
     (if int (length argv) \<le> i then Some (Inr fl)
      else if i < 0 then Some (Inl BadRead)
      else (let key = argv ! nat i in
        if key \<notin> set flag_names then Some (Inl InvalidFlag)
        else if key = ''--mnemonic'' then
          if fl ''--mnemonicSize'' = '''' then Some (Inl MissingImportantFlags)
          else (case stoi (fl ''--mnemonicSize'') of
              Inl e \<Rightarrow> Some (Inl e)
            | Inr n \<Rightarrow> (case mnemonic_words argv (i + 1) n of
                Inl e \<Rightarrow> Some (Inl e)
              | Inr t \<Rightarrow> flags_loop argv (i + 1 + (n - 1) + 1) (fl(''--mnemonic'' := fl ''--mnemonic'' @ t))))
        else if int (length argv) \<le> i + 1 then Some (Inl BadRead)
        else flags_loop argv (i + 2) (fl(key := argv ! nat (i + 1)))))"

declare flags_loop.simps [code]

definition init_flags :: "string list \<Rightarrow> (init_error + flags) option" where
  "init_flags argv =
     (if length argv = 1 then Some (Inl NoArgsException)
      else case flags_loop argv 0 (\<lambda>_. '''') of
          None \<Rightarrow> None
        | Some (Inl e) \<Rightarrow> Some (Inl e)
        | Some (Inr fl) \<Rightarrow>
            if \<exists>key \<in> set flag_names. fl key = '''' \<and> key \<noteq> ''--passphrase'' then Some (Inl MissingImportantFlags)
            else Some (Inr fl))"

section \<open>Wallet of the prover\<close>

text \<open>
  The second argument of \<open>BIP39Result\<close> is the seed; \<open>init\<close> passes the passphrase, or the digest of the
  time when there is none. The index is narrowed to 16 bits by the call.
\<close>

definition prover_wallet :: "wallet_lib \<Rightarrow> string \<Rightarrow> flags \<Rightarrow> init_error + BIP44Result option" where
  "prover_wallet lib now fl =
     (let bip39Result = \<lparr>phrase = fl ''--mnemonic'',
            seed = (if fl ''--passphrase'' = '''' then sha3_256 now else fl ''--passphrase'')\<rparr>
      in res_bind (stoi (fl ''--walletIndex'')) (\<lambda>i. Inr (generateAddress lib bip39Result 0 EXTERNAL_CHANGE (of_int i))))"

definition main_argv :: "string list" where
  "main_argv =
     [''--userpath'', ''/Users/kirillzhukov/Desktop/unit/user/'',
      ''--historyPath'', ''/Users/kirillzhukov/Desktop/unit/history/'',
      ''--blockPath'', ''/Users/kirillzhukov/Desktop/unit/blocks/'',
      ''--transactionPath'', ''/Users/kirillzhukov/Desktop/unit/transactions/'',
      ''--tokenPath'', ''/Users/kirillzhukov/Desktop/unit/tokens'',
      ''--mnemonicSize'', ''24'',
      ''--mnemonic'', ''garden'', ''barrel'', ''lobster'', ''swift'', ''filter'', ''arm'',
      ''walnut'', ''inquiry'', ''physical'', ''pride'', ''cruise'', ''winner'',
      ''desert'', ''fantasy'', ''victory'', ''aerobic'', ''myself'', ''organ'',
      ''vague'', ''opera'', ''shoot'', ''various'', ''track'', ''income'',
      ''--passphrase'', ''qwerty'',
      ''--walletIndex'', ''0'']"

section \<open>Start\<close>

text \<open>
  \<open>init\<close> ends with the running threads and never returns; \<open>main\<close> prints what it throws and exits with
  code 2. Undefined behaviour is \<open>Start_undefined\<close>, an argument loop that never ends \<open>None\<close>.
\<close>

datatype start = Runs flags BIP44Result | Exits nat string | Start_undefined

fun what_text :: "init_error \<Rightarrow> string option" where
  "what_text NoArgsException = Some ''No argc were given.''"
| "what_text InvalidFlag = Some ''Invalid flag.''"
| "what_text MissingImportantFlags = Some ''Missed important flags.''"
| "what_text StoiError = Some ''stoi''"
| "what_text BadRead = None"

definition init :: "wallet_lib \<Rightarrow> string \<Rightarrow> string list \<Rightarrow> (init_error + flags \<times> BIP44Result option) option" where
  "init lib now argv =
     (case init_flags argv of
        None \<Rightarrow> None
      | Some (Inl e) \<Rightarrow> Some (Inl e)
      | Some (Inr fl) \<Rightarrow> Some (res_bind (prover_wallet lib now fl) (\<lambda>w. Inr (fl, w))))"

definition main_program :: "wallet_lib \<Rightarrow> string \<Rightarrow> start option" where
  "main_program lib now =
     map_option (\<lambda>r. case r of
         Inl e \<Rightarrow> (case what_text e of Some t \<Rightarrow> Exits 2 t | None \<Rightarrow> Start_undefined)
       | Inr (fl, Some w) \<Rightarrow> Runs fl w
       | Inr (fl, None) \<Rightarrow> Start_undefined)
     (init lib now main_argv)"

section \<open>Lemmas\<close>

text \<open>
  A mnemonic size of \<open>-1\<close> leaves the loop at the same argument, so it never ends.
\<close>

definition stuck :: "string list \<Rightarrow> int \<Rightarrow> flags \<Rightarrow> bool" where
  "stuck argv i fl \<longleftrightarrow> 0 \<le> i \<and> i < int (length argv) \<and> argv ! nat i = ''--mnemonic'' \<and> stoi (fl ''--mnemonicSize'') = Inr (- 1)"

lemma flags_loop_not_stuck:
  assumes "flags_loop argv i fl = Some r"
  shows "\<not> stuck argv i fl"
proof (rule flags_loop.raw_induct [where P = "\<lambda>argv i fl r. \<not> stuck argv i fl", OF _ assms], goal_cases)
  case (1 f argv i fl r)
  have "stoi '''' = Inl StoiError" by (simp add: stoi_def)
  moreover have "mnemonic_words argv (i + 1) (- 1) = Inr ''''" by (simp add: mnemonic_words_def)
  ultimately show ?case
    using 1(2) 1(1) [of argv i fl r] by (auto simp: stuck_def Let_def flag_names_def split: if_splits)
qed

lemma negative_size_hangs: "stuck argv i fl \<Longrightarrow> flags_loop argv i fl = None"
  using flags_loop_not_stuck by (cases "flags_loop argv i fl") auto

text \<open>The keys of a wallet without the mnemonic that it records.\<close>

definition keys_of :: "BIP44Result \<Rightarrow> string \<times> string \<times> string" where
  "keys_of w = (prv w, pub w, address w)"

lemma generateAddress_seed:
  "seed m = seed m' \<Longrightarrow> map_option keys_of (generateAddress lib m a c i) = map_option keys_of (generateAddress lib m' a c i)"
  by (simp add: generateAddress_def address_result_def keys_of_def split: option.split sum.split)

section \<open>Properties\<close>

text \<open>
  The keys of the prover do not depend on the mnemonic: replacing the mnemonic of a command
  line changes neither the private key, nor the public key, nor the address, nor whether the
  derivation fails.
\<close>

lemma prover_keys_ignore_mnemonic:
  "map_sum id (map_option keys_of) (prover_wallet lib now (fl(''--mnemonic'' := m))) = map_sum id (map_option keys_of) (prover_wallet lib now fl)"
  by (cases "stoi (fl ''--walletIndex'')") (auto simp: prover_wallet_def intro!: generateAddress_seed)

text \<open>
  The command line that \<open>main\<close> passes is accepted: every flag gets its value and the 24 words
  become the mnemonic.
\<close>

lemma main_arguments_accepted:
  "\<exists>fl. init_flags main_argv = Some (Inr fl) \<and> fl ''--passphrase'' = ''qwerty'' \<and> fl ''--walletIndex'' = ''0''
     \<and> fl ''--mnemonic'' = ''garden barrel lobster swift filter arm walnut inquiry physical pride cruise winner desert fantasy victory aerobic myself organ vague opera shoot various track income''"
proof -
  have "case init_flags main_argv of Some (Inr fl) \<Rightarrow> fl ''--passphrase'' = ''qwerty'' \<and> fl ''--walletIndex'' = ''0''
     \<and> fl ''--mnemonic'' = ''garden barrel lobster swift filter arm walnut inquiry physical pride cruise winner desert fantasy victory aerobic myself organ vague opera shoot various track income''
     | _ \<Rightarrow> False" by code_simp
  then show ?thesis by (auto split: option.splits sum.splits)
qed

text \<open>
  The program always gets as far as its keys: they are those of the seed \<open>qwerty\<close>, and it runs when
  deriving them is defined.
\<close>

lemma main_program_runs:
  "\<exists>fl ph. main_program lib now =
     Some (case generateAddress lib \<lparr>phrase = ph, seed = ''qwerty''\<rparr> 0 EXTERNAL_CHANGE 0 of Some w \<Rightarrow> Runs fl w | None \<Rightarrow> Start_undefined)"
proof -
  obtain fl where fl: "init_flags main_argv = Some (Inr fl)" "fl ''--passphrase'' = ''qwerty''" "fl ''--walletIndex'' = ''0''"
    using main_arguments_accepted by blast
  have "stoi ''0'' = Inr 0" by code_simp
  then have "prover_wallet lib now fl = Inr (generateAddress lib \<lparr>phrase = fl ''--mnemonic'', seed = ''qwerty''\<rparr> 0 EXTERNAL_CHANGE 0)"
    using fl(2,3) by (simp add: prover_wallet_def)
  then show ?thesis
    using fl(1) by (intro exI [of _ fl] exI [of _ "fl ''--mnemonic''"]) (simp add: main_program_def init_def split: option.split)
qed

end
