(* ===== verification/Event_Machine.thy ===== *)
theory Event_Machine
  imports Unit_Prelude
begin

text \<open>
  Components that react to events, such as the handlers Boost.Asio calls: a step takes an event and
  a state and gives the next state, or \<open>None\<close> when the event cannot happen in that state or the
  handler does not return. The locale collects what a run of such a component satisfies when an
  invariant over the events so far is kept by every step.
\<close>

fun run_events :: "('e \<Rightarrow> 's \<Rightarrow> 's option) \<Rightarrow> 'e list \<Rightarrow> 's \<Rightarrow> 's option" where
  "run_events step [] s = Some s"
| "run_events step (e # es) s = Option.bind (step e s) (run_events step es)"

lemma run_events_append:
  "run_events step (es @ es') s = Option.bind (run_events step es s) (run_events step es')"
proof (induction es arbitrary: s)
  case (Cons e es)
  then show ?case by (cases "step e s") simp_all
qed simp

lemma run_events_snoc:
  "run_events step (es @ [e]) s = Some s' \<longleftrightarrow> (\<exists>s1. run_events step es s = Some s1 \<and> step e s1 = Some s')"
  by (cases "run_events step es s") (auto simp: run_events_append bind_eq_Some_conv)

locale history_invariant =
  fixes step :: "'e \<Rightarrow> 's \<Rightarrow> 's option" and init :: 's and invar :: "'e list \<Rightarrow> 's \<Rightarrow> bool"
  assumes init: "invar [] init"
    and keep: "invar es s \<Longrightarrow> step e s = Some s' \<Longrightarrow> invar (es @ [e]) s'"
begin

lemma run: "run_events step es init = Some s \<Longrightarrow> invar es s"
proof (induction es arbitrary: s rule: rev_induct)
  case Nil
  then show ?case using init by simp
next
  case (snoc e es)
  then show ?case using keep by (auto simp: run_events_snoc)
qed

end

end
