(* ===== verification/Connections.thy ===== *)
theory Connections
  imports Event_Machine Rpc Explorer
begin

text \<open>
  The connections of the two servers: the HTTP sessions and the listener of the explorer
  (\<open>server/http_session.cpp\<close>, \<open>server/listener.cpp\<close>, \<open>server/explorer_handler.h\<close>) and the connections, the
  accept loop and the start of the RPC server (\<open>server/Server.h\<close>). The asynchronous operations of
  Boost.Asio are the events: which of them can complete is what the handlers have started and not
  yet seen finished. The contents of the messages come from \<open>Explorer.handle_request\<close> and
  \<open>Rpc.process_request\<close>; parsing a request from the socket is Beast's.
\<close>

section \<open>HTTP sessions of the explorer\<close>

record http_request =
  rq_method :: http_method
  rq_target :: string
  rq_keep_alive :: bool
  rq_upgrade :: bool

text \<open>What the session waits for: a request, the end of a write, or nothing any more.\<close>

datatype http_phase = Reading | Answering response bool | Upgraded http_request | Shut | Gone

record http_session =
  hs_phase :: http_phase
  hs_sent :: "response list"

datatype read_outcome = Received http_request | End_of_stream | Read_error

definition do_read :: "http_session \<Rightarrow> http_session" where
  "do_read s = s \<lparr>hs_phase := Reading\<rparr>"

definition http_start :: http_session where
  "http_start = do_read \<lparr>hs_phase = Gone, hs_sent = []\<rparr>"

text \<open>Every response takes over the keep-alive flag of its request.\<close>

definition http_on_read ::
  "(string \<Rightarrow> string \<Rightarrow> bool) \<Rightarrow> (string \<Rightarrow> opened) \<Rightarrow> string \<Rightarrow> read_outcome \<Rightarrow> http_session \<Rightarrow> http_session" where
  "http_on_read iequals fs doc_root outcome s =
     (case outcome of
        End_of_stream \<Rightarrow> s \<lparr>hs_phase := Shut\<rparr>
      | Read_error \<Rightarrow> s \<lparr>hs_phase := Gone\<rparr>
      | Received rq \<Rightarrow>
          if rq_upgrade rq then s \<lparr>hs_phase := Upgraded rq\<rparr>
          else s \<lparr>hs_phase := Answering (handle_request iequals fs doc_root (rq_method rq) (rq_target rq)) (rq_keep_alive rq)\<rparr>)"

definition http_on_write :: "bool \<Rightarrow> bool \<Rightarrow> http_session \<Rightarrow> http_session" where
  "http_on_write failed keep_alive s =
     (if failed then s \<lparr>hs_phase := Gone\<rparr> else if \<not> keep_alive then s \<lparr>hs_phase := Shut\<rparr> else do_read s)"

text \<open>The files may change between two requests, so a read comes with the files of its time.\<close>

datatype http_event = Read_done "string \<Rightarrow> opened" read_outcome | Write_done bool

definition http_step :: "(string \<Rightarrow> string \<Rightarrow> bool) \<Rightarrow> string \<Rightarrow> http_event \<Rightarrow> http_session \<Rightarrow> http_session option" where
  "http_step iequals doc_root e s =
     (case (e, hs_phase s) of
        (Read_done fs outcome, Reading) \<Rightarrow> Some (http_on_read iequals fs doc_root outcome s)
      | (Write_done failed, Answering r keep_alive) \<Rightarrow>
          Some (http_on_write failed keep_alive (if failed then s else s \<lparr>hs_sent := hs_sent s @ [r]\<rparr>))
      | _ \<Rightarrow> None)"

section \<open>Listener of the explorer\<close>

datatype setup_step = Open | Set_option | Bind | Listen

record listener =
  ls_failed :: "setup_step option"
  ls_waiting :: bool
  ls_sessions :: nat

text \<open>The constructor stops at the first step that fails, and reports it.\<close>

definition listener_new :: "(setup_step \<Rightarrow> bool) \<Rightarrow> listener" where
  "listener_new ok = \<lparr>ls_failed = find (\<lambda>st. \<not> ok st) [Open, Set_option, Bind, Listen], ls_waiting = False, ls_sessions = 0\<rparr>"

definition listener_run :: "listener \<Rightarrow> listener" where
  "listener_run l = l \<lparr>ls_waiting := True\<rparr>"

definition listener_on_accept :: "bool \<Rightarrow> listener \<Rightarrow> listener" where
  "listener_on_accept failed l =
     (if failed then l \<lparr>ls_waiting := False\<rparr> else l \<lparr>ls_waiting := True, ls_sessions := ls_sessions l + 1\<rparr>)"

definition start_explorer_server :: "(setup_step \<Rightarrow> bool) \<Rightarrow> listener" where
  "start_explorer_server ok = listener_run (listener_new ok)"

text \<open>An accept completes while one is outstanding, with success only on a listening socket.\<close>

definition listener_step :: "bool \<Rightarrow> listener \<Rightarrow> listener option" where
  "listener_step failed l =
     (if ls_waiting l \<and> (failed \<or> ls_failed l = None) then Some (listener_on_accept failed l) else None)"

section \<open>Connections of the RPC server\<close>

datatype conn_io = Awaiting | Writing | Done

record rpc_connection =
  cn_io :: conn_io
  cn_deadline :: bool
  cn_open :: bool
  cn_answer :: "(http_status \<times> string) option"

definition connection_start :: rpc_connection where
  "connection_start = \<lparr>cn_io = Awaiting, cn_deadline = True, cn_open = True, cn_answer = None\<rparr>"

text \<open>The pool and the explorer queue are shared by all connections and with the other threads.\<close>

record 'j rpc_server =
  sv_pool :: "'j transaction list"
  sv_explorer :: "string list"
  sv_conns :: "rpc_connection list"

definition server_start :: "'j rpc_server" where
  "server_start = \<lparr>sv_pool = [], sv_explorer = [], sv_conns = []\<rparr>"

text \<open>The accept loop starts the next accept whether or not this one failed.\<close>

definition http_server :: "bool \<Rightarrow> 'j rpc_server \<Rightarrow> 'j rpc_server" where
  "http_server failed sv = (if failed then sv else sv \<lparr>sv_conns := sv_conns sv @ [connection_start]\<rparr>)"

definition write_response :: "'j rpc \<Rightarrow> rpc_connection \<Rightarrow> rpc_connection" where
  "write_response r c = c \<lparr>cn_io := Writing, cn_answer := Some (rp_status r, rp_body r)\<rparr>"

text \<open>A request that could not be read is not answered; the connection then waits for its deadline.\<close>

definition read_request ::
  "nat \<Rightarrow> ('j, 'p) rpc_env \<Rightarrow> (verb \<times> string) option \<Rightarrow> 'j rpc_server \<Rightarrow> 'j rpc_server option" where
  "read_request i env input sv =
     (case input of
        None \<Rightarrow> Some (sv \<lparr>sv_conns := (sv_conns sv)[i := (sv_conns sv ! i) \<lparr>cn_io := Done\<rparr>]\<rparr>)
      | Some (method, body) \<Rightarrow>
          (case process_request env method body (new_connection (sv_pool sv) (sv_explorer sv)) of
             None \<Rightarrow> None
           | Some r \<Rightarrow> Some (sv \<lparr>sv_pool := rp_pool r, sv_explorer := rp_explorer r,
               sv_conns := (sv_conns sv)[i := write_response r (sv_conns sv ! i)]\<rparr>)))"

text \<open>The end of a write, successful or not, shuts the socket down and cancels the deadline.\<close>

definition response_written :: "rpc_connection \<Rightarrow> rpc_connection" where
  "response_written c = c \<lparr>cn_io := Done, cn_open := False, cn_deadline := False\<rparr>"

definition check_deadline :: "rpc_connection \<Rightarrow> rpc_connection" where
  "check_deadline c = c \<lparr>cn_open := False, cn_deadline := False\<rparr>"

text \<open>
  The events: an accept completes, a request arrives or its read fails, a write completes, a deadline
  passes, and the shard factory takes transactions out of the pool.
\<close>

datatype ('j, 'p) server_event =
  Accepted bool | Request nat "('j, 'p) rpc_env" "(verb \<times> string) option" | Response_written nat | Deadline nat | Drained nat

definition server_step :: "('j, 'p) server_event \<Rightarrow> 'j rpc_server \<Rightarrow> 'j rpc_server option" where
  "server_step e sv =
     (case e of
        Accepted failed \<Rightarrow> Some (http_server failed sv)
      | Request i env input \<Rightarrow>
          if i < length (sv_conns sv) \<and> cn_io (sv_conns sv ! i) = Awaiting \<and> (input = None \<or> cn_open (sv_conns sv ! i))
          then read_request i env input sv else None
      | Response_written i \<Rightarrow>
          if i < length (sv_conns sv) \<and> cn_io (sv_conns sv ! i) = Writing
          then Some (sv \<lparr>sv_conns := (sv_conns sv)[i := response_written (sv_conns sv ! i)]\<rparr>) else None
      | Deadline i \<Rightarrow>
          if i < length (sv_conns sv) \<and> cn_deadline (sv_conns sv ! i)
          then Some (sv \<lparr>sv_conns := (sv_conns sv)[i := check_deadline (sv_conns sv ! i)]\<rparr>) else None
      | Drained n \<Rightarrow> map_option (\<lambda>p. sv \<lparr>sv_pool := p\<rparr>) (pool_dropTransactions (sv_pool sv) n))"

section \<open>Start of the RPC server\<close>

text \<open>
  One pass of \<open>start_server\<close>: the constructor of the acceptor may throw, \<open>reserve\<close> throws for the number
  of worker threads minus one when it is negative and thus converted to a huge size, and the
  event loop may throw. An exception is caught and the function starts again, unless worker threads
  are still joinable when the vector that holds them is destroyed.
\<close>

datatype server_end = Returned | Retried | Terminated

definition threads :: "nat \<Rightarrow> int" where
  "threads hardware_concurrency = int hardware_concurrency div 2"

definition server_pass :: "nat \<Rightarrow> bool \<Rightarrow> bool \<Rightarrow> server_end" where
  "server_pass hardware_concurrency bound loop_ok =
     (if \<not> bound then Retried
      else if threads hardware_concurrency - 1 < 0 then Retried
      else if loop_ok then Returned
      else if 0 < threads hardware_concurrency - 1 then Terminated
      else Retried)"

partial_function (option) start_server :: "nat \<Rightarrow> (nat \<Rightarrow> bool) \<Rightarrow> (nat \<Rightarrow> bool) \<Rightarrow> nat \<Rightarrow> server_end option" where
  "start_server hardware_concurrency bound loop_ok i =
     (case server_pass hardware_concurrency (bound i) (loop_ok i) of
        Retried \<Rightarrow> start_server hardware_concurrency bound loop_ok (Suc i)
      | r \<Rightarrow> Some r)"

section \<open>Lemmas\<close>

text \<open>The requests that were read as HTTP requests, and the responses they ask for.\<close>

fun received :: "http_event list \<Rightarrow> ((string \<Rightarrow> opened) \<times> http_request) list" where
  "received [] = []"
| "received (Read_done fs (Received rq) # es) = (fs, rq) # received es"
| "received (_ # es) = received es"

definition asked :: "(string \<Rightarrow> string \<Rightarrow> bool) \<Rightarrow> string \<Rightarrow> http_event list \<Rightarrow> response list" where
  "asked iequals doc_root es =
     map (\<lambda>(fs, rq). handle_request iequals fs doc_root (rq_method rq) (rq_target rq)) (filter (\<lambda>(fs, rq). \<not> rq_upgrade rq) (received es))"

lemma received_append [simp]: "received (es @ es') = received es @ received es'"
  by (induction es rule: received.induct) auto

lemma asked_append: "asked iequals doc_root (es @ es') = asked iequals doc_root es @ asked iequals doc_root es'"
  by (simp add: asked_def)

text \<open>
  Responses are sent in the order of the requests and before the next request is read, and only
  requests that keep the connection alive are followed by another read.
\<close>

definition http_invar :: "(string \<Rightarrow> string \<Rightarrow> bool) \<Rightarrow> string \<Rightarrow> http_event list \<Rightarrow> http_session \<Rightarrow> bool" where
  "http_invar iequals doc_root es s \<longleftrightarrow>
     (case hs_phase s of
        Reading \<Rightarrow> asked iequals doc_root es = hs_sent s \<and> (\<forall>(fs, rq) \<in> set (received es). rq_keep_alive rq \<and> \<not> rq_upgrade rq)
      | Answering r keep_alive \<Rightarrow> asked iequals doc_root es = hs_sent s @ [r]
          \<and> (\<forall>(fs, rq) \<in> set (butlast (received es)). rq_keep_alive rq \<and> \<not> rq_upgrade rq)
          \<and> received es \<noteq> [] \<and> rq_keep_alive (snd (last (received es))) = keep_alive \<and> \<not> rq_upgrade (snd (last (received es)))
      | Upgraded rq \<Rightarrow> asked iequals doc_root es = hs_sent s
      | Shut \<Rightarrow> asked iequals doc_root es = hs_sent s
      | Gone \<Rightarrow> asked iequals doc_root es = hs_sent s \<or> (\<exists>r. asked iequals doc_root es = hs_sent s @ [r]))"

lemma keep_alive_last:
  assumes "xs \<noteq> []" and "\<forall>(fs, rq) \<in> set (butlast xs). P rq" and "P (snd (last xs))"
  shows "\<forall>(fs, rq) \<in> set xs. P rq"
  using assms by (metis append_butlast_last_id case_prod_beta in_set_conv_nth nth_append_length Un_iff set_append list.set_intros(1) empty_iff insert_iff list.set(1) list.set(2))

lemma http_step_invar:
  assumes inv: "http_invar iequals doc_root es s" and step: "http_step iequals doc_root e s = Some s'"
  shows "http_invar iequals doc_root (es @ [e]) s'"
proof (cases e)
  case (Read_done fs outcome)
  then have ph: "hs_phase s = Reading" and s': "s' = http_on_read iequals fs doc_root outcome s"
    using step by (auto simp: http_step_def split: http_phase.splits)
  show ?thesis
  proof (cases outcome)
    case (Received rq)
    then show ?thesis using inv ph s' Read_done
      by (auto simp: http_invar_def http_on_read_def asked_def)
  next
    case End_of_stream
    then show ?thesis using inv ph s' Read_done by (simp add: http_invar_def http_on_read_def asked_def)
  next
    case Read_error
    then show ?thesis using inv ph s' Read_done by (simp add: http_invar_def http_on_read_def asked_def)
  qed
next
  case (Write_done failed)
  then obtain r keep where ph: "hs_phase s = Answering r keep"
    and s': "s' = http_on_write failed keep (if failed then s else s \<lparr>hs_sent := hs_sent s @ [r]\<rparr>)"
    using step by (auto simp: http_step_def split: http_phase.splits)
  have rec: "received (es @ [e]) = received es" using Write_done by simp
  have ask: "asked iequals doc_root (es @ [e]) = hs_sent s @ [r]" using inv ph rec by (simp add: http_invar_def asked_def)
  show ?thesis
  proof (cases "failed \<or> \<not> keep")
    case True
    then show ?thesis using s' ask by (auto simp: http_invar_def http_on_write_def)
  next
    case False
    have "\<forall>(fs, rq) \<in> set (received es). rq_keep_alive rq \<and> \<not> rq_upgrade rq"
      using inv ph False keep_alive_last [of "received es" "\<lambda>rq. rq_keep_alive rq \<and> \<not> rq_upgrade rq"] by (simp add: http_invar_def)
    then show ?thesis using False s' ask rec by (simp add: http_invar_def http_on_write_def do_read_def)
  qed
qed

interpretation http: history_invariant "http_step iequals doc_root" http_start "http_invar iequals doc_root" for iequals doc_root
  by unfold_locales (simp_all add: http_step_invar, simp add: http_invar_def http_start_def do_read_def asked_def)

text \<open>A listener that has seen a failed accept waits for nothing and accepts nothing more.\<close>

definition listener_invar :: "(setup_step \<Rightarrow> bool) \<Rightarrow> bool list \<Rightarrow> listener \<Rightarrow> bool" where
  "listener_invar ok es l \<longleftrightarrow> ls_failed l = ls_failed (listener_new ok) \<and> ls_waiting l = (True \<notin> set es)
     \<and> ls_sessions l = length (filter Not es) \<and> (ls_failed l \<noteq> None \<longrightarrow> ls_sessions l = 0)"

interpretation listener: history_invariant listener_step "start_explorer_server ok" "listener_invar ok" for ok
  by unfold_locales
    (auto simp: listener_invar_def start_explorer_server_def listener_run_def listener_new_def listener_step_def listener_on_accept_def split: if_splits)

text \<open>The requests a connection received.\<close>

definition requests_of :: "nat \<Rightarrow> ('j, 'p) server_event list \<Rightarrow> ('j, 'p) server_event list" where
  "requests_of i es = filter (\<lambda>e. case e of Request k _ _ \<Rightarrow> k = i | _ \<Rightarrow> False) es"

definition requested :: "('j, 'p) server_event list \<Rightarrow> 'j transaction \<Rightarrow> bool" where
  "requested es tx \<longleftrightarrow> (\<exists>i env body v response. Request i env (Some (verb_post, body)) \<in> set es \<and> j_parse (v_lib env) body = Inr v
     \<and> string_at (v_lib env) v ''method'' = Inr ''transfer'' \<and> admissible env v tx response)"

definition conn_invar :: "('j, 'p) server_event list \<Rightarrow> nat \<Rightarrow> rpc_connection \<Rightarrow> bool" where
  "conn_invar es i c \<longleftrightarrow> length (requests_of i es) = (if cn_io c = Awaiting then 0 else 1)
     \<and> (cn_answer c = None \<longrightarrow> cn_io c \<noteq> Writing) \<and> (cn_answer c \<noteq> None \<longrightarrow> cn_io c \<noteq> Awaiting)"

definition server_invar :: "('j, 'p) server_event list \<Rightarrow> 'j rpc_server \<Rightarrow> bool" where
  "server_invar es sv \<longleftrightarrow> (\<forall>tx \<in> set (sv_pool sv). requested es tx)
     \<and> (\<forall>i < length (sv_conns sv). conn_invar es i (sv_conns sv ! i))
     \<and> (\<forall>i \<ge> length (sv_conns sv). requests_of i es = [])"

lemma requested_mono: "requested es tx \<Longrightarrow> requested (es @ es') tx"
  unfolding requested_def set_append by blast

lemma requests_of_snoc:
  "requests_of i (es @ [e]) = requests_of i es @ (case e of Request k _ _ \<Rightarrow> if k = i then [e] else [] | _ \<Rightarrow> [])"
  by (simp add: requests_of_def split: server_event.split)

lemma conn_invar_update:
  assumes "\<forall>j < length cs. conn_invar es j (cs ! j)" and "i < length cs" and "conn_invar (es @ [e]) i c"
    and "\<And>j. j \<noteq> i \<Longrightarrow> requests_of j (es @ [e]) = requests_of j es" and "k < length (cs[i := c])"
  shows "conn_invar (es @ [e]) k (cs[i := c] ! k)"
  using assms by (cases "k = i") (auto simp: conn_invar_def)

lemma conn_invar_keep:
  assumes "conn_invar es i c" and "requests_of i (es @ [e]) = requests_of i es" and "(cn_io c' = Awaiting) = (cn_io c = Awaiting)"
    and "cn_io c' = Writing \<Longrightarrow> cn_answer c' \<noteq> None" and "cn_answer c' = cn_answer c"
  shows "conn_invar (es @ [e]) i c'"
  using assms by (auto simp: conn_invar_def)

lemma server_invar_conn:
  assumes inv: "server_invar es sv" and i: "i < length (sv_conns sv)" and c: "conn_invar (es @ [e]) i c"
    and only: "\<And>j. j \<noteq> i \<Longrightarrow> requests_of j (es @ [e]) = requests_of j es"
    and pool: "\<And>tx. tx \<in> set pool \<Longrightarrow> tx \<in> set (sv_pool sv) \<or> requested (es @ [e]) tx"
  shows "server_invar (es @ [e]) (sv \<lparr>sv_pool := pool, sv_explorer := q, sv_conns := (sv_conns sv)[i := c]\<rparr>)"
proof -
  have "requested (es @ [e]) tx" if "tx \<in> set pool" for tx
    using pool [OF that] inv requested_mono by (auto simp: server_invar_def)
  moreover have "conn_invar (es @ [e]) k ((sv_conns sv)[i := c] ! k)" if "k < length (sv_conns sv)" for k
    using conn_invar_update [OF _ i c only, of k] inv that by (simp add: server_invar_def)
  moreover have "requests_of k (es @ [e]) = []" if "length (sv_conns sv) \<le> k" for k
    using inv that i only [of k] by (auto simp: server_invar_def)
  ultimately show ?thesis by (simp add: server_invar_def)
qed

lemma request_invar:
  fixes sv :: "'j rpc_server" and env :: "('j, 'p) rpc_env"
  assumes inv: "server_invar es sv" and i: "i < length (sv_conns sv)" and io: "cn_io (sv_conns sv ! i) = Awaiting"
    and run: "read_request i env input sv = Some sv'"
  shows "server_invar (es @ [Request i env input]) sv'"
proof -
  let ?c = "sv_conns sv ! i" and ?e = "Request i env input"
  have c: "conn_invar es i ?c" using inv i by (simp add: server_invar_def)
  have none: "requests_of i es = []" "cn_answer ?c = None"
    using c io unfolding conn_invar_def by (simp, metis)
  have only: "requests_of j (es @ [?e]) = requests_of j es" if "j \<noteq> i" for j using that by (simp add: requests_of_snoc)
  show ?thesis
  proof (cases input)
    case None
    have "conn_invar (es @ [?e]) i (?c \<lparr>cn_io := Done\<rparr>)" using none by (simp add: conn_invar_def requests_of_snoc)
    from server_invar_conn [OF inv i this only, of "sv_pool sv" "sv_explorer sv"] None run show ?thesis
      by (simp add: read_request_def)
  next
    case (Some mb)
    obtain mth body where mb: "mb = (mth, body)" by (cases mb)
    then obtain r where r: "process_request env mth body (new_connection (sv_pool sv) (sv_explorer sv)) = Some r"
      "sv' = sv \<lparr>sv_pool := rp_pool r, sv_explorer := rp_explorer r, sv_conns := (sv_conns sv)[i := write_response r ?c]\<rparr>"
      using run Some by (auto simp: read_request_def split: option.splits)
    have "conn_invar (es @ [?e]) i (write_response r ?c)" using none by (simp add: conn_invar_def requests_of_snoc write_response_def)
    moreover have "tx \<in> set (sv_pool sv) \<or> requested (es @ [?e]) tx" if "tx \<in> set (rp_pool r)" for tx
    proof (cases "rp_pool r = sv_pool sv")
      case False
      then have "rp_pool r \<noteq> rp_pool (new_connection (sv_pool sv) (sv_explorer sv))" by (simp add: new_connection_def)
      from process_request_pool [OF r(1) this] obtain v tx' response where new: "mth = verb_post" "j_parse (v_lib env) body = Inr v"
        "string_at (v_lib env) v ''method'' = Inr ''transfer''" "admissible env v tx' response" "rp_pool r = sv_pool sv @ [tx']"
        by (auto simp: new_connection_def)
      have "?e \<in> set (es @ [?e])" by simp
      then have "requested (es @ [?e]) tx'" using new(1-4) Some mb unfolding requested_def by blast
      then show ?thesis using that new(5) by auto
    qed (use that in simp)
    ultimately show ?thesis using server_invar_conn [OF inv i _ only] r(2) by simp
  qed
qed

lemma accept_invar:
  assumes "server_invar es sv"
  shows "server_invar (es @ [Accepted failed]) (http_server failed sv)"
proof -
  have req: "requests_of i (es @ [Accepted failed]) = requests_of i es" for i by (simp add: requests_of_snoc)
  have "conn_invar (es @ [Accepted failed]) i ((sv_conns sv @ [connection_start]) ! i)" if "i < Suc (length (sv_conns sv))" for i
    using assms that by (cases "i < length (sv_conns sv)") (auto simp: server_invar_def conn_invar_def req nth_append connection_start_def less_Suc_eq)
  moreover have "requested (es @ [Accepted failed]) tx" if "tx \<in> set (sv_pool sv)" for tx
    using assms that requested_mono by (auto simp: server_invar_def)
  ultimately show ?thesis using assms by (auto simp: server_invar_def http_server_def conn_invar_def req)
qed

lemma drain_invar:
  assumes "server_invar es sv" and "pool_dropTransactions (sv_pool sv) n = Some p"
  shows "server_invar (es @ [Drained n]) (sv \<lparr>sv_pool := p\<rparr>)"
proof -
  have "set p \<subseteq> set (sv_pool sv)"
    using assms(2) by (auto simp: pool_dropTransactions_def erase_prefix_def split: if_splits dest: in_set_dropD)
  moreover have "requests_of i (es @ [Drained n]) = requests_of i es" for i by (simp add: requests_of_snoc)
  moreover have "requested (es @ [Drained n]) tx" if "tx \<in> set (sv_pool sv)" for tx
    using assms(1) that requested_mono by (auto simp: server_invar_def)
  ultimately show ?thesis using assms(1) unfolding server_invar_def conn_invar_def by auto
qed

lemma server_step_invar: "server_invar es sv \<Longrightarrow> server_step e sv = Some sv' \<Longrightarrow> server_invar (es @ [e]) sv'"
proof (cases e)
  case (Accepted failed)
  then show "server_invar es sv \<Longrightarrow> server_step e sv = Some sv' \<Longrightarrow> ?thesis" using accept_invar by (auto simp: server_step_def)
next
  case (Request i env input)
  then show "server_invar es sv \<Longrightarrow> server_step e sv = Some sv' \<Longrightarrow> ?thesis"
    using request_invar by (auto simp: server_step_def split: if_splits)
next
  case (Response_written i)
  assume inv: "server_invar es sv" and "server_step e sv = Some sv'"
  then have i: "i < length (sv_conns sv)" "cn_io (sv_conns sv ! i) = Writing"
    and sv': "sv' = sv \<lparr>sv_conns := (sv_conns sv)[i := response_written (sv_conns sv ! i)]\<rparr>"
    using Response_written by (auto simp: server_step_def split: if_splits)
  have req: "requests_of k (es @ [e]) = requests_of k es" for k using Response_written by (simp add: requests_of_snoc)
  have "conn_invar (es @ [e]) i (response_written (sv_conns sv ! i))"
    using inv i by (intro conn_invar_keep [of es i "sv_conns sv ! i"]) (auto simp: server_invar_def req response_written_def)
  from server_invar_conn [OF inv i(1) this req, of "sv_pool sv" "sv_explorer sv"] sv' show ?thesis by simp
next
  case (Deadline i)
  assume inv: "server_invar es sv" and "server_step e sv = Some sv'"
  then have i: "i < length (sv_conns sv)" and sv': "sv' = sv \<lparr>sv_conns := (sv_conns sv)[i := check_deadline (sv_conns sv ! i)]\<rparr>"
    using Deadline by (auto simp: server_step_def split: if_splits)
  have req: "requests_of k (es @ [e]) = requests_of k es" for k using Deadline by (simp add: requests_of_snoc)
  have "conn_invar es i (sv_conns sv ! i)" using inv i by (simp add: server_invar_def)
  then have "conn_invar (es @ [e]) i (check_deadline (sv_conns sv ! i))" by (auto simp: conn_invar_def req check_deadline_def)
  from server_invar_conn [OF inv i this req, of "sv_pool sv" "sv_explorer sv"] sv' show ?thesis by simp
next
  case (Drained n)
  then show "server_invar es sv \<Longrightarrow> server_step e sv = Some sv' \<Longrightarrow> ?thesis" using drain_invar by (auto simp: server_step_def)
qed

interpretation server: history_invariant server_step server_start server_invar
  by unfold_locales (simp_all add: server_step_invar, simp add: server_invar_def server_start_def requests_of_def)

lemma start_server_retries:
  "server_pass hw (bound i) (loop_ok i) = Retried \<Longrightarrow> start_server hw bound loop_ok i = start_server hw bound loop_ok (Suc i)"
  by (subst start_server.simps) simp

lemma start_server_Some:
  "start_server hw bound loop_ok i = Some r \<Longrightarrow> \<exists>k \<ge> i. server_pass hw (bound k) (loop_ok k) = r \<and> r \<noteq> Retried"
proof (erule start_server.raw_induct [rotated], goal_cases)
  case (1 f hw bound loop_ok i r)
  then show ?case
    by (cases "server_pass hw (bound i) (loop_ok i)") (fastforce dest: Suc_leD)+
qed

lemma start_server_reaches:
  assumes "server_pass hw (bound k) (loop_ok k) \<noteq> Retried" and "\<And>j. i \<le> j \<Longrightarrow> j < k \<Longrightarrow> server_pass hw (bound j) (loop_ok j) = Retried" and "i \<le> k"
  shows "start_server hw bound loop_ok i = Some (server_pass hw (bound k) (loop_ok k))"
  using assms(3,2)
proof (induction "k - i" arbitrary: i)
  case 0
  then have "i = k" by simp
  then show ?case using assms(1) by (subst start_server.simps) (simp split: server_end.split)
next
  case (Suc n)
  then have "start_server hw bound loop_ok i = start_server hw bound loop_ok (Suc i)" by (intro start_server_retries) simp
  then show ?case using Suc by simp
qed

lemma server_pass_ends: "server_pass hw b l \<noteq> Retried \<longleftrightarrow> 2 \<le> hw \<and> b \<and> (l \<or> 4 \<le> hw)"
proof -
  have "threads hw - 1 < 0 \<longleftrightarrow> \<not> 2 \<le> hw" "0 < threads hw - 1 \<longleftrightarrow> 4 \<le> hw" by (auto simp: threads_def)
  then show ?thesis by (simp add: server_pass_def)
qed

section \<open>Properties\<close>

text \<open>
  C4. In every run of the RPC server, with any number of connections, requests in any order,
  deadlines passing and the shard factory draining the pool, every transaction in the pool is the
  transaction of a valid transfer that some connection received, and every connection handles at
  most one request.
\<close>

theorem server_admits_valid_transfers:
  assumes "run_events server_step es server_start = Some sv"
  shows "(\<forall>tx \<in> set (sv_pool sv). requested es tx) \<and> length (requests_of i es) \<le> 1"
proof -
  have "server_invar es sv" by (rule server.run [OF assms])
  then show ?thesis by (cases "i < length (sv_conns sv)") (auto simp: server_invar_def conn_invar_def)
qed

theorem server_admits_valid_transfers_witness:
  "\<exists>sv tx. run_events server_step [Accepted False, Request 0 rpc_example (Some (verb_post, ''good''))] server_start = Some sv
     \<and> sv_pool sv = [tx] \<and> requested [Accepted False, Request 0 rpc_example (Some (verb_post, ''good''))] tx"
proof -
  let ?es = "[Accepted False, Request 0 rpc_example (Some (verb_post, ''good''))]"
  obtain tx response where adm: "admissible rpc_example (request_example (JNum 1)) tx response" using example_admissible by blast
  obtain r where r: "process_request rpc_example verb_post ''good'' (new_connection [] []) = Some r" "rp_pool r = [tx]"
    using process_instruction_transfer [OF example_parses(3) adm, of "new_connection [] []"] example_parses(1,4)
    by (auto simp: process_request_def new_connection_def submitted_def create_success_response_def)
  then obtain sv where sv: "run_events server_step ?es server_start = Some sv" "sv_pool sv = [tx]"
    by (simp add: server_step_def http_server_def server_start_def connection_start_def read_request_def)
  then show ?thesis using server_admits_valid_transfers [OF sv(1)] by auto
qed

text \<open>
  C33. An HTTP session of the explorer answers its requests in order, one at a time: the responses
  sent so far are the responses to the requests read so far, except that the last one may be
  missing, and the session reads again only when none is missing and every request so far asked
  to keep the connection alive.
\<close>

theorem http_session_answers_in_order:
  assumes "run_events (http_step iequals doc_root) es http_start = Some s"
  shows "(\<exists>pending. asked iequals doc_root es = hs_sent s @ pending \<and> length pending \<le> 1)
    \<and> (hs_phase s = Reading \<longrightarrow> asked iequals doc_root es = hs_sent s
        \<and> (\<forall>(fs, rq) \<in> set (received es). rq_keep_alive rq \<and> \<not> rq_upgrade rq))"
  using http.run [OF assms] by (auto simp: http_invar_def split: http_phase.splits)

theorem http_session_answers_in_order_witness:
  "\<exists>s. run_events (http_step (=) ''.'') [Read_done (\<lambda>_. NoSuchFile) (Received \<lparr>rq_method = method_other, rq_target = ''/'', rq_keep_alive = True, rq_upgrade = False\<rparr>),
      Write_done False] http_start = Some s \<and> hs_sent s = [html_response 400 ''Unknown HTTP-method'']"
proof -
  let ?es = "[Read_done (\<lambda>_. NoSuchFile) (Received \<lparr>rq_method = method_other, rq_target = ''/'', rq_keep_alive = True, rq_upgrade = False\<rparr>), Write_done False]"
  obtain s where s: "run_events (http_step (=) ''.'') ?es http_start = Some s" "hs_phase s = Reading"
    by (simp add: http_step_def http_start_def do_read_def http_on_read_def http_on_write_def)
  then show ?thesis using http_session_answers_in_order [OF s(1)] by (simp add: asked_def handle_request_def)
qed


text \<open>
  One failed accept ends the explorer: the listener starts no further accept, so from then on
  no connection is ever accepted; and a listener whose set-up failed never accepts one.
\<close>

lemma failed_accept_ends_explorer:
  assumes "run_events listener_step es (start_explorer_server ok) = Some l" and "True \<in> set es"
  shows "listener_step failed l = None \<and> ls_sessions l = length (filter Not es)
    \<and> (\<forall>st. \<not> ok st \<longrightarrow> ls_sessions l = 0)"
proof -
  have inv: "listener_invar ok es l" by (rule listener.run [OF assms(1)])
  have "ls_failed l \<noteq> None" if "\<not> ok st" for st
    using inv that by (cases st) (auto simp: listener_invar_def listener_new_def)
  then show ?thesis using inv assms(2) by (auto simp: listener_invar_def listener_step_def)
qed

end
