(* ===== verification/Filter_Chain.thy ===== *)
theory Filter_Chain
  imports Rpc
begin

text \<open>
  The objects of the filter chain of \<open>server/RpcFilterChain.h\<close> with their pointers. \<open>Rpc\<close> treats a chain
  as the list of the filters behind the base object; here the objects are cells of a heap, \<open>add\<close> and
  \<open>filter\<close> follow the \<open>next\<close> pointers, and the destructor frees the cells. Access to a freed cell and a
  walk along a cyclic chain give \<open>None\<close>.
\<close>

section \<open>Definitions\<close>

type_synonym chain_addr = nat

text \<open>\<open>ch_handler\<close> is the overriding \<open>filter\<close> of the object, or \<open>None\<close> for an object of the base class.\<close>

record 'f chain_node =
  ch_next :: "chain_addr option"
  ch_end :: "chain_addr option"
  ch_handler :: "'f option"

type_synonym 'f chain_heap = "chain_addr \<rightharpoonup> 'f chain_node"

definition RpcFilterChain_new :: "'f option \<Rightarrow> 'f chain_node" where
  "RpcFilterChain_new f = \<lparr>ch_next = None, ch_end = None, ch_handler = f\<rparr>"

partial_function (option) add_filter :: "chain_addr \<Rightarrow> chain_addr \<Rightarrow> 'f chain_heap \<Rightarrow> 'f chain_heap option" where
  "add_filter this n h =
     (case h this of
        None \<Rightarrow> None
      | Some nd \<Rightarrow>
          (case ch_next nd of
             Some a \<Rightarrow> add_filter a n h
           | None \<Rightarrow> Some (h(this \<mapsto> nd \<lparr>ch_next := Some n, ch_end := Some n\<rparr>))))"

definition setNext :: "chain_addr \<Rightarrow> chain_addr \<Rightarrow> 'f chain_heap \<Rightarrow> 'f chain_heap option" where
  "setNext this n h = (case h this of None \<Rightarrow> None | Some nd \<Rightarrow> Some (h(this \<mapsto> nd \<lparr>ch_next := Some n\<rparr>)))"

text \<open>The virtual call: the filter that handles a request, or none when the chain ends.\<close>

partial_function (option) virtual_filter :: "chain_addr \<Rightarrow> 'f chain_heap \<Rightarrow> 'f option option" where
  "virtual_filter this h =
     (case h this of
        None \<Rightarrow> None
      | Some nd \<Rightarrow>
          (case ch_handler nd of
             Some f \<Rightarrow> Some (Some f)
           | None \<Rightarrow> (case ch_next nd of Some a \<Rightarrow> virtual_filter a h | None \<Rightarrow> Some None)))"

text \<open>
  \<open>deleteNext\<close>; \<open>delete\<close> runs the destructor of the object, which is \<open>deleteNext\<close> again, and frees it. Both
  conditions of the source read \<open>next\<close>, the second after the recursive call.
\<close>

partial_function (option) deleteNext :: "chain_addr \<Rightarrow> 'f chain_heap \<Rightarrow> 'f chain_heap option" where
  "deleteNext this h =
     (case h this of
        None \<Rightarrow> None
      | Some nd \<Rightarrow>
          Option.bind
            (case ch_next nd of
               None \<Rightarrow> Some h
             | Some a \<Rightarrow> if Some a \<noteq> ch_end nd then deleteNext a h else Some h)
            (\<lambda>h1. case h1 this of
               None \<Rightarrow> None
             | Some nd1 \<Rightarrow>
                 (case ch_next nd1 of
                    None \<Rightarrow> Some h1
                  | Some b \<Rightarrow>
                      Option.bind (deleteNext b h1) (\<lambda>h2.
                        let h3 = h2(b := None) in
                        case h3 this of None \<Rightarrow> None | Some nd3 \<Rightarrow> Some (h3(this \<mapsto> nd3 \<lparr>ch_next := None\<rparr>))))))"

definition add_all :: "chain_addr \<Rightarrow> chain_addr list \<Rightarrow> 'f chain_heap \<Rightarrow> 'f chain_heap option" where
  "add_all root ns h = fold (\<lambda>n r. Option.bind r (add_filter root n)) ns (Some h)"

section \<open>Lemmas\<close>

text \<open>The objects of a chain, in order.\<close>

fun chained :: "'f chain_heap \<Rightarrow> chain_addr option \<Rightarrow> chain_addr list \<Rightarrow> bool" where
  "chained h p [] \<longleftrightarrow> p = None"
| "chained h p (a # as) \<longleftrightarrow> p = Some a \<and> (\<exists>nd. h a = Some nd \<and> chained h (ch_next nd) as)"

lemma chained_cong: "chained h p as \<Longrightarrow> (\<And>a. a \<in> set as \<Longrightarrow> h' a = h a) \<Longrightarrow> chained h' p as"
  by (induction as arbitrary: p) auto

definition same_handlers :: "'f chain_heap \<Rightarrow> 'f chain_heap \<Rightarrow> bool" where
  "same_handlers h h' \<longleftrightarrow> (\<forall>x. map_option ch_handler (h' x) = map_option ch_handler (h x))"

lemma add_filter_chained:
  assumes "chained h (Some p) (p # as)" and "distinct (p # as @ [n])" and "h n = Some (RpcFilterChain_new f)"
  shows "\<exists>h'. add_filter p n h = Some h' \<and> chained h' (Some p) (p # as @ [n])
    \<and> (\<forall>x. x \<notin> set (p # as) \<longrightarrow> h' x = h x) \<and> same_handlers h h'"
  using assms
proof (induction as arbitrary: p)
  case Nil
  then obtain nd where nd: "h p = Some nd" "ch_next nd = None" by auto
  then show ?case using Nil.prems(2,3) by (subst add_filter.simps) (auto simp: RpcFilterChain_new_def same_handlers_def)
next
  case (Cons a as)
  then obtain nd where nd: "h p = Some nd" "ch_next nd = Some a" by auto
  have "chained h (Some a) (a # as)" "distinct (a # as @ [n])" using Cons.prems by auto
  from Cons.IH [OF this Cons.prems(3)] obtain h' where h': "add_filter a n h = Some h'" "chained h' (Some a) (a # as @ [n])"
    "\<forall>x. x \<notin> set (a # as) \<longrightarrow> h' x = h x" "same_handlers h h'" by blast
  have "p \<notin> set (a # as)" using Cons.prems(2) by simp
  then have "h' p = Some nd" using h'(3) nd(1) by simp
  then show ?case using h' nd by (subst add_filter.simps) auto
qed

text \<open>The destructor frees exactly the objects behind the one it is called on.\<close>

lemma deleteNext_frees:
  assumes "chained h (Some p) (p # as)" and "distinct (p # as)" and "h p = Some nd"
  shows "deleteNext p h = Some (\<lambda>x. if x \<in> set as then None else if x = p then Some (nd \<lparr>ch_next := None\<rparr>) else h x)"
  using assms
proof (induction as arbitrary: p h nd)
  case Nil
  then have "nd \<lparr>ch_next := None\<rparr> = nd" by (cases nd) simp
  then show ?case using Nil by (subst deleteNext.simps) (auto simp: fun_eq_iff)
next
  case (Cons a as)
  have nx: "ch_next nd = Some a" using Cons.prems by auto
  obtain na where na: "h a = Some na" using Cons.prems(1) by auto
  have ln: "chained h (Some a) (a # as)" "distinct (a # as)" using Cons.prems by auto
  let ?h1 = "\<lambda>x. if x \<in> set as then None else if x = a then Some (na \<lparr>ch_next := None\<rparr>) else h x"
  have d1: "deleteNext a h = Some ?h1" by (rule Cons.IH [OF ln na])
  have d2: "deleteNext a ?h1 = Some ?h1" using ln(2) by (subst deleteNext.simps) simp
  have pa: "?h1 p = Some nd" "a \<noteq> p" using Cons.prems by auto
  have fin: "(?h1(a := None))(p \<mapsto> nd \<lparr>ch_next := None\<rparr>)
      = (\<lambda>x. if x \<in> set (a # as) then None else if x = p then Some (nd \<lparr>ch_next := None\<rparr>) else h x)"
    using Cons.prems(2) by (auto simp: fun_eq_iff)
  have "(if Some a \<noteq> ch_end nd then deleteNext a h else Some h) = Some (if Some a \<noteq> ch_end nd then ?h1 else h)"
    using d1 by simp
  moreover have "deleteNext a (if Some a \<noteq> ch_end nd then ?h1 else h) = Some ?h1" using d1 d2 by simp
  moreover have "(if Some a \<noteq> ch_end nd then ?h1 else h) p = Some nd" using pa(1) Cons.prems(3) by simp
  ultimately have "deleteNext p h = Some ((?h1(a := None))(p \<mapsto> nd \<lparr>ch_next := None\<rparr>))"
    using Cons.prems(3) nx pa by (subst deleteNext.simps) (simp add: Let_def)
  then show ?case unfolding fin .
qed

lemma virtual_filter_first:
  assumes "chained h (Some p) (p # as)" and "map_option ch_handler (h p) = Some None"
    and "map (\<lambda>a. map_option ch_handler (h a)) as = map (\<lambda>f. Some (Some f)) fs"
  shows "virtual_filter p h = Some (case fs of [] \<Rightarrow> None | f # _ \<Rightarrow> Some f)"
proof (cases as)
  case Nil
  then show ?thesis using assms by (subst virtual_filter.simps) auto
next
  case (Cons a rest)
  then obtain nd na where nd: "h p = Some nd" "ch_next nd = Some a" "h a = Some na" using assms(1) by auto
  then obtain f fs' where "ch_handler nd = None" "fs = f # fs'" "ch_handler na = Some f" using assms Cons by (cases fs) auto
  then show ?thesis using nd by (subst virtual_filter.simps, subst virtual_filter.simps) auto
qed

lemma add_all_snoc: "add_all root (ns @ [n]) h = Option.bind (add_all root ns h) (add_filter root n)"
  by (simp add: add_all_def)

lemma add_all_chained:
  assumes "h root = Some (RpcFilterChain_new None)" and "distinct (root # ns)"
    and "\<And>n. n \<in> set ns \<Longrightarrow> \<exists>f. h n = Some (RpcFilterChain_new f)"
  shows "\<exists>h'. add_all root ns h = Some h' \<and> chained h' (Some root) (root # ns)
    \<and> (\<forall>x. x \<notin> set (root # ns) \<longrightarrow> h' x = h x) \<and> same_handlers h h'"
  using assms
proof (induction ns rule: rev_induct)
  case Nil
  then show ?case by (simp add: add_all_def RpcFilterChain_new_def same_handlers_def)
next
  case (snoc n ns)
  then obtain h1 where h1: "add_all root ns h = Some h1" "chained h1 (Some root) (root # ns)"
    "\<forall>x. x \<notin> set (root # ns) \<longrightarrow> h1 x = h x" "same_handlers h h1" by fastforce
  obtain f where "h n = Some (RpcFilterChain_new f)" using snoc.prems(3) [of n] by auto
  then have n: "h1 n = Some (RpcFilterChain_new f)" using h1(3) snoc.prems(2) by simp
  have "distinct (root # ns @ [n])" using snoc.prems(2) by simp
  from add_filter_chained [OF h1(2) this n] h1 show ?case by (auto simp: add_all_snoc same_handlers_def)
qed

section \<open>Properties\<close>

text \<open>
  C32. A filter chain built by \<open>add\<close> calls its filters as the list of filters does, and destroying
  the base object frees every filter exactly once: no access to a freed object happens on the way,
  afterwards exactly the filters are gone from the heap, and no other object has changed. It does
  not matter which of the two calls in \<open>deleteNext\<close> frees an object.
\<close>

theorem filter_chain_freed_once:
  assumes "h root = Some (RpcFilterChain_new None)" and "distinct (root # ns)"
    and "map h ns = map (\<lambda>f. Some (RpcFilterChain_new (Some f))) fs"
  shows "\<exists>h1 h2 g. add_all root ns h = Some h1 \<and> virtual_filter root h1 = Some g
    \<and> (case g of None \<Rightarrow> act_return () | Some f \<Rightarrow> f v) = chain_filter (fold (\<lambda>f c. chain_add c f) fs []) v
    \<and> deleteNext root h1 = Some h2 \<and> dom h2 = dom h - set ns \<and> (\<forall>x. x \<notin> set (root # ns) \<longrightarrow> h2 x = h x)"
proof -
  have new: "\<exists>f. h n = Some (RpcFilterChain_new f)" if n: "n \<in> set ns" for n
  proof -
    have "h n \<in> set (map h ns)" using n by simp
    then show ?thesis unfolding assms(3) by auto
  qed
  obtain h1 where h1: "add_all root ns h = Some h1" "chained h1 (Some root) (root # ns)"
    "\<forall>x. x \<notin> set (root # ns) \<longrightarrow> h1 x = h x" "same_handlers h h1"
    using add_all_chained [of h root ns] assms(1,2) new by blast
  have "map (\<lambda>a. map_option ch_handler (h1 a)) ns = map (map_option ch_handler) (map h ns)"
    using h1(4) by (simp add: same_handlers_def)
  also have "\<dots> = map (\<lambda>f. Some (Some f)) fs" unfolding assms(3) by (simp add: RpcFilterChain_new_def)
  finally have hs: "map (\<lambda>a. map_option ch_handler (h1 a)) ns = map (\<lambda>f. Some (Some f)) fs" .
  have "map_option ch_handler (h1 root) = map_option ch_handler (h root)" using h1(4) unfolding same_handlers_def by blast
  then have "map_option ch_handler (h1 root) = Some None" using assms(1) by (simp add: RpcFilterChain_new_def)
  then have "virtual_filter root h1 = Some (case fs of [] \<Rightarrow> None | f # _ \<Rightarrow> Some f)"
    by (rule virtual_filter_first [OF h1(2) _ hs])
  moreover have "fold (\<lambda>f c. chain_add c f) fs c = c @ fs" for c by (induction fs arbitrary: c) (simp_all add: chain_add_def)
  moreover obtain nd where nd: "h1 root = Some nd" using h1(2) by auto
  have del: "deleteNext root h1 = Some (\<lambda>x. if x \<in> set ns then None else if x = root then Some (nd \<lparr>ch_next := None\<rparr>) else h1 x)"
    by (rule deleteNext_frees [OF h1(2) assms(2) nd])
  moreover have "dom (\<lambda>x. if x \<in> set ns then None else if x = root then Some (nd \<lparr>ch_next := None\<rparr>) else h1 x) = dom h - set ns"
    using h1(3) assms(1,2) by (auto simp: dom_def split: if_splits)
  ultimately show ?thesis using h1(1,3) by (auto simp: chain_filter_def split: list.split)
qed

theorem filter_chain_freed_once_witness:
  "\<exists>h1 h2. add_all (0 :: nat) [1] [0 \<mapsto> RpcFilterChain_new None, 1 \<mapsto> RpcFilterChain_new (Some (pool_filter rpc_example))] = Some h1
     \<and> deleteNext 0 h1 = Some h2 \<and> dom h2 = {0}"
proof -
  let ?h = "[0 :: nat \<mapsto> RpcFilterChain_new None, 1 \<mapsto> RpcFilterChain_new (Some (pool_filter rpc_example))]"
  have "?h 0 = Some (RpcFilterChain_new None)" "distinct [0, 1 :: nat]"
    "map ?h [1] = map (\<lambda>f. Some (RpcFilterChain_new (Some f))) [pool_filter rpc_example]" by simp_all
  from filter_chain_freed_once [OF this] show ?thesis by fastforce
qed

end
