(* ===== verification/Locked.thy ===== *)
theory Locked
  imports Event_Machine Containers
begin

text \<open>
  The locks of the containers in \<open>datastructures/containers\<close>. A method of one container locks its mutex,
  works and unlocks; a method of two containers (\<open>operator=\<close>, \<open>swap\<close>, \<open>splice\<close>, \<open>merge\<close>) locks its own
  mutex and then the one of its argument, and the guards unlock in the reverse order. Threads run
  such methods one after the other and interleave at every lock, piece of work and unlock.
\<close>

section \<open>Definitions\<close>

datatype 'a micro = Acquire nat | Release nat | Work "(nat \<Rightarrow> 'a list) \<Rightarrow> nat \<Rightarrow> 'a list"

text \<open>The calls, by the containers they are about and the change they make to their storage.\<close>

datatype 'a call =
  Unary nat "'a list \<Rightarrow> 'a list"
| Binary nat nat "'a list \<Rightarrow> 'a list \<Rightarrow> 'a list \<times> 'a list"

definition unary_work :: "nat \<Rightarrow> ('a list \<Rightarrow> 'a list) \<Rightarrow> (nat \<Rightarrow> 'a list) \<Rightarrow> nat \<Rightarrow> 'a list" where
  "unary_work c f st = st(c := f (st c))"

definition binary_work :: "nat \<Rightarrow> nat \<Rightarrow> ('a list \<Rightarrow> 'a list \<Rightarrow> 'a list \<times> 'a list) \<Rightarrow> (nat \<Rightarrow> 'a list) \<Rightarrow> nat \<Rightarrow> 'a list" where
  "binary_work c x f st = (let (s1, s2) = f (st c) (st x) in (st(x := s2))(c := s1))"

fun locked_body :: "'a call \<Rightarrow> 'a micro list" where
  "locked_body (Unary c f) = [Acquire c, Work (unary_work c f), Release c]"
| "locked_body (Binary c x f) = [Acquire c, Acquire x, Work (binary_work c x f), Release x, Release c]"

record 'a lock_state =
  lk_owner :: "nat \<rightharpoonup> nat"
  lk_store :: "nat \<Rightarrow> 'a list"
  lk_threads :: "'a micro list list"

definition lock_start :: "(nat \<Rightarrow> 'a list) \<Rightarrow> 'a call list list \<Rightarrow> 'a lock_state" where
  "lock_start st progs = \<lparr>lk_owner = Map.empty, lk_store = st, lk_threads = map (\<lambda>cs. concat (map locked_body cs)) progs\<rparr>"

text \<open>
  A step of thread \<open>t\<close>. A mutex that is taken, also by the thread itself, is waited for: \<open>std::mutex\<close> is
  not recursive.
\<close>

definition lock_step :: "nat \<Rightarrow> 'a lock_state \<Rightarrow> 'a lock_state option" where
  "lock_step t s =
     (if t < length (lk_threads s)
      then case lk_threads s ! t of
             [] \<Rightarrow> None
           | Acquire m # r \<Rightarrow>
               if lk_owner s m = None
               then Some (s \<lparr>lk_owner := (lk_owner s)(m \<mapsto> t), lk_threads := (lk_threads s)[t := r]\<rparr>) else None
           | Release m # r \<Rightarrow> Some (s \<lparr>lk_owner := (lk_owner s)(m := None), lk_threads := (lk_threads s)[t := r]\<rparr>)
           | Work f # r \<Rightarrow> Some (s \<lparr>lk_store := f (lk_store s), lk_threads := (lk_threads s)[t := r]\<rparr>)
      else None)"

definition finished :: "'a lock_state \<Rightarrow> bool" where
  "finished s \<longleftrightarrow> (\<forall>p \<in> set (lk_threads s). p = [])"

definition deadlocked :: "'a lock_state \<Rightarrow> bool" where
  "deadlocked s \<longleftrightarrow> \<not> finished s \<and> (\<forall>t < length (lk_threads s). lock_step t s = None)"

section \<open>Lemmas\<close>

text \<open>
  A program that holds the mutexes of a stack locks only greater ones, unlocks in reverse order and
  ends with none.
\<close>

fun ordered :: "nat list \<Rightarrow> 'a micro list \<Rightarrow> bool" where
  "ordered H [] \<longleftrightarrow> H = []"
| "ordered H (Acquire m # r) \<longleftrightarrow> (\<forall>h \<in> set H. h < m) \<and> ordered (m # H) r"
| "ordered H (Release m # r) \<longleftrightarrow> H \<noteq> [] \<and> hd H = m \<and> ordered (tl H) r"
| "ordered H (Work f # r) \<longleftrightarrow> ordered H r"

definition in_order :: "'a call \<Rightarrow> bool" where
  "in_order c \<longleftrightarrow> (case c of Unary _ _ \<Rightarrow> True | Binary c x _ \<Rightarrow> c < x)"

definition disciplined :: "'a call list list \<Rightarrow> bool" where
  "disciplined progs \<longleftrightarrow> (\<forall>cs \<in> set progs. \<forall>c \<in> set cs. in_order c)"

lemma ordered_append: "ordered H p \<Longrightarrow> ordered [] q \<Longrightarrow> ordered H (p @ q)"
  by (induction H p rule: ordered.induct) auto

lemma ordered_body: "in_order c \<Longrightarrow> ordered [] (locked_body c)"
  by (cases c) (auto simp: in_order_def)

lemma ordered_calls: "(\<And>c. c \<in> set cs \<Longrightarrow> in_order c) \<Longrightarrow> ordered [] (concat (map locked_body cs))"
  by (induction cs) (simp_all add: ordered_append ordered_body)

text \<open>Every thread owns exactly the mutexes on its stack.\<close>

definition holds :: "'a lock_state \<Rightarrow> nat \<Rightarrow> nat list \<Rightarrow> bool" where
  "holds s t H \<longleftrightarrow> set H = {m. lk_owner s m = Some t} \<and> distinct H \<and> ordered H (lk_threads s ! t)"

definition lock_invar :: "nat list \<Rightarrow> 'a lock_state \<Rightarrow> bool" where
  "lock_invar es s \<longleftrightarrow> (\<forall>t < length (lk_threads s). \<exists>H. holds s t H) \<and> (\<forall>m t. lk_owner s m = Some t \<longrightarrow> t < length (lk_threads s))"

lemma holds_other:
  assumes "holds s u H" and "u \<noteq> t" and "\<And>m. lk_owner s' m = Some u \<longleftrightarrow> lk_owner s m = Some u"
    and "lk_threads s' = (lk_threads s)[t := r]"
  shows "holds s' u H"
  using assms by (simp add: holds_def)

lemma lock_step_invar:
  assumes inv: "lock_invar es s" and step: "lock_step t s = Some s'"
  shows "lock_invar (es @ [t]) s'"
proof -
  have t: "t < length (lk_threads s)" using step by (auto simp: lock_step_def split: if_splits)
  then obtain H where H: "holds s t H" using inv by (auto simp: lock_invar_def)
  obtain op r where p: "lk_threads s ! t = op # r" using step t by (auto simp: lock_step_def split: list.splits)
  have threads: "lk_threads s' = (lk_threads s)[t := r]" using step t p by (auto simp: lock_step_def split: micro.splits if_splits)
  have hd: "H \<noteq> [] \<Longrightarrow> lk_owner s (hd H) = Some t" using H hd_in_set [of H] by (auto simp: holds_def)
  have own: "lk_owner s' m = Some u \<longleftrightarrow> lk_owner s m = Some u" if "u \<noteq> t" for m u
    using step t p that H hd by (auto simp: lock_step_def holds_def split: micro.splits if_splits)
  have "\<exists>H'. holds s' t H'"
  proof (cases op)
    case (Acquire m)
    then have "holds s' t (m # H)" using step t p H by (auto simp: lock_step_def holds_def split: if_splits)
    then show ?thesis by blast
  next
    case (Release m)
    then obtain H' where H': "H = m # H'" using H p by (cases H) (auto simp: holds_def)
    then have "holds s' t H'" using step t p H Release by (auto simp: lock_step_def holds_def split: if_splits)
    then show ?thesis by blast
  next
    case (Work f)
    then have "s' = s \<lparr>lk_store := f (lk_store s), lk_threads := (lk_threads s)[t := r]\<rparr>" using step t p by (simp add: lock_step_def)
    then have "holds s' t H" using p H t Work by (simp add: holds_def)
    then show ?thesis by blast
  qed
  moreover have "\<exists>H'. holds s' u H'" if u: "u < length (lk_threads s')" "u \<noteq> t" for u
  proof -
    obtain H' where "holds s u H'" using inv u(1) threads by (auto simp: lock_invar_def)
    from holds_other [OF this u(2) own [OF u(2)] threads] show ?thesis by blast
  qed
  moreover have "u < length (lk_threads s')" if "lk_owner s' m = Some u" for m u
    using that inv threads own [of u m] t by (cases "u = t") (auto simp: lock_invar_def)
  ultimately show ?thesis unfolding lock_invar_def by blast
qed

lemma lock_start_invar:
  assumes "disciplined progs"
  shows "lock_invar [] (lock_start st progs)"
proof -
  have "holds (lock_start st progs) t []" if "t < length progs" for t
  proof -
    have "\<forall>c \<in> set (progs ! t). in_order c" using assms nth_mem [OF that] by (auto simp: disciplined_def)
    then show ?thesis using ordered_calls [of "progs ! t"] that by (simp add: holds_def lock_start_def)
  qed
  then show ?thesis by (auto simp: lock_invar_def lock_start_def)
qed

interpretation locks: history_invariant lock_step "lock_start st progs" "\<lambda>es s. disciplined progs \<longrightarrow> lock_invar es s" for st progs
  using lock_start_invar lock_step_invar by unfold_locales blast+

text \<open>A thread that cannot step waits for a mutex greater than all it holds, which another thread owns.\<close>

lemma blocked_waits:
  assumes "holds s t H" and "t < length (lk_threads s)" and "lk_threads s ! t \<noteq> []" and "lock_step t s = None"
  shows "\<exists>m u r. lk_threads s ! t = Acquire m # r \<and> lk_owner s m = Some u \<and> (\<forall>h \<in> set H. h < m)"
  using assms by (cases "lk_threads s ! t") (auto simp: lock_step_def holds_def split: micro.splits if_splits)

lemma invar_not_deadlocked:
  assumes inv: "lock_invar es s"
  shows "\<not> deadlocked s"
proof
  assume dead: "deadlocked s"
  let ?W = "{m. \<exists>t r. t < length (lk_threads s) \<and> lk_threads s ! t = Acquire m # r}"
  have fin: "finite ?W"
  proof (rule finite_subset)
    show "?W \<subseteq> (\<lambda>t. case lk_threads s ! t of Acquire m # r \<Rightarrow> m | _ \<Rightarrow> 0) ` {..<length (lk_threads s)}"
    proof clarify
      fix m t r
      assume "t < length (lk_threads s)" and "lk_threads s ! t = Acquire m # r"
      then show "m \<in> (\<lambda>t. case lk_threads s ! t of Acquire m # r \<Rightarrow> m | _ \<Rightarrow> 0) ` {..<length (lk_threads s)}"
        by (intro image_eqI [of _ _ t]) simp_all
    qed
  qed simp
  have wait: "\<exists>m u r. lk_threads s ! t = Acquire m # r \<and> lk_owner s m = Some u \<and> (\<forall>h. lk_owner s h = Some t \<longrightarrow> h < m)"
    if t: "t < length (lk_threads s)" "lk_threads s ! t \<noteq> []" for t
  proof -
    obtain H where H: "holds s t H" using inv t(1) by (auto simp: lock_invar_def)
    then show ?thesis using blocked_waits [OF H t] dead t(1) by (auto simp: deadlocked_def holds_def)
  qed
  obtain t where "t < length (lk_threads s)" "lk_threads s ! t \<noteq> []"
    using dead by (auto simp: deadlocked_def finished_def in_set_conv_nth)
  from wait [OF this] this have ne: "?W \<noteq> {}" by blast
  obtain t r where t: "t < length (lk_threads s)" "lk_threads s ! t = Acquire (Max ?W) # r" using Max_in [OF fin ne] by blast
  then obtain u where u: "lk_owner s (Max ?W) = Some u" using wait [OF t(1)] by auto
  then have ul: "u < length (lk_threads s)" using inv by (auto simp: lock_invar_def)
  obtain H where H: "holds s u H" using inv ul by (auto simp: lock_invar_def)
  then have "H \<noteq> []" using u by (auto simp: holds_def)
  then have "lk_threads s ! u \<noteq> []" using H by (auto simp: holds_def)
  then obtain m r' where m: "lk_threads s ! u = Acquire m # r'" "Max ?W < m" using wait [OF ul] u by blast
  then have "m \<in> ?W" using ul by blast
  then show False using Max_ge [OF fin] m(2) by fastforce
qed

section \<open>Properties\<close>

text \<open>
  C31. Threads that use the containers one at a time, or two at a time in a fixed order, never
  deadlock: in every state that is reached, either all calls are finished or some thread can go on.
\<close>

theorem ordered_locking_never_deadlocks:
  assumes "disciplined progs" and "run_events lock_step es (lock_start st progs) = Some s"
  shows "finished s \<or> (\<exists>t s'. lock_step t s = Some s')"
  using invar_not_deadlocked locks.run [OF assms(2)] assms(1) by (auto simp: deadlocked_def)

theorem ordered_locking_never_deadlocks_witness:
  "\<exists>s. run_events lock_step [0, 1, 1, 1] (lock_start (\<lambda>_. [7 :: nat])
       [[Binary 0 1 container_swap], [Unary 2 (\<lambda>xs. emplace_back xs 5), Unary 0 (\<lambda>xs. emplace_back xs 5)]]) = Some s
     \<and> lock_step 1 s = None \<and> (finished s \<or> (\<exists>t s'. lock_step t s = Some s'))"
proof -
  let ?progs = "[[Binary 0 1 container_swap], [Unary 2 (\<lambda>xs. emplace_back xs 5), Unary 0 (\<lambda>xs. emplace_back xs 5)]] :: nat call list list"
  obtain s where s: "run_events lock_step [0, 1, 1, 1] (lock_start (\<lambda>_. [7]) ?progs) = Some s" "lock_step 1 s = None"
    by (simp add: lock_step_def lock_start_def)
  moreover have "disciplined ?progs" by (simp add: disciplined_def in_order_def)
  ultimately show ?thesis using ordered_locking_never_deadlocks [of ?progs _ "\<lambda>_. [7]" s] by blast
qed

text \<open>
  Two threads that assign two containers to each other deadlock when each has taken its own mutex,
  and a container assigned to or swapped with itself waits for itself.
\<close>

lemma crossed_assignment_deadlocks:
  "\<exists>s. run_events lock_step [0, 1] (lock_start st [[Binary 0 1 container_assign], [Binary 1 0 container_assign]]) = Some s \<and> deadlocked s"
  by (auto simp: lock_step_def lock_start_def deadlocked_def finished_def less_Suc_eq numeral_2_eq_2)

lemma self_assignment_deadlocks:
  "\<exists>s. run_events lock_step [0] (lock_start st [[Binary c c f]]) = Some s \<and> deadlocked s"
  by (auto simp: lock_step_def lock_start_def deadlocked_def finished_def)

end
