(* ===== verification/Lazy_Pointer.thy ===== *)
theory Lazy_Pointer
  imports Event_Machine
begin

text \<open>
  The reference-counting pointer of \<open>libdevcore/pointers/lazy_pointer.h\<close>. The counter and the value are
  cells of a heap that the copies share; an operation that reads or frees a cell that is not there,
  or follows a null pointer, is undefined and gives \<open>None\<close>.
\<close>

section \<open>Definitions\<close>

record 'a lazy_heap =
  hp_values :: "nat \<rightharpoonup> 'a"
  hp_counts :: "nat \<rightharpoonup> int"

record lazy_pointer =
  lz_value :: "nat option"
  lz_cnt :: "nat option"
  lz_status :: int

definition lazy_new :: "nat \<Rightarrow> nat \<Rightarrow> 'a \<Rightarrow> 'a lazy_heap \<Rightarrow> lazy_pointer \<times> 'a lazy_heap" where
  "lazy_new v c x h =
     (\<lparr>lz_value = Some v, lz_cnt = Some c, lz_status = 0\<rparr>, h \<lparr>hp_values := (hp_values h)(v \<mapsto> x), hp_counts := (hp_counts h)(c \<mapsto> 1)\<rparr>)"

definition getCnt :: "lazy_pointer \<Rightarrow> 'a lazy_heap \<Rightarrow> int option" where
  "getCnt p h = Option.bind (lz_cnt p) (hp_counts h)"

definition getValue :: "lazy_pointer \<Rightarrow> nat option" where
  "getValue p = lz_value p"

definition setStatus :: "int \<Rightarrow> lazy_pointer \<Rightarrow> lazy_pointer" where
  "setStatus st p = p \<lparr>lz_status := st\<rparr>"

definition getStatus :: "lazy_pointer \<Rightarrow> int" where
  "getStatus p = lz_status p"

definition add_cnt :: "int \<Rightarrow> lazy_pointer \<Rightarrow> 'a lazy_heap \<Rightarrow> 'a lazy_heap option" where
  "add_cnt d p h =
     (case lz_cnt p of None \<Rightarrow> None | Some c \<Rightarrow>
        (case hp_counts h c of None \<Rightarrow> None | Some k \<Rightarrow> Some (h \<lparr>hp_counts := (hp_counts h)(c \<mapsto> k + d)\<rparr>)))"

text \<open>The copy shares value and counter; its status is the default.\<close>

definition lazy_copy :: "lazy_pointer \<Rightarrow> 'a lazy_heap \<Rightarrow> (lazy_pointer \<times> 'a lazy_heap) option" where
  "lazy_copy a h = (case add_cnt 1 a h of None \<Rightarrow> None | Some h' \<Rightarrow> Some (a \<lparr>lz_status := 0\<rparr>, h'))"

definition lazy_destructor :: "lazy_pointer \<Rightarrow> 'a lazy_heap \<Rightarrow> 'a lazy_heap option" where
  "lazy_destructor p h = (if lz_cnt p \<noteq> None then add_cnt (- 1) p h else Some h)"

definition free_count :: "nat option \<Rightarrow> 'a lazy_heap \<Rightarrow> 'a lazy_heap option" where
  "free_count c h =
     (case c of None \<Rightarrow> Some h | Some a \<Rightarrow> if hp_counts h a = None then None else Some (h \<lparr>hp_counts := (hp_counts h)(a := None)\<rparr>))"

definition free_value :: "nat option \<Rightarrow> 'a lazy_heap \<Rightarrow> 'a lazy_heap option" where
  "free_value v h =
     (case v of None \<Rightarrow> Some h | Some a \<Rightarrow> if hp_values h a = None then None else Some (h \<lparr>hp_values := (hp_values h)(a := None)\<rparr>))"

definition destroy :: "lazy_pointer \<Rightarrow> 'a lazy_heap \<Rightarrow> (bool \<times> lazy_pointer \<times> 'a lazy_heap) option" where
  "destroy p h =
     Option.bind (add_cnt (- 1) p h) (\<lambda>h1.
     Option.bind (getCnt p h1) (\<lambda>k.
       if 0 < k then Some (False, p, h1)
       else Option.bind (free_count (lz_cnt p) h1) (\<lambda>h2.
            Option.bind (free_value (lz_value p) h2) (\<lambda>h3.
              Some (True, p \<lparr>lz_cnt := None, lz_value := None\<rparr>, h3)))))"

definition destroy_current :: "lazy_pointer \<Rightarrow> 'a lazy_heap \<Rightarrow> (bool \<times> lazy_pointer \<times> 'a lazy_heap) option" where
  "destroy_current p h = Option.bind (add_cnt (- 1) p h) (\<lambda>h1. Some (True, p \<lparr>lz_value := None, lz_cnt := None\<rparr>, h1))"

text \<open>
  The life of one value: the object that created it, the copies, and the calls on them. A
  destructed object leaves \<open>None\<close> in its place.
\<close>

record 'a lazy_life =
  lf_heap :: "'a lazy_heap"
  lf_objs :: "lazy_pointer option list"

datatype lazy_event = Copy nat | Destruct nat | Destroy nat | Destroy_current nat

definition lazy_obj :: "nat \<Rightarrow> 'a lazy_life \<Rightarrow> lazy_pointer option" where
  "lazy_obj i s = (if i < length (lf_objs s) then lf_objs s ! i else None)"

definition lazy_step :: "lazy_event \<Rightarrow> 'a lazy_life \<Rightarrow> 'a lazy_life option" where
  "lazy_step e s =
     (case e of
        Copy i \<Rightarrow> Option.bind (lazy_obj i s) (\<lambda>p. Option.bind (lazy_copy p (lf_heap s)) (\<lambda>(q, h).
          Some (s \<lparr>lf_heap := h, lf_objs := lf_objs s @ [Some q]\<rparr>)))
      | Destruct i \<Rightarrow> Option.bind (lazy_obj i s) (\<lambda>p. Option.bind (lazy_destructor p (lf_heap s)) (\<lambda>h.
          Some (s \<lparr>lf_heap := h, lf_objs := (lf_objs s)[i := None]\<rparr>)))
      | Destroy i \<Rightarrow> Option.bind (lazy_obj i s) (\<lambda>p. Option.bind (destroy p (lf_heap s)) (\<lambda>(_, q, h).
          Some (s \<lparr>lf_heap := h, lf_objs := (lf_objs s)[i := Some q]\<rparr>)))
      | Destroy_current i \<Rightarrow> Option.bind (lazy_obj i s) (\<lambda>p. Option.bind (destroy_current p (lf_heap s)) (\<lambda>(_, q, h).
          Some (s \<lparr>lf_heap := h, lf_objs := (lf_objs s)[i := Some q]\<rparr>))))"

definition lazy_start :: "'a \<Rightarrow> 'a lazy_life" where
  "lazy_start x =
     (let (p, h) = lazy_new 0 0 x \<lparr>hp_values = Map.empty, hp_counts = Map.empty\<rparr> in \<lparr>lf_heap = h, lf_objs = [Some p]\<rparr>)"

section \<open>Lemmas\<close>

text \<open>The objects that still refer to the counter.\<close>

definition owner :: "lazy_pointer option \<Rightarrow> bool" where
  "owner ob \<longleftrightarrow> (\<exists>p. ob = Some p \<and> lz_cnt p = Some 0)"

definition owners :: "'a lazy_life \<Rightarrow> int" where
  "owners s = (\<Sum>ob \<leftarrow> lf_objs s. of_bool (owner ob))"

text \<open>Without \<open>destroy\<close> the counter is the number of owners, and the value is never freed.\<close>

definition lazy_invar :: "'a \<Rightarrow> lazy_event list \<Rightarrow> 'a lazy_life \<Rightarrow> bool" where
  "lazy_invar x es s \<longleftrightarrow> (\<forall>i. Destroy i \<notin> set es) \<longrightarrow>
     hp_counts (lf_heap s) = [0 \<mapsto> owners s] \<and> hp_values (lf_heap s) = [0 \<mapsto> x]
     \<and> (\<forall>p. Some p \<in> set (lf_objs s) \<longrightarrow> lz_cnt p = None \<or> lz_cnt p = Some 0)"

lemma owners_update:
  "i < length xs \<Longrightarrow> (\<Sum>ob \<leftarrow> xs[i := b]. of_bool (owner ob)) = (\<Sum>ob \<leftarrow> xs. of_bool (owner ob)) - of_bool (owner (xs ! i)) + (of_bool (owner b) :: int)"
proof (induction xs arbitrary: i)
  case (Cons a xs)
  then show ?case by (cases i) auto
qed simp

lemma lazy_obj_owner:
  assumes "lazy_invar x es s" and "lazy_obj i s = Some p" and "\<forall>k. Destroy k \<notin> set es"
  shows "i < length (lf_objs s)" "lf_objs s ! i = Some p" "lz_cnt p = None \<or> lz_cnt p = Some 0"
proof -
  show i: "i < length (lf_objs s)" "lf_objs s ! i = Some p" using assms(2) by (auto simp: lazy_obj_def split: if_splits)
  then have "Some p \<in> set (lf_objs s)" by (metis nth_mem)
  then show "lz_cnt p = None \<or> lz_cnt p = Some 0" using assms(1,3) by (simp add: lazy_invar_def)
qed

lemma set_update_Some: "Some p \<in> set (xs[i := b]) \<Longrightarrow> Some p \<in> set xs \<or> b = Some p"
  using set_update_subset_insert [of xs i b] by auto

lemma lazy_invar_set:
  assumes "i < length (lf_objs s)" and "lf_objs s ! i = Some p" and "\<And>q. Some q \<in> set (lf_objs s) \<Longrightarrow> lz_cnt q = None \<or> lz_cnt q = Some 0"
    and "hp_counts h = [0 \<mapsto> owners s - of_bool (owner (Some p)) + of_bool (owner b)]" and "hp_values h = [0 \<mapsto> x]"
    and "\<And>q. b = Some q \<Longrightarrow> lz_cnt q = None \<or> lz_cnt q = Some 0"
  shows "lazy_invar x es (s \<lparr>lf_heap := h, lf_objs := (lf_objs s)[i := b]\<rparr>)"
proof -
  have "owners (s \<lparr>lf_heap := h, lf_objs := (lf_objs s)[i := b]\<rparr>) = owners s - of_bool (owner (Some p)) + of_bool (owner b)"
    using assms(1,2) by (simp add: owners_def owners_update)
  moreover have "lz_cnt q = None \<or> lz_cnt q = Some 0" if "Some q \<in> set ((lf_objs s)[i := b])" for q
    using set_update_Some [OF that] assms(3,6) by blast
  ultimately show ?thesis using assms(4,5) unfolding lazy_invar_def by simp
qed

lemma add_cnt_owner:
  assumes "hp_counts h = [0 \<mapsto> k]" and "lz_cnt p = Some 0"
  shows "add_cnt d p h = Some (h \<lparr>hp_counts := [0 \<mapsto> k + d]\<rparr>)"
  using assms by (simp add: add_cnt_def)

lemma lazy_step_invar:
  assumes inv: "lazy_invar x es s" and step: "lazy_step e s = Some s'"
  shows "lazy_invar x (es @ [e]) s'"
proof (cases "\<forall>i. Destroy i \<notin> set (es @ [e])")
  case True
  then have no: "\<forall>k. Destroy k \<notin> set es" by simp
  have h: "hp_counts (lf_heap s) = [0 \<mapsto> owners s]" "hp_values (lf_heap s) = [0 \<mapsto> x]"
    "\<And>p. Some p \<in> set (lf_objs s) \<Longrightarrow> lz_cnt p = None \<or> lz_cnt p = Some 0" using inv no by (simp_all add: lazy_invar_def)
  note ob = lazy_obj_owner [OF inv _ no] and upd = lazy_invar_set [OF _ _ h(3), of _ s] and cnt = add_cnt_owner [OF h(1)]
  show ?thesis
  proof (cases e)
    case (Copy i)
    then obtain p where p: "lazy_obj i s = Some p" using step by (auto simp: lazy_step_def bind_eq_Some_conv)
    then have c: "lz_cnt p = Some 0" using step Copy ob(3) [OF p] by (auto simp: lazy_step_def lazy_copy_def add_cnt_def)
    then have s': "s' = s \<lparr>lf_heap := lf_heap s \<lparr>hp_counts := [0 \<mapsto> owners s + 1]\<rparr>, lf_objs := lf_objs s @ [Some (p \<lparr>lz_status := 0\<rparr>)]\<rparr>"
      using step Copy p by (simp add: lazy_step_def lazy_copy_def cnt)
    have "owners s' = owners s + 1" using c s' by (simp add: owners_def owner_def)
    moreover have "lz_cnt q = None \<or> lz_cnt q = Some 0" if "Some q \<in> set (lf_objs s')" for q using that c s' h(3) by auto
    ultimately show ?thesis using s' h(2) unfolding lazy_invar_def by simp
  next
    case (Destruct i)
    then obtain p where p: "lazy_obj i s = Some p" using step by (auto simp: lazy_step_def bind_eq_Some_conv)
    let ?h = "if lz_cnt p = None then lf_heap s else lf_heap s \<lparr>hp_counts := [0 \<mapsto> owners s - 1]\<rparr>"
    have s': "s' = s \<lparr>lf_heap := ?h, lf_objs := (lf_objs s)[i := None]\<rparr>"
      using step Destruct p ob(3) [OF p] by (auto simp: lazy_step_def lazy_destructor_def cnt)
    show ?thesis unfolding s' by (rule upd [OF ob(1,2) [OF p]]) (use ob(3) [OF p] h in \<open>auto simp: owner_def\<close>)
  next
    case (Destroy i)
    then show ?thesis using True by auto
  next
    case (Destroy_current i)
    then obtain p where p: "lazy_obj i s = Some p" using step by (auto simp: lazy_step_def bind_eq_Some_conv)
    then have c: "lz_cnt p = Some 0" using step Destroy_current ob(3) [OF p] by (auto simp: lazy_step_def destroy_current_def add_cnt_def)
    then have s': "s' = s \<lparr>lf_heap := lf_heap s \<lparr>hp_counts := [0 \<mapsto> owners s - 1]\<rparr>,
        lf_objs := (lf_objs s)[i := Some (p \<lparr>lz_value := None, lz_cnt := None\<rparr>)]\<rparr>"
      using step Destroy_current p by (simp add: lazy_step_def destroy_current_def cnt)
    show ?thesis unfolding s' by (rule upd [OF ob(1,2) [OF p]]) (use c h in \<open>auto simp: owner_def\<close>)
  qed
qed (auto simp: lazy_invar_def)

interpretation lazy: history_invariant lazy_step "lazy_start x" "lazy_invar x" for x
  by unfold_locales (simp_all add: lazy_step_invar, simp add: lazy_invar_def lazy_start_def lazy_new_def owners_def owner_def)

lemma lazy_counts_owners:
  assumes "run_events lazy_step es (lazy_start x) = Some s" and "\<And>i. Destroy i \<notin> set es"
  shows "hp_counts (lf_heap s) = [0 \<mapsto> owners s] \<and> hp_values (lf_heap s) = [0 \<mapsto> x]"
  using lazy.run [OF assms(1)] assms(2) by (simp add: lazy_invar_def)

text \<open>
  \<open>destroy\<close> counts an object out that the destructor counts out again: with three objects, one
  \<open>destroy\<close> and the end of that object, a second \<open>destroy\<close> frees the value that the third object still
  refers to, and the destructor of the third object then follows a freed pointer.
\<close>

lemma destroy_frees_shared_value:
  "\<exists>s p. run_events lazy_step [Copy 0, Copy 0, Destroy 0, Destruct 0, Destroy 1] (lazy_start x) = Some s
     \<and> lazy_obj 2 s = Some p \<and> getValue p = Some 0 \<and> hp_values (lf_heap s) 0 = None \<and> lazy_step (Destruct 2) s = None"
  by (simp add: lazy_step_def lazy_start_def lazy_new_def lazy_obj_def lazy_copy_def add_cnt_def destroy_def lazy_destructor_def
      getCnt_def getValue_def free_count_def free_value_def)

end
