(* ===== verification/Tasks.thy ===== *)
theory Tasks
  imports Unit_Prelude
begin

text \<open>
  The class \<open>Task\<close> of \<open>concurrency/ThreadPool.h\<close>; the class \<open>ThreadPool\<close> of the same file has only a vector
  of threads, and the pool behind \<open>#if 0\<close> is not compiled. A task binds a function, which here
  transforms a state and returns a value; a function without a value is bound beside a function
  that returns the integer 0.
\<close>

section \<open>Definitions\<close>

text \<open>What a \<open>std::any\<close> holds: nothing, an integer, a truth value, or a value of the bound function.\<close>

datatype 'v any = Any_empty | Any_int int | Any_bool bool | Any_value 'v

record ('s, 'v) task =
  tk_void :: "'s \<Rightarrow> 's"
  tk_any :: "'s \<Rightarrow> 'v any \<times> 's"
  tk_result :: "'v any"
  tk_is_void :: bool

definition Task_void :: "('s \<Rightarrow> 's) \<Rightarrow> ('s, 'v) task" where
  "Task_void f = \<lparr>tk_void = f, tk_any = \<lambda>s. (Any_int 0, s), tk_result = Any_empty, tk_is_void = True\<rparr>"

definition Task_value :: "('s \<Rightarrow> 'v \<times> 's) \<Rightarrow> ('s, 'v) task" where
  "Task_value f = \<lparr>tk_void = \<lambda>s. s, tk_any = \<lambda>s. (case f s of (v, s') \<Rightarrow> (Any_value v, s')), tk_result = Any_empty, tk_is_void = False\<rparr>"

definition task_call :: "('s, 'v) task \<Rightarrow> 's \<Rightarrow> ('s, 'v) task \<times> 's" where
  "task_call t s = (let (r, s') = tk_any t (tk_void t s) in (t \<lparr>tk_result := r\<rparr>, s'))"

definition has_result :: "('s, 'v) task \<Rightarrow> bool" where
  "has_result t \<longleftrightarrow> \<not> tk_is_void t"

definition get_result :: "('s, 'v) task \<Rightarrow> 'v any" where
  "get_result t = Any_bool (\<not> tk_is_void t \<and> tk_result t \<noteq> Any_empty)"

section \<open>Lemmas\<close>

lemma task_call_value:
  "f s = (v, s') \<Longrightarrow> task_call (Task_value f) s = (Task_value f \<lparr>tk_result := Any_value v\<rparr>, s')"
  by (simp add: task_call_def Task_value_def)

lemma task_call_void: "task_call (Task_void f) s = (Task_void f \<lparr>tk_result := Any_int 0\<rparr>, f s)"
  by (simp add: task_call_def Task_void_def)

text \<open>The value of the function is computed and stored, but \<open>get_result\<close> returns only whether it is there.\<close>

lemma get_result_loses_value:
  "get_result (fst (task_call (Task_value f) s)) = Any_bool True \<and> get_result (Task_value f) = Any_bool False"
  by (cases "f s") (simp add: task_call_value get_result_def, simp add: Task_value_def)

end
