(* ===== verification/Udp_Server.thy ===== *)
theory Udp_Server
  imports Udp
begin

text \<open>
  The server of \<open>server_library/udp/udp_server.c\<close> and the program of \<open>main.c\<close>: set-up of the socket,
  start of the worker threads and the receiving loop, on top of the queue of \<open>Udp\<close>. The system
  calls and the error handler are parameters; the address conversion and the packet counters
  behind \<open>RPS_MODE\<close>, which is 0, have no effect on the queue.
\<close>

section \<open>Definitions\<close>

datatype udp_end = Exited nat | Undefined_behaviour

record udp_env =
  u_socket :: "bool \<Rightarrow> bool"
  u_bind :: "bool \<Rightarrow> bool"
  u_cpus :: int
  u_create :: "nat \<Rightarrow> bool"
  u_handler :: "string \<Rightarrow> bytes option"
  u_malloc :: "(addr \<rightharpoonup> qnode) \<Rightarrow> addr option"

text \<open>
  The handler of \<open>main.c\<close> replaces the terminating zero of its argument by a line feed and prints up
  to the next zero. The bytes are the array the argument points into; \<open>writable\<close> is false for a
  string literal.
\<close>

definition handler :: "bool \<Rightarrow> bytes \<Rightarrow> bytes option" where
  "handler writable err =
     (let sz = length (takeWhile (\<lambda>b. b \<noteq> 0) err) in
      if sz = length err \<or> \<not> writable then None
      else (let err' = err[sz := 10] in
            if 0 \<notin> set err' then None else Some (takeWhile (\<lambda>b. b \<noteq> 0) err' @ [10])))"

text \<open>The server passes string literals to the handler.\<close>

definition main_handler :: "string \<Rightarrow> bytes option" where
  "main_handler message = handler False (map (of_nat \<circ> of_char) message @ [0])"

definition report :: "udp_env \<Rightarrow> string \<Rightarrow> udp_end" where
  "report env message = (case u_handler env message of None \<Rightarrow> Undefined_behaviour | Some _ \<Rightarrow> Exited 1)"

text \<open>The arrays of \<open>start_threads\<close> have \<open>n - 2\<close> elements, which has to be positive.\<close>

definition start_threads :: "int \<Rightarrow> (nat \<Rightarrow> bool) \<Rightarrow> udp_end + nat" where
  "start_threads n create =
     (if n - 2 \<le> 0 then Inl Undefined_behaviour
      else if \<exists>i \<in> set [0..<nat (n - 2)]. \<not> create i then Inl (Exited 1)
      else Inr (nat (n - 2)))"

definition udp_setup :: "udp_env \<Rightarrow> bool \<Rightarrow> udp_end + nat \<times> queue_t" where
  "udp_setup env is_ipv6 =
     (if \<not> u_socket env is_ipv6 then Inl (Exited 1)
      else if \<not> u_bind env is_ipv6 then Inl (report env ''bind error'')
      else case start_threads (u_cpus env) (u_create env) of Inl e \<Rightarrow> Inl e | Inr k \<Rightarrow> Inr (k, queue_init))"

text \<open>\<open>Datagram None\<close> is a failed \<open>recvfrom\<close>.\<close>

datatype udp_event = Datagram "bytes option" | Worker

fun udp_loop :: "udp_env \<Rightarrow> udp_event list \<Rightarrow> queue_t \<Rightarrow> udp_end + bytes list \<times> queue_t" where
  "udp_loop env [] q = Inr ([], q)"
| "udp_loop env (Datagram None # es) q = Inl (report env ''recvfrom failed'')"
| "udp_loop env (Datagram (Some packet) # es) q =
     (case receive (u_malloc env) packet q of None \<Rightarrow> Inl Undefined_behaviour | Some q' \<Rightarrow> udp_loop env es q')"
| "udp_loop env (Worker # es) q =
     (case worker_pass q of None \<Rightarrow> Inl Undefined_behaviour
      | Some (out, q') \<Rightarrow> (case udp_loop env es q' of Inl e \<Rightarrow> Inl e
          | Inr (outs, q'') \<Rightarrow> Inr ((case out of None \<Rightarrow> outs | Some m \<Rightarrow> m # outs), q'')))"

definition start_udp_server :: "udp_env \<Rightarrow> bool \<Rightarrow> udp_event list \<Rightarrow> udp_end + bytes list \<times> queue_t" where
  "start_udp_server env is_ipv6 es = (case udp_setup env is_ipv6 of Inl e \<Rightarrow> Inl e | Inr (_, q) \<Rightarrow> udp_loop env es q)"

section \<open>Lemmas\<close>

fun event_of :: "bytes traffic \<Rightarrow> udp_event" where
  "event_of (Put packet) = Datagram (Some packet)"
| "event_of Work = Worker"

lemma udp_loop_queue:
  "udp_loop env (map event_of es) q =
     (case queue_run (receive (u_malloc env)) worker_pass es q of None \<Rightarrow> Inl Undefined_behaviour | Some r \<Rightarrow> Inr r)"
proof (induction es arbitrary: q)
  case (Cons e es)
  then show ?case by (cases e) (auto split: option.split prod.split)
qed simp

text \<open>
  On a machine with at least three processors, when the system calls succeed, the server delivers
  what it receives in order; on fewer it has no defined behaviour once the socket is bound.
\<close>

lemma udp_server_delivers:
  assumes "malloc_ok (u_malloc env)" and "puts es < 2 ^ 31" and "u_socket env v6" and "u_bind env v6" and "3 \<le> u_cpus env" and "\<And>i. u_create env i"
  shows "\<exists>outs rest q. start_udp_server env v6 (map event_of es) = Inr (outs, q)
    \<and> fifo_run (\<lambda>packet. recv_buffer packet @ [0]) es [] = (outs, rest)"
proof -
  have "implements_list queue_init []" by (simp add: implements_list_def queue_init_def)
  from message_queue.run_refines [OF queue_contract [OF assms(1)] this, of es] assms(2)
  obtain outs rest q where "queue_run (receive (u_malloc env)) worker_pass es queue_init = Some (outs, q)"
    "fifo_run (\<lambda>packet. recv_buffer packet @ [0]) es [] = (outs, rest)" by auto
  then show ?thesis using assms by (auto simp: start_udp_server_def udp_setup_def start_threads_def udp_loop_queue)
qed

lemma few_processors_undefined:
  "u_socket env v6 \<Longrightarrow> u_bind env v6 \<Longrightarrow> u_cpus env \<le> 2 \<Longrightarrow> start_udp_server env v6 es = Inl Undefined_behaviour"
  by (simp add: start_udp_server_def udp_setup_def start_threads_def)

lemma main_handler_undefined: "main_handler message = None"
  by (simp add: main_handler_def handler_def)

lemma failures_of_main_undefined:
  assumes "u_handler env = main_handler" and "u_socket env v6" and "\<not> u_bind env v6"
  shows "start_udp_server env v6 es = Inl Undefined_behaviour"
  using assms by (simp add: start_udp_server_def udp_setup_def report_def main_handler_undefined)

end
