(* ===== verification/Builder.thy ===== *)
theory Builder
  imports Node "HOL-Library.Monad_Syntax"
begin

text \<open>
  The block builder (\<open>block/BlockBuilder.h\<close>) and the block generator (\<open>Blockchain::start\<close>) with the
  pointers they have in the code: blocks are objects on a heap, the builder writes to the block it
  was given through a pointer, and the generator keeps a pointer to the previous and one to the
  current block. \<open>Node.produce\<close> has the same pass on blocks as values; the pass on the heap is shown to
  simulate it.
\<close>

section \<open>Builder\<close>

type_synonym 'j heap = "nat \<rightharpoonup> 'j block"

record 'j builder =
  bb_current :: nat
  bb_header :: block_header

text \<open>
  A method of the builder gets the heap and gives the heap and the builder back, or \<open>None\<close> when it
  writes through a pointer that points to no block or its text is not defined.
\<close>

type_synonym 'j building = "('j heap \<times> 'j builder) option"

definition setBlock :: "nat \<Rightarrow> 'j heap \<times> 'j builder \<Rightarrow> 'j building" where
  "setBlock p = (\<lambda>(m, bb). Some (m, bb \<lparr>bb_current := p\<rparr>))"

definition on_header :: "(block_header \<Rightarrow> block_header) \<Rightarrow> 'j heap \<times> 'j builder \<Rightarrow> 'j building" where
  "on_header f = (\<lambda>(m, bb). Some (m, bb \<lparr>bb_header := f (bb_header bb)\<rparr>))"

definition on_block :: "('j block \<Rightarrow> 'j block option) \<Rightarrow> 'j heap \<times> 'j builder \<Rightarrow> 'j building" where
  "on_block f = (\<lambda>(m, bb). do { b \<leftarrow> m (bb_current bb); b' \<leftarrow> f b; Some (m(bb_current bb \<mapsto> b'), bb) })"

definition setPreviousHash :: "string \<Rightarrow> 'j heap \<times> 'j builder \<Rightarrow> 'j building" where
  "setPreviousHash v = on_header (\<lambda>h. header_setPreviousHash h v)"

definition setTime :: "u64 \<Rightarrow> 'j heap \<times> 'j builder \<Rightarrow> 'j building" where
  "setTime v = on_header (\<lambda>h. header_setTime h v)"

definition setVersion :: "u64 \<Rightarrow> 'j heap \<times> 'j builder \<Rightarrow> 'j building" where
  "setVersion v = on_header (\<lambda>h. header_setVersion h v)"

definition setIndex :: "u64 \<Rightarrow> 'j heap \<times> 'j builder \<Rightarrow> 'j building" where
  "setIndex v = on_header (\<lambda>h. header_setIndex h v)"

definition setNonce :: "int \<Rightarrow> 'j heap \<times> 'j builder \<Rightarrow> 'j building" where
  "setNonce v = on_header (\<lambda>h. header_setNonce h v)"

definition setBlockHeader :: "'j heap \<times> 'j builder \<Rightarrow> 'j building" where
  "setBlockHeader = (\<lambda>(m, bb). on_block (\<lambda>b. Some (block_setBlockHeader b (bb_header bb))) (m, bb))"

definition setRewardProverAddress :: "string \<Rightarrow> 'j heap \<times> 'j builder \<Rightarrow> 'j building" where
  "setRewardProverAddress v = on_block (\<lambda>b. Some (block_setRewardProverAddress b v))"

definition setMessage :: "string \<Rightarrow> 'j heap \<times> 'j builder \<Rightarrow> 'j building" where
  "setMessage v = on_block (\<lambda>b. Some (block_setMessage b v))"

definition setEpoch :: "string \<Rightarrow> 'j heap \<times> 'j builder \<Rightarrow> 'j building" where
  "setEpoch v = on_block (\<lambda>b. Some (block_setEpoch b v))"

definition builder_generateHash :: "'j heap \<times> 'j builder \<Rightarrow> 'j building" where
  "builder_generateHash = on_block block_generateHash"

definition generateRoot :: "'j heap \<times> 'j builder \<Rightarrow> 'j building" where
  "generateRoot = on_block (\<lambda>b. map_option snd (generateMerkleRoot b))"

definition builder_setProverSign :: "(string \<Rightarrow> string \<times> string \<times> string) \<Rightarrow> 'j heap \<times> 'j builder \<Rightarrow> 'j building" where
  "builder_setProverSign sign = on_block (\<lambda>b.
     let (r, s, h) = sign (serializeForSigning b) in Some (block_setSignP (block_setSp (block_setRp b r) s) h))"

definition builder_insertShard :: "'j shard option \<Rightarrow> 'j heap \<times> 'j builder \<Rightarrow> 'j building" where
  "builder_insertShard sh = (case sh of None \<Rightarrow> Some | Some s \<Rightarrow> on_block (\<lambda>b. Some (block_emplaceBack b s)))"

definition build :: "'j heap \<times> 'j builder \<Rightarrow> nat" where
  "build = (\<lambda>(m, bb). bb_current bb)"

definition setCurrentBlock :: "nat \<Rightarrow> 'j builder \<Rightarrow> 'j builder" where
  "setCurrentBlock p bb = bb \<lparr>bb_current := p\<rparr>"

definition getCurrentBlock :: "'j heap \<times> 'j builder \<Rightarrow> 'j block option" where
  "getCurrentBlock = (\<lambda>(m, bb). m (bb_current bb))"

definition builder_setBlockHeader :: "block_header \<Rightarrow> 'j builder \<Rightarrow> 'j builder" where
  "builder_setBlockHeader h bb = bb \<lparr>bb_header := header_assign (bb_header bb) h\<rparr>"

text \<open>The chain of calls of \<open>Blockchain::start\<close>, in its order; after a restart no shard is inserted.\<close>

definition start_chain ::
  "(string \<Rightarrow> string \<times> string \<times> string) \<Rightarrow> string \<Rightarrow> string \<Rightarrow> u64 \<Rightarrow> u64 \<Rightarrow> 'j shard option \<Rightarrow> nat \<Rightarrow> 'j heap \<times> 'j builder \<Rightarrow> 'j building" where
  "start_chain sign addressP parentHash now index opShard p s = do {
     s \<leftarrow> setBlock p s; s \<leftarrow> setPreviousHash parentHash s; s \<leftarrow> setTime now s; s \<leftarrow> setVersion 1 s; s \<leftarrow> setIndex index s;
     s \<leftarrow> setNonce 0 s; s \<leftarrow> setEpoch ''0x0'' s; s \<leftarrow> setBlockHeader s; s \<leftarrow> setMessage ''test block'' s;
     s \<leftarrow> setRewardProverAddress addressP s; s \<leftarrow> builder_insertShard opShard s; s \<leftarrow> builder_generateHash s;
     s \<leftarrow> generateRoot s; builder_setProverSign sign s }"

lemmas builder_methods = setBlock_def on_header_def on_block_def setPreviousHash_def setTime_def setVersion_def setIndex_def setNonce_def
  setBlockHeader_def setRewardProverAddress_def setMessage_def setEpoch_def builder_generateHash_def generateRoot_def
  builder_setProverSign_def builder_insertShard_def

text \<open>
  The calls give the block that \<open>build_block\<close> computes, in place of the block the pointer points to, and
  leave every other block as it is.
\<close>

lemma start_chain_builds:
  assumes "m p = Some b"
  shows "start_chain sign addressP parentHash now index opShard p (m, bb) =
    (let h = builder_header (bb_header bb) parentHash now index
     in map_option (\<lambda>b'. (m(p \<mapsto> b'), bb \<lparr>bb_current := p, bb_header := h\<rparr>)) (build_block (\<lambda>t. Some (sign t)) addressP h b opShard))"
proof -
  let ?h = "builder_header (bb_header bb) parentHash now index"
  let ?b1 = "b \<lparr>bl_epoch := ''0x0'', bl_header := ?h, bl_message := ''test block'', bl_rewardProverAddress := addressP\<rparr>"
  let ?b = "insertShard opShard ?b1" and ?bb = "bb \<lparr>bb_current := p, bb_header := ?h\<rparr>"
  have "start_chain sign addressP parentHash now index opShard p (m, bb) = do {
      s \<leftarrow> builder_insertShard opShard (m(p \<mapsto> ?b1), ?bb); s \<leftarrow> builder_generateHash s; s \<leftarrow> generateRoot s; builder_setProverSign sign s }"
    using assms
    by (simp add: start_chain_def builder_methods header_setters block_setters builder_header_def header_assign_copies)
  also have "builder_insertShard opShard (m(p \<mapsto> ?b1), ?bb) = Some (m(p \<mapsto> ?b), ?bb)"
    by (simp add: builder_insertShard_def on_block_def insertShard_def block_emplaceBack_def split: option.split)
  finally show ?thesis
    by (auto simp: builder_generateHash_def generateRoot_def builder_setProverSign_def on_block_def build_block_def setProverSign_def
        block_setters Let_def split_beta split: option.split bind_split)
qed

section \<open>Generator\<close>

text \<open>A pointer member holds a value that was never set, the null pointer or an address.\<close>

datatype pointer = Wild | Null | Addr nat

record 'j generator =
  g_heap :: "'j heap"
  g_previous :: pointer
  g_current :: pointer
  g_builder :: "'j builder"

text \<open>The constructor sets neither of the two pointers.\<close>

definition Blockchain_new :: "'j heap \<Rightarrow> 'j generator" where
  "Blockchain_new m = \<lparr>g_heap = m, g_previous = Wild, g_current = Wild, g_builder = \<lparr>bb_current = 0, bb_header = empty_header\<rparr>\<rparr>"

text \<open>\<open>alloc\<close> is the address that \<open>new Block()\<close> gives on a heap.\<close>

definition new_block :: "('j heap \<Rightarrow> nat) \<Rightarrow> 'j heap \<Rightarrow> 'j heap \<times> pointer" where
  "new_block alloc m = (m(alloc m \<mapsto> empty_block), Addr (alloc m))"

definition delete_block :: "pointer \<Rightarrow> 'j heap \<Rightarrow> 'j heap option" where
  "delete_block p m = (case p of Wild \<Rightarrow> None | Null \<Rightarrow> Some m | Addr q \<Rightarrow> if m q = None then None else Some (m(q := None)))"

definition start_init :: "('j heap \<Rightarrow> nat) \<Rightarrow> 'j generator \<Rightarrow> fault + 'j generator" where
  "start_init alloc g =
     (case g_current g of
        Wild \<Rightarrow> Inl Undefined
      | Null \<Rightarrow> (let (m, p) = new_block alloc (g_heap g) in Inr (g \<lparr>g_heap := m, g_current := p\<rparr>))
      | Addr p \<Rightarrow> Inr g)"

definition chain_on :: "'j node_env \<Rightarrow> string \<Rightarrow> u64 \<Rightarrow> 'j shard option \<Rightarrow> nat \<Rightarrow> 'j heap \<Rightarrow> 'j generator \<Rightarrow> fault + 'j generator" where
  "chain_on env parentHash index opShard p m g =
     (case start_chain (e_sign env) (e_prover env) parentHash (e_now env) index opShard p (m, g_builder g) of
        None \<Rightarrow> Inl Undefined
      | Some (m', bb) \<Rightarrow> Inr (g \<lparr>g_heap := m', g_builder := bb\<rparr>))"

text \<open>The three branches of a pass; \<open>p\<close> is the current block. The index of the previous block is incremented in place.\<close>

definition heap_next :: "'j node_env \<Rightarrow> 'j shard option \<Rightarrow> nat \<Rightarrow> nat \<Rightarrow> 'j shard list \<Rightarrow> 'j generator \<Rightarrow> fault + 'j generator \<times> 'j shard list" where
  "heap_next env opShard p q shards g =
     (case g_heap g q of
        None \<Rightarrow> Inl Undefined
      | Some prev \<Rightarrow>
          (let index = bh_index (bl_header prev) + 1;
               prev' = prev \<lparr>bl_header := header_setIndex (bl_header prev) index\<rparr>
           in res_bind (chain_on env (bh_hash (bl_header prev')) index opShard p ((g_heap g)(q \<mapsto> prev')) g) (\<lambda>g'.
                case (if opShard \<noteq> None then pop_back shards else Some shards) of
                  None \<Rightarrow> Inl Undefined | Some shards' \<Rightarrow> Inr (g', shards'))))"

definition heap_genesis :: "'j node_env \<Rightarrow> 'j shard option \<Rightarrow> nat \<Rightarrow> 'j generator \<Rightarrow> fault + 'j generator" where
  "heap_genesis env opShard p g =
     res_bind (throwing (res_bind (parseToGenesis (e_lib env) (e_now env) genesis_request) (generateHash (e_lib env)))) (\<lambda>tx.
       case g_heap g p of
         None \<Rightarrow> Inl Undefined
       | Some b \<Rightarrow> chain_on env ''genesis'' 0 opShard p ((g_heap g)(p \<mapsto> block_emplaceBack b (Shard_of [tx]))) g)"

definition heap_prepare :: "'j node_env \<Rightarrow> 'j shard option \<Rightarrow> nat \<Rightarrow> 'j shard list \<Rightarrow> 'j generator \<Rightarrow> fault + 'j generator \<times> 'j shard list" where
  "heap_prepare env opShard p shards g =
     (case g_previous g of
        Wild \<Rightarrow> Inl Undefined
      | Addr q \<Rightarrow> heap_next env opShard p q shards g
      | Null \<Rightarrow>
         (case stored_position env of
            Inr (parentHash, i) \<Rightarrow> res_bind (chain_on env parentHash i None p (g_heap g) g) (\<lambda>g'. Inr (g', shards))
          | Inl e \<Rightarrow> res_bind (heap_genesis env opShard p g) (\<lambda>g'. Inr (g', shards))))"

text \<open>
  The rest of the pass. The previous pointer is set to null before it is deleted, so nothing is
  deleted. The results are the new list of shards, the text of the block and what processing wrote.
\<close>

definition advance :: "('j heap \<Rightarrow> nat) \<Rightarrow> 'j generator \<Rightarrow> fault + 'j generator" where
  "advance alloc g =
     (let g1 = g \<lparr>g_previous := Null\<rparr> in
      case delete_block (g_previous g1) (g_heap g1) of
        None \<Rightarrow> Inl Undefined
      | Some m \<Rightarrow> (let (m', p) = new_block alloc m in Inr (g1 \<lparr>g_heap := m', g_previous := g_current g1, g_current := p\<rparr>)))"

definition generator_pass ::
  "('j heap \<Rightarrow> nat) \<Rightarrow> 'j node_env \<Rightarrow> 'j shard option \<Rightarrow> 'j shard list \<Rightarrow> 'j generator \<Rightarrow> fault + 'j generator \<times> 'j shard list \<times> string \<times> batch" where
  "generator_pass alloc env opShard shards g =
     (case g_current g of
        Addr p \<Rightarrow>
          res_bind (heap_prepare env opShard p shards g) (\<lambda>(g1, shards').
            case g_heap g1 p of
              None \<Rightarrow> Inl Undefined
            | Some b \<Rightarrow> res_bind (process_block env b) (\<lambda>(b', pr).
                case serializeBlock b' of
                  None \<Rightarrow> Inl Undefined
                | Some t \<Rightarrow> res_bind (advance alloc (g1 \<lparr>g_heap := (g_heap g1)(p \<mapsto> b')\<rparr>)) (\<lambda>g2. Inr (g2, shards', t, p_writes pr))))
      | _ \<Rightarrow> Inl Undefined)"

section \<open>Simulation\<close>

definition represents :: "'j generator \<Rightarrow> 'j node \<Rightarrow> bool" where
  "represents g st \<longleftrightarrow>
     (\<exists>p. g_current g = Addr p \<and> g_heap g p = Some empty_block \<and> g_previous g \<noteq> Addr p)
     \<and> bb_header (g_builder g) = n_header st
     \<and> (case n_previous st of None \<Rightarrow> g_previous g = Null | Some b \<Rightarrow> (\<exists>q. g_previous g = Addr q \<and> g_heap g q = Some b))"

text \<open>The calls on the heap: the block at \<open>p\<close> becomes what \<open>build_block\<close> gives, nothing else changes.\<close>

lemma chain_on_builds:
  assumes "m p = Some b"
  shows "chain_on env parentHash i opShard p m g =
    (let h = builder_header (bb_header (g_builder g)) parentHash (e_now env) i
     in res_bind (built (build_block (\<lambda>t. Some (e_sign env t)) (e_prover env) h b opShard)) (\<lambda>b'.
          Inr (g \<lparr>g_heap := m(p \<mapsto> b'), g_builder := (g_builder g) \<lparr>bb_current := p, bb_header := h\<rparr>\<rparr>)))"
  by (simp add: chain_on_def start_chain_builds [of m p b, OF assms] built_def Let_def split: option.split)

definition prepared :: "nat \<Rightarrow> 'j generator \<Rightarrow> 'j generator \<Rightarrow> 'j block \<Rightarrow> 'j node \<Rightarrow> bool" where
  "prepared p g g1 b st1 \<longleftrightarrow> g_heap g1 p = Some b \<and> bb_header (g_builder g1) = n_header st1 \<and> dom (g_heap g1) = dom (g_heap g)
     \<and> g_current g1 = g_current g"

lemma prepare_simulates:
  assumes rep: "represents g st" and p: "g_current g = Addr p"
  shows "case prepare_block env opShard st of
      Inl f \<Rightarrow> heap_prepare env opShard p (n_shards st) g = Inl f
    | Inr (b, st1) \<Rightarrow> (\<exists>g1. heap_prepare env opShard p (n_shards st) g = Inr (g1, n_shards st1) \<and> prepared p g g1 b st1)"
proof -
  have cur: "g_heap g p = Some empty_block" "g_previous g \<noteq> Addr p" "bb_header (g_builder g) = n_header st"
    using rep p by (auto simp: represents_def)
  show ?thesis
  proof (cases "n_previous st")
    case (Some prev)
    then obtain q where q: "g_previous g = Addr q" "g_heap g q = Some prev" using rep by (auto simp: represents_def)
    let ?m = "(g_heap g)(q \<mapsto> prev \<lparr>bl_header := (bl_header prev) \<lparr>bh_index := bh_index (bl_header prev) + 1\<rparr>\<rparr>)"
    let ?h = "builder_header (n_header st) (bh_hash (bl_header prev)) (e_now env) (bh_index (bl_header prev) + 1)"
    let ?b = "build_block (\<lambda>t. Some (e_sign env t)) (e_prover env) ?h empty_block opShard"
    have m: "?m p = Some empty_block" using cur(1,2) q(1) by auto
    have "heap_prepare env opShard p (n_shards st) g =
        res_bind (chain_on env (bh_hash (bl_header prev)) (bh_index (bl_header prev) + 1) opShard p ?m g) (\<lambda>g'.
          case (if opShard \<noteq> None then pop_back (n_shards st) else Some (n_shards st)) of None \<Rightarrow> Inl Undefined | Some shards' \<Rightarrow> Inr (g', shards'))"
      using q by (simp add: heap_prepare_def heap_next_def header_setIndex_def Let_def)
    moreover have "prepare_block env opShard st = next_block env opShard st prev" using Some by (simp add: prepare_block_def)
    moreover have "dom ?m = dom (g_heap g)" using q(2) by auto
    moreover have "p \<in> dom (g_heap g)" using cur(1) by auto
    ultimately show ?thesis
      using cur(3) by (cases ?b) (auto simp: next_block_def chain_on_builds [of ?m p, OF m] prepared_def Let_def built_def split: option.split)
  next
    case None
    then have nul: "g_previous g = Null" using rep by (simp add: represents_def)
    show ?thesis
    proof (cases "stored_position env")
      case (Inr hi)
      then show ?thesis
        using None nul cur by (cases hi) (auto simp: prepare_block_def restart_block_def heap_prepare_def chain_on_builds [of "g_heap g" p, OF cur(1)] prepared_def
            Let_def built_def split: option.split)
    next
      case (Inl e)
      let ?tx = "throwing (res_bind (parseToGenesis (e_lib env) (e_now env) genesis_request) (generateHash (e_lib env)))"
      show ?thesis
      proof (cases ?tx)
        case (Inl f)
        then show ?thesis
          using None nul \<open>stored_position env = Inl e\<close> by (simp add: prepare_block_def genesis_block_def heap_prepare_def heap_genesis_def)
      next
        case (Inr tx)
        let ?m = "(g_heap g)(p \<mapsto> block_emplaceBack empty_block (Shard_of [tx]))"
        have m: "?m p = Some (empty_block \<lparr>bl_shards := emplace_back [] (Shard_of [tx])\<rparr>)"
          by (simp add: block_emplaceBack_def empty_block_def)
        show ?thesis
          using None nul Inl Inr cur by (auto simp: prepare_block_def genesis_block_def heap_prepare_def heap_genesis_def chain_on_builds [of ?m p, OF m]
              prepared_def Let_def built_def split: option.split)
      qed
    qed
  qed
qed

text \<open>The last part of a pass: the written block becomes the previous one, a new block the current one.\<close>

lemma advance_simulates:
  assumes "g_current g = Addr p" and "g_heap g p = Some b" and "alloc (g_heap g) \<notin> dom (g_heap g)"
  shows "\<exists>g'. advance alloc g = Inr g' \<and> g_previous g' = Addr p \<and> g_heap g' p = Some b \<and> g_builder g' = g_builder g
    \<and> g_current g' = Addr (alloc (g_heap g)) \<and> g_heap g' = (g_heap g)(alloc (g_heap g) \<mapsto> empty_block)"
  using assms by (auto simp: advance_def delete_block_def new_block_def Let_def)

lemma commit_block_fields:
  "commit_block b p st = Inr st' \<Longrightarrow> n_previous st' = Some b \<and> n_header st' = n_header st \<and> n_shards st' = n_shards st
     \<and> (\<exists>t. serializeBlock b = Some t \<and> n_explorer st' = n_explorer st @ [t]
          \<and> n_committed st' = n_committed st @ (if p_writes p \<noteq> [] then [p_writes p] else []))"
  by (auto simp: commit_block_def emplace_back_def split: option.splits)

lemma prepare_keeps_committed: "prepare_block env opShard st = Inr (b, st1) \<Longrightarrow> n_committed st1 = n_committed st"
  by (auto simp: prepare_block_def next_block_def restart_block_def genesis_block_def Let_def res_simps
      split: option.splits sum.splits if_splits)

lemma produce_simulated:
  assumes rep: "represents g st" and alloc: "\<And>m. finite (dom m) \<Longrightarrow> alloc m \<notin> dom m" and fin: "finite (dom (g_heap g))"
    and run: "produce env opShard st = Inr st'"
  shows "\<exists>g' t ws. generator_pass alloc env opShard (n_shards st) g = Inr (g', n_shards st', t, ws) \<and> represents g' st'
    \<and> n_explorer st' = n_explorer st @ [t] \<and> n_committed st' = n_committed st @ (if ws \<noteq> [] then [ws] else [])
    \<and> dom (g_heap g) \<subset> dom (g_heap g') \<and> finite (dom (g_heap g'))"
proof -
  obtain p where p: "g_current g = Addr p" using rep by (auto simp: represents_def)
  obtain b st1 b' pr where st: "prepare_block env opShard st = Inr (b, st1)" "process_block env b = Inr (b', pr)" "commit_block b' pr st1 = Inr st'"
    using run by (auto simp: produce_def res_simps)
  obtain g1 where g1: "heap_prepare env opShard p (n_shards st) g = Inr (g1, n_shards st1)" "g_heap g1 p = Some b"
    "bb_header (g_builder g1) = n_header st1" "dom (g_heap g1) = dom (g_heap g)" "g_current g1 = Addr p"
    using prepare_simulates [OF rep p, of env opShard] st(1) p by (auto simp: prepared_def)
  obtain t where t: "serializeBlock b' = Some t" "n_explorer st' = n_explorer st1 @ [t]" "n_previous st' = Some b'" "n_header st' = n_header st1"
    "n_shards st' = n_shards st1" "n_committed st' = n_committed st1 @ (if p_writes pr \<noteq> [] then [p_writes pr] else [])"
    using commit_block_fields [OF st(3)] by blast
  let ?g = "g1 \<lparr>g_heap := (g_heap g1)(p \<mapsto> b')\<rparr>"
  have domg: "dom (g_heap ?g) = dom (g_heap g)" using g1(2,4) by auto
  have "finite (dom (g_heap ?g))" unfolding domg by (rule fin)
  then have fresh: "alloc (g_heap ?g) \<notin> dom (g_heap ?g)" by (rule alloc)
  obtain g' where g': "advance alloc ?g = Inr g'" "g_previous g' = Addr p" "g_heap g' p = Some b'" "g_builder g' = g_builder g1"
    "g_current g' = Addr (alloc (g_heap ?g))" "g_heap g' = (g_heap ?g)(alloc (g_heap ?g) \<mapsto> empty_block)"
    using advance_simulates [of ?g p b' alloc] g1(5) fresh by auto
  have ne: "alloc (g_heap ?g) \<noteq> p" using fresh by auto
  have "generator_pass alloc env opShard (n_shards st) g = Inr (g', n_shards st', t, p_writes pr)"
    using p g1(1,2) st(2) t(1,5) g'(1) by (simp add: generator_pass_def)
  moreover have "represents g' st'"
    unfolding represents_def using g'(2-6) ne t(3,4) g1(3) by auto
  moreover have "dom (g_heap g') = insert (alloc (g_heap ?g)) (dom (g_heap g))" unfolding domg [symmetric] g'(6) by simp
  then have "dom (g_heap g) \<subset> dom (g_heap g') \<and> finite (dom (g_heap g'))" using fresh [unfolded domg] fin by auto
  ultimately show ?thesis
    using t(2,6) prepare_keeps(3) [OF st(1)] prepare_keeps_committed [OF st(1)]
    by (intro exI [of _ g'] exI [of _ t] exI [of _ "p_writes pr"]) auto
qed

lemma produce_fault_simulated:
  assumes rep: "represents g st" and run: "produce env opShard st = Inl f"
  shows "generator_pass alloc env opShard (n_shards st) g = Inl f"
proof -
  obtain p where p: "g_current g = Addr p" using rep by (auto simp: represents_def)
  show ?thesis
  proof (cases "prepare_block env opShard st")
    case (Inl f')
    then have "heap_prepare env opShard p (n_shards st) g = Inl f'" using prepare_simulates [OF rep p, of env opShard] by simp
    then show ?thesis using run Inl p by (simp add: produce_def generator_pass_def)
  next
    case (Inr bst)
    obtain b st1 where bst: "bst = (b, st1)" by (cases bst)
    obtain g1 where g1: "heap_prepare env opShard p (n_shards st) g = Inr (g1, n_shards st1)" "g_heap g1 p = Some b"
      using prepare_simulates [OF rep p, of env opShard] Inr bst by (auto simp: prepared_def)
    show ?thesis
      using run Inr bst g1 p
      by (cases "process_block env b") (auto simp: produce_def generator_pass_def commit_block_def split: option.splits)
  qed
qed

section \<open>Properties\<close>

text \<open>
  C11. The block generator of the code, which works through pointers on a heap of blocks, does in every
  pass what the generator on values does. When the pointers represent the state of the node, a
  pass either ends with the same fault, or gives the same list of shards, the same text for the
  explorer and the same batch, and the pointers represent the new state. Blocks are never freed: every
  pass leaves one more block on the heap than it found.
\<close>

theorem generator_simulates_produce:
  assumes "represents g st" and "\<And>m. finite (dom m) \<Longrightarrow> alloc m \<notin> dom m" and "finite (dom (g_heap g))"
  shows "case produce env opShard st of
      Inl f \<Rightarrow> generator_pass alloc env opShard (n_shards st) g = Inl f
    | Inr st' \<Rightarrow> (\<exists>g' t ws. generator_pass alloc env opShard (n_shards st) g = Inr (g', n_shards st', t, ws) \<and> represents g' st'
        \<and> n_explorer st' = n_explorer st @ [t] \<and> n_committed st' = n_committed st @ (if ws \<noteq> [] then [ws] else [])
        \<and> dom (g_heap g) \<subset> dom (g_heap g'))"
proof (cases "produce env opShard st")
  case (Inl f)
  then show ?thesis using produce_fault_simulated [OF assms(1)] by simp
next
  case (Inr st')
  then show ?thesis using produce_simulated [OF assms Inr] by (simp only: sum.case) blast
qed

text \<open>With pointers that are null, the first test of \<open>start\<close> gives a generator that represents the initial node.\<close>

lemma start_represents:
  assumes "g_current g = Null" and "g_previous g = Null" and "bb_header (g_builder g) = empty_header"
  shows "\<exists>g'. start_init alloc g = Inr g' \<and> represents g' initial_node"
  using assms by (simp add: start_init_def new_block_def represents_def initial_node_def Let_def)

text \<open>As the constructor leaves the pointers, the test reads a value that was never set.\<close>

lemma start_reads_unset_pointer: "start_init alloc (Blockchain_new m) = Inl Undefined"
  by (simp add: start_init_def Blockchain_new_def)

definition generator_example :: "jval generator" where
  "generator_example = \<lparr>g_heap = [0 \<mapsto> empty_block], g_previous = Null, g_current = Addr 0, g_builder = \<lparr>bb_current = 0, bb_header = empty_header\<rparr>\<rparr>"

definition alloc_next :: "'j heap \<Rightarrow> nat" where
  "alloc_next m = (if dom m = {} then 0 else Suc (Max (dom m)))"

theorem generator_simulates_produce_witness:
  "\<exists>g' t ws. generator_pass alloc_next env_example None [] generator_example = Inr (g', [], t, ws) \<and> g_previous g' = Addr 0"
proof -
  have rep: "represents generator_example initial_node" by (simp add: represents_def generator_example_def initial_node_def)
  have alloc: "alloc_next m \<notin> dom m" if "finite (dom m)" for m :: "jval heap"
  proof
    assume "alloc_next m \<in> dom m"
    then have "Suc (Max (dom m)) \<in> dom m" by (auto simp: alloc_next_def split: if_splits)
    then show False using Max_ge [OF that] by fastforce
  qed
  obtain st where st: "node_run initial_node [Look, Produce env_example] st" "n_shards st = []" using restart_example by blast
  then obtain st' where "produce env_example None (initial_node \<lparr>n_front := Some None\<rparr>) = Inr st'" "n_shards st' = []"
    by (auto simp: node_run_Cons_iff node_run_nil queue_front_def front_def initial_node_def elim!: lookE produceE)
  moreover have "represents generator_example (initial_node \<lparr>n_front := Some None\<rparr>)" using rep by (simp add: represents_def)
  ultimately obtain g' t ws where "generator_pass alloc_next env_example None [] generator_example = Inr (g', [], t, ws)" "represents g' st'"
    using generator_simulates_produce [of generator_example "initial_node \<lparr>n_front := Some None\<rparr>" alloc_next env_example None] alloc
    by (auto simp: initial_node_def generator_example_def)
  moreover from this(1) have "g_previous g' = Addr 0"
    by (auto simp: generator_pass_def generator_example_def heap_prepare_def heap_genesis_def chain_on_def res_simps advance_def delete_block_def
        new_block_def Let_def split: option.splits sum.splits)
  ultimately show ?thesis by blast
qed

end
