(* ===== verification/Rpc_Method.thy ===== *)
theory Rpc_Method
  imports Json_Lib
begin

text \<open>
  The interface of RPC methods in \<open>server/RpcMethod.h\<close>: the handler that owns a method, and the checks
  of \<open>TransferMethod\<close>. The server includes the file but validates requests in its filters instead.
  The operations of \<open>boost::json\<close> that only this file uses are the fields of a record of their own:
  \<open>je_index\<close> is \<open>as_object()[key]\<close>, which inserts null when the key is missing and thus gives the
  value and the object afterwards; \<open>je_store\<close> is what writing through the reference it returns
  does to the object; \<open>je_emplace\<close> adds a member to an object.
\<close>

record 'j json_edit =
  je_index :: "'j \<Rightarrow> string \<Rightarrow> exn + 'j \<times> 'j"
  je_store :: "'j \<Rightarrow> string \<Rightarrow> 'j \<Rightarrow> 'j"
  je_emplace :: "'j \<Rightarrow> string \<Rightarrow> 'j \<Rightarrow> 'j"
  je_int64 :: "'j \<Rightarrow> exn + int"
  je_of_int :: "int \<Rightarrow> 'j"
  je_of_string :: "string \<Rightarrow> 'j"

section \<open>TransferMethod\<close>

text \<open>\<open>responseJSON.as_object()["error"].as_object().emplace(key, v)\<close>\<close>

definition emplace_error :: "'j json_lib \<Rightarrow> 'j json_edit \<Rightarrow> string \<Rightarrow> 'j \<Rightarrow> 'j \<Rightarrow> exn + 'j" where
  "emplace_error lib ed key v response =
     res_bind (je_index ed response ''error'') (\<lambda>(e, response').
     res_bind (j_object lib e) (\<lambda>e'. Inr (je_store ed response' ''error'' (je_emplace ed e' key v))))"

definition report_error :: "'j json_lib \<Rightarrow> 'j json_edit \<Rightarrow> string \<Rightarrow> 'j \<Rightarrow> exn + 'j" where
  "report_error lib ed text response =
     res_bind (emplace_error lib ed ''code'' (je_of_int ed (-32602)) response) (\<lambda>r1.
     res_bind (emplace_error lib ed ''message'' (je_of_string ed text) r1) (\<lambda>r2.
       emplace_error lib ed ''id'' (je_of_string ed ''null'') r2))"

text \<open>\<open>!params->as_object().contains(k) || ...\<close>, from left to right.\<close>

fun misses_any :: "'j json_lib \<Rightarrow> 'j \<Rightarrow> string list \<Rightarrow> exn + bool" where
  "misses_any lib params [] = Inr False"
| "misses_any lib params (k # ks) =
     res_bind (j_contains lib params k) (\<lambda>has. if \<not> has then Inr True else misses_any lib params ks)"

text \<open>\<open>!params->as_object()["extradata"].as_object().contains(k)\<close>, which may insert the member.\<close>

definition extradata_misses :: "'j json_lib \<Rightarrow> 'j json_edit \<Rightarrow> string \<Rightarrow> 'j \<Rightarrow> exn + bool \<times> 'j" where
  "extradata_misses lib ed k params =
     res_bind (je_index ed params ''extradata'') (\<lambda>(x, params').
     res_bind (j_object lib x) (\<lambda>x'. res_bind (j_contains lib x' k) (\<lambda>has. Inr (\<not> has, params'))))"

definition transfer_fields :: "string list" where
  "transfer_fields = [''from'', ''to'', ''amount'', ''type'', ''r'', ''s'', ''signature'']"

definition misses_fields :: "'j json_lib \<Rightarrow> 'j json_edit \<Rightarrow> 'j \<Rightarrow> exn + bool \<times> 'j" where
  "misses_fields lib ed params =
     res_bind (misses_any lib params transfer_fields) (\<lambda>m. if m then Inr (True, params) else extradata_misses lib ed ''value'' params)"

definition misses_token_fields :: "'j json_lib \<Rightarrow> 'j json_edit \<Rightarrow> 'j \<Rightarrow> exn + bool \<times> 'j" where
  "misses_token_fields lib ed params =
     res_bind (res_bind (j_at lib params ''type'') (je_int64 ed)) (\<lambda>t.
       if t \<noteq> 1 then Inr (False, params)
       else res_bind (j_contains lib params ''extradata'') (\<lambda>has.
         if \<not> has then Inr (True, params)
         else res_bind (extradata_misses lib ed ''name'' params) (\<lambda>(m, params').
           if m then Inr (True, params') else extradata_misses lib ed ''value'' params')))"

text \<open>The result is the response, or \<open>None\<close> for \<open>nullptr\<close>, and the parameters afterwards.\<close>

definition validateRequest :: "'j json_lib \<Rightarrow> 'j json_edit \<Rightarrow> 'j \<Rightarrow> exn + 'j option \<times> 'j" where
  \<open>validateRequest lib ed params =
     res_bind (j_parse lib ''{"jsonrpc": "2.0"}'') (\<lambda>responseJSON.
     res_bind (misses_fields lib ed params) (\<lambda>(m, params').
       if m then res_bind (report_error lib ed ''request doesn't have enough fields'' responseJSON) (\<lambda>r. Inr (Some r, params'))
       else res_bind (misses_token_fields lib ed params') (\<lambda>(m', params'').
         if m' then res_bind (report_error lib ed ''request for transfer tokens should contains 'extradata' field'' responseJSON) (\<lambda>r. Inr (Some r, params''))
         else Inr (None, params''))))\<close>

section \<open>RpcMethodHandler\<close>

text \<open>The handler holds a method or a null pointer, which a default-constructed handler has.\<close>

type_synonym 'j rpc_method = "'j \<Rightarrow> exn + 'j option \<times> 'j"

definition default_handler :: "'j rpc_method option" where
  "default_handler = None"

definition handler_setMethod :: "'j rpc_method option \<Rightarrow> 'j rpc_method option \<Rightarrow> 'j rpc_method option" where
  "handler_setMethod handler m = m"

definition executeValidating :: "'j rpc_method option \<Rightarrow> 'j \<Rightarrow> (exn + 'j option \<times> 'j) option" where
  "executeValidating handler params = map_option (\<lambda>m. m params) handler"

section \<open>Lemmas\<close>

text \<open>
  What the JSON library documents: the parsed text is an object whose only member is \<open>jsonrpc\<close>, so
  \<open>["error"]\<close> gives a new null, and null is not an object.
\<close>

definition index_inserts_null :: "'j json_lib \<Rightarrow> 'j json_edit \<Rightarrow> bool" where
  \<open>index_inserts_null lib ed \<longleftrightarrow>
     (\<forall>v. j_parse lib ''{"jsonrpc": "2.0"}'' = Inr v \<longrightarrow> (\<exists>v'. je_index ed v ''error'' = Inr (j_null lib, v')))
     \<and> (\<exists>e. j_object lib (j_null lib) = Inl e)\<close>

lemma report_throws:
  assumes "index_inserts_null lib ed" and \<open>j_parse lib ''{"jsonrpc": "2.0"}'' = Inr v\<close>
  shows "\<exists>e. report_error lib ed text v = Inl e"
  using assms by (auto simp: report_error_def emplace_error_def index_inserts_null_def)

lemma misses_any_False: "misses_any lib params ks = Inr False \<Longrightarrow> k \<in> set ks \<Longrightarrow> j_contains lib params k = Inr True"
  by (induction ks) (auto simp: res_simps split: if_splits)

text \<open>
  \<open>validateRequest\<close> never returns a response: where a field is missing, it throws while it writes
  the error. It returns \<open>nullptr\<close> only for requests that have every field and, even for a plain
  transfer, an object \<open>extradata\<close> with a value.
\<close>

lemma validateRequest_never_reports:
  assumes "index_inserts_null lib ed" and "validateRequest lib ed params = Inr (r, params')"
  shows "r = None \<and> (\<forall>k \<in> set transfer_fields. j_contains lib params k = Inr True)
    \<and> (\<exists>x p x'. je_index ed params ''extradata'' = Inr (x, p) \<and> j_object lib x = Inr x' \<and> j_contains lib x' ''value'' = Inr True)"
proof -
  obtain v m p1 where v: \<open>j_parse lib ''{"jsonrpc": "2.0"}'' = Inr v\<close> "misses_fields lib ed params = Inr (m, p1)"
    using assms(2) by (auto simp: validateRequest_def res_simps)
  have throws: "\<exists>e. report_error lib ed t v = Inl e" for t by (rule report_throws [OF assms(1) v(1)])
  have m: "\<not> m"
  proof
    assume m
    then show False using assms(2) v throws [of "''request doesn't have enough fields''"] by (auto simp: validateRequest_def)
  qed
  then have "misses_any lib params transfer_fields = Inr False" "extradata_misses lib ed ''value'' params = Inr (False, p1)"
    using v(2) by (auto simp: misses_fields_def res_simps split: if_splits)
  moreover have "r = None"
    using assms(2) v m throws [of "''request for transfer tokens should contains 'extradata' field''"]
    by (auto simp: validateRequest_def res_simps split: if_splits prod.splits)
  ultimately show ?thesis
    using misses_any_False [of lib params transfer_fields] by (auto simp: extradata_misses_def res_simps)
qed

text \<open>The hypothesis holds for the concrete library.\<close>

definition jval_edit :: "jval json_edit" where
  "jval_edit = \<lparr>je_index = (\<lambda>v k. case v of
       JObj kvs \<Rightarrow> (case map_of kvs k of Some x \<Rightarrow> Inr (x, v) | None \<Rightarrow> Inr (JNull, JObj (kvs @ [(k, JNull)])))
     | _ \<Rightarrow> Inl (BoostExn ''not an object'')),
     je_store = (\<lambda>v k x. case v of JObj kvs \<Rightarrow> JObj (map (\<lambda>(k', y). (k', if k' = k then x else y)) kvs) | _ \<Rightarrow> v),
     je_emplace = (\<lambda>v k x. case v of JObj kvs \<Rightarrow> if map_of kvs k = None then JObj (kvs @ [(k, x)]) else v | _ \<Rightarrow> v),
     je_int64 = (\<lambda>v. case v of JNum n \<Rightarrow> Inr n | _ \<Rightarrow> Inl (BoostExn ''not an integer'')), je_of_int = JNum, je_of_string = JStr\<rparr>"

lemma jval_index_inserts_null: "index_inserts_null (jval_lib (\<lambda>_. Some (JObj [(''jsonrpc'', JStr ''2.0'')]))) jval_edit"
  by (simp add: index_inserts_null_def jval_lib_def jval_edit_def)

lemma plain_transfer_throws:
  "\<exists>e. validateRequest (jval_lib (\<lambda>_. Some (JObj [(''jsonrpc'', JStr ''2.0'')]))) jval_edit
     (JObj (map (\<lambda>k. (k, JNum 0)) transfer_fields)) = Inl e"
  by (simp add: validateRequest_def misses_fields_def transfer_fields_def extradata_misses_def jval_lib_def jval_edit_def)

end
