(* ===== verification/Udp_Workers.thy ===== *)
theory Udp_Workers
  imports Udp Event_Machine
begin

text \<open>
  The threads of the UDP server at work on one queue (\<open>udp_server.c\<close>, \<open>queue.c\<close>). The receiving thread pushes a
  message under the lock and signals the condition variable after it has released the lock; a
  worker looks at the counter without the lock, then takes the lock to pop, and sleeps on the
  condition variable when another worker was faster. \<open>Udp_Server\<close> has a worker's pass as one step;
  here the steps are what the lock makes atomic.
\<close>

section \<open>Packet\<close>

text \<open>The packed structure of \<open>udp_package.h\<close>; the payload is an array of pointers without a length.\<close>

record packet_t =
  pk_version :: "16 word"
  pk_data_id :: u64
  pk_pkg_num :: "16 word"
  pk_crc32 :: u32
  pk_prev_pkg_sz :: u32
  pk_pld_sz :: u32
  pk_terminal :: u8
  pk_payload :: "addr list"

definition packet_layout :: "(string \<times> nat) list" where
  "packet_layout = [(''version'', 2), (''data_id'', 8), (''pkg_num'', 2), (''crc32'', 4), (''prev_pkg_sz'', 4), (''pld_sz'', 4), (''terminal'', 1)]"

definition field_offset :: "string \<Rightarrow> nat" where
  "field_offset f = sum_list (map snd (takeWhile (\<lambda>(g, _). g \<noteq> f) packet_layout))"

lemma packet_header_size: "field_offset ''payload'' = 25" "field_offset ''crc32'' = 12"
  by (simp_all add: field_offset_def packet_layout_def)

section \<open>Threads\<close>

datatype worker_phase = Checking | Popping | Sleeping

text \<open>\<open>ut_signal\<close>: the receiving thread has pushed and not signalled yet. \<open>ut_out\<close>: the messages popped so far.\<close>

record udp_threads =
  ut_queue :: queue_t
  ut_workers :: "worker_phase list"
  ut_signal :: bool
  ut_out :: "bytes list"

definition threads_start :: "nat \<Rightarrow> udp_threads" where
  "threads_start n = \<lparr>ut_queue = queue_init, ut_workers = replicate n Checking, ut_signal = False, ut_out = []\<rparr>"

datatype udp_action = Receive bytes | Signal nat | Check nat | Pop nat | Spurious nat

definition in_phase :: "nat \<Rightarrow> worker_phase \<Rightarrow> udp_threads \<Rightarrow> bool" where
  "in_phase i ph s \<longleftrightarrow> i < length (ut_workers s) \<and> ut_workers s ! i = ph"

definition set_phase :: "nat \<Rightarrow> worker_phase \<Rightarrow> udp_threads \<Rightarrow> udp_threads" where
  "set_phase i ph s = s \<lparr>ut_workers := (ut_workers s)[i := ph]\<rparr>"

text \<open>\<open>recvfrom\<close> and \<open>queue_push\<close> up to the release of the lock.\<close>

definition push_step :: "((addr \<rightharpoonup> qnode) \<Rightarrow> addr option) \<Rightarrow> bytes \<Rightarrow> udp_threads \<Rightarrow> udp_threads option" where
  "push_step malloc packet s =
     (if ut_signal s then None
      else map_option (\<lambda>q. s \<lparr>ut_queue := q, ut_signal := True\<rparr>) (receive malloc packet (ut_queue s)))"

text \<open>\<open>pthread_cond_signal\<close> wakes a sleeping thread, the one named, if there is any.\<close>

definition signal_step :: "nat \<Rightarrow> udp_threads \<Rightarrow> udp_threads option" where
  "signal_step i s =
     (if \<not> ut_signal s then None
      else if Sleeping \<notin> set (ut_workers s) then Some (s \<lparr>ut_signal := False\<rparr>)
      else if in_phase i Sleeping s then Some (set_phase i Popping (s \<lparr>ut_signal := False\<rparr>)) else None)"

text \<open>The test of the counter in \<open>thread_function\<close>.\<close>

definition check_step :: "nat \<Rightarrow> udp_threads \<Rightarrow> udp_threads option" where
  "check_step i s =
     (if \<not> in_phase i Checking s then None else Some (if 0 < q_count (ut_queue s) then set_phase i Popping s else s))"

text \<open>The body of \<open>queue_pop\<close> under the lock, up to its release or the wait.\<close>

definition pop_step :: "nat \<Rightarrow> udp_threads \<Rightarrow> udp_threads option" where
  "pop_step i s =
     (if \<not> in_phase i Popping s then None
      else case queue_pop (ut_queue s) of
             Waits \<Rightarrow> Some (set_phase i Sleeping s)
           | Fault \<Rightarrow> None
           | Popped m q \<Rightarrow> Some (set_phase i Checking (s \<lparr>ut_queue := q, ut_out := ut_out s @ [m]\<rparr>)))"

definition workers_step :: "((addr \<rightharpoonup> qnode) \<Rightarrow> addr option) \<Rightarrow> udp_action \<Rightarrow> udp_threads \<Rightarrow> udp_threads option" where
  "workers_step malloc e s =
     (case e of
        Receive packet \<Rightarrow> push_step malloc packet s
      | Signal i \<Rightarrow> signal_step i s
      | Check i \<Rightarrow> check_step i s
      | Pop i \<Rightarrow> pop_step i s
      | Spurious i \<Rightarrow> if in_phase i Sleeping s then Some (set_phase i Popping s) else None)"

section \<open>Invariant\<close>

fun receptions :: "udp_action list \<Rightarrow> bytes list" where
  "receptions [] = []"
| "receptions (Receive packet # es) = (recv_buffer packet @ [0]) # receptions es"
| "receptions (_ # es) = receptions es"

lemma receptions_append [simp]: "receptions (es @ es') = receptions es @ receptions es'"
  by (induction es rule: receptions.induct) auto

definition all_asleep :: "udp_threads \<Rightarrow> bool" where
  "all_asleep s \<longleftrightarrow> (\<forall>ph \<in> set (ut_workers s). ph = Sleeping)"

text \<open>
  What was received is what was popped, in order, and what the queue still holds; and when every
  worker sleeps, the queue is empty or a signal is due.
\<close>

definition threads_invar :: "udp_action list \<Rightarrow> udp_threads \<Rightarrow> bool" where
  "threads_invar es s \<longleftrightarrow> (\<exists>rest. implements_list (ut_queue s) rest \<and> receptions es = ut_out s @ rest
     \<and> (all_asleep s \<longrightarrow> rest = [] \<or> ut_signal s \<or> ut_workers s = []))"

definition guarded_invar :: "((addr \<rightharpoonup> qnode) \<Rightarrow> addr option) \<Rightarrow> nat \<Rightarrow> udp_action list \<Rightarrow> udp_threads \<Rightarrow> bool" where
  "guarded_invar malloc n es s \<longleftrightarrow> length (ut_workers s) = n \<and> (malloc_ok malloc \<and> length (receptions es) < 2 ^ 31 \<longrightarrow> threads_invar es s)"

lemma awake_after: "i < length (ut_workers s) \<Longrightarrow> ph \<noteq> Sleeping \<Longrightarrow> \<not> all_asleep (set_phase i ph s)"
  unfolding all_asleep_def set_phase_def by (auto simp: set_update_memI intro!: bexI [of _ ph])

lemma asleep_first: "all_asleep s \<Longrightarrow> ut_workers s \<noteq> [] \<Longrightarrow> in_phase 0 Sleeping s"
  by (simp add: all_asleep_def in_phase_def)

lemma asleep_member: "all_asleep s \<Longrightarrow> ut_workers s \<noteq> [] \<Longrightarrow> Sleeping \<in> set (ut_workers s)"
  using asleep_first [of s] nth_mem [of 0 "ut_workers s"] by (simp add: in_phase_def)

lemma queue_pop_implements:
  "implements_list q xs \<Longrightarrow> queue_pop q = (if xs = [] then Waits else Popped (hd xs) (case queue_pop q of Popped _ q' \<Rightarrow> q' | _ \<Rightarrow> q))
     \<and> (xs \<noteq> [] \<longrightarrow> implements_list (case queue_pop q of Popped _ q' \<Rightarrow> q' | _ \<Rightarrow> q) (tl xs))"
proof (cases xs)
  case Nil
  then show "implements_list q xs \<Longrightarrow> ?thesis" by (simp add: queue_pop_def implements_list_def)
next
  case (Cons y ys)
  then show "implements_list q xs \<Longrightarrow> ?thesis" using pop_implements [of q y ys] by auto
qed

lemma push_invar:
  assumes "threads_invar es s" and "malloc_ok malloc" and "length (receptions es) < 2 ^ 31 - 1" and "push_step malloc packet s = Some s'"
  shows "threads_invar (es @ [Receive packet]) s'"
proof -
  obtain rest where rest: "implements_list (ut_queue s) rest" "receptions es = ut_out s @ rest" using assms(1) by (auto simp: threads_invar_def)
  then have "length rest < 2 ^ 31 - 1" using assms(3) by simp
  from push_implements [OF assms(2) rest(1) this, of MAX_BUFFER_SIZE "recv_buffer packet"] obtain q where
    q: "receive malloc packet (ut_queue s) = Some q" "implements_list q (rest @ [recv_buffer packet @ [0]])" by (auto simp: receive_def)
  then have "s' = s \<lparr>ut_queue := q, ut_signal := True\<rparr>" using assms(4) by (auto simp: push_step_def split: if_splits)
  then show ?thesis using q(2) rest(2) by (auto simp: threads_invar_def all_asleep_def)
qed

lemma pop_invar:
  assumes "threads_invar es s" and "pop_step i s = Some s'"
  shows "threads_invar (es @ [Pop i]) s'"
proof -
  obtain rest where rest: "implements_list (ut_queue s) rest" "receptions es = ut_out s @ rest" using assms(1) by (auto simp: threads_invar_def)
  have i: "i < length (ut_workers s)" using assms(2) by (auto simp: pop_step_def in_phase_def split: if_splits)
  show ?thesis
  proof (cases rest)
    case Nil
    then have "queue_pop (ut_queue s) = Waits" using queue_pop_implements [OF rest(1)] by simp
    then have "s' = set_phase i Sleeping s" using assms(2) by (auto simp: pop_step_def split: if_splits)
    then show ?thesis using rest Nil by (auto simp: threads_invar_def set_phase_def)
  next
    case (Cons y ys)
    then obtain q where q: "queue_pop (ut_queue s) = Popped y q" "implements_list q ys" using pop_implements rest(1) by blast
    then have s': "s' = set_phase i Checking (s \<lparr>ut_queue := q, ut_out := ut_out s @ [y]\<rparr>)"
      using assms(2) by (auto simp: pop_step_def split: if_splits)
    then have "\<not> all_asleep s'" using awake_after [of i _ Checking] i by simp
    then show ?thesis using q(2) rest(2) Cons s' by (auto simp: threads_invar_def set_phase_def)
  qed
qed

lemma quiet_invar:
  assumes "threads_invar es s" and "receptions [e] = []" and "ut_queue s' = ut_queue s" and "ut_out s' = ut_out s"
    and "all_asleep s' \<Longrightarrow> all_asleep s \<and> ut_signal s' = ut_signal s \<and> (ut_workers s' = [] \<longleftrightarrow> ut_workers s = []) \<or> ut_workers s' = []"
  shows "threads_invar (es @ [e]) s'"
  using assms by (auto simp: threads_invar_def)

lemma workers_step_invar:
  assumes "guarded_invar malloc n es s" and step: "workers_step malloc e s = Some s'"
  shows "guarded_invar malloc n (es @ [e]) s'"
proof -
  have len: "length (ut_workers s') = n"
    using assms by (cases e) (auto simp: guarded_invar_def workers_step_def push_step_def signal_step_def check_step_def pop_step_def set_phase_def
        split: if_splits pop_result.splits)
  have "threads_invar (es @ [e]) s'" if ok: "malloc_ok malloc" "length (receptions (es @ [e])) < 2 ^ 31"
  proof -
    have inv: "threads_invar es s" using assms(1) ok by (simp add: guarded_invar_def)
    show ?thesis
    proof (cases e)
      case (Receive packet)
      then show ?thesis using push_invar [OF inv ok(1)] step ok(2) by (simp add: workers_step_def)
    next
      case (Signal i)
      then show ?thesis
        using step awake_after [of i "s \<lparr>ut_signal := False\<rparr>" Popping] asleep_member [of s']
        by (intro quiet_invar [OF inv]) (auto simp: workers_step_def signal_step_def in_phase_def set_phase_def split: if_splits)
    next
      case (Check i)
      then show ?thesis
        using step awake_after [of i s Popping]
        by (intro quiet_invar [OF inv]) (auto simp: workers_step_def check_step_def in_phase_def set_phase_def split: if_splits)
    next
      case (Pop i)
      then show ?thesis using pop_invar [OF inv] step by (simp add: workers_step_def)
    next
      case (Spurious i)
      then show ?thesis
        using step awake_after [of i s Popping]
        by (intro quiet_invar [OF inv]) (auto simp: workers_step_def in_phase_def set_phase_def split: if_splits)
    qed
  qed
  then show ?thesis using len by (simp add: guarded_invar_def)
qed

lemma threads_start_invar: "guarded_invar malloc n [] (threads_start n)"
  by (auto simp: guarded_invar_def threads_invar_def threads_start_def implements_list_def queue_init_def all_asleep_def)

interpretation workers: history_invariant "workers_step malloc" "threads_start n" "guarded_invar malloc n" for malloc n
  by unfold_locales (rule threads_start_invar, rule workers_step_invar)

section \<open>Properties\<close>

text \<open>
  C10. With any number of workers, and however they and the receiving thread interleave, every received
  packet is handed to exactly one worker, in the order of reception: what was received is what
  was popped so far followed by what the queue holds. A worker that goes to pop never finds the list broken.
  And no wake-up is lost: with at least one worker and a message in the queue, at most two
  steps of the threads, without another packet, pop the next message.
\<close>

theorem udp_workers_deliver:
  assumes "malloc_ok malloc" and "run_events (workers_step malloc) es (threads_start n) = Some s" and "length (receptions es) < 2 ^ 31"
  shows "\<exists>rest. receptions es = ut_out s @ rest \<and> implements_list (ut_queue s) rest
    \<and> (\<forall>i. in_phase i Popping s \<longrightarrow> (\<exists>s'. workers_step malloc (Pop i) s = Some s'))
    \<and> (0 < n \<and> rest \<noteq> [] \<longrightarrow> (\<exists>es' s'. length es' \<le> 2 \<and> receptions es' = [] \<and> run_events (workers_step malloc) es' s = Some s'
          \<and> ut_out s' = ut_out s @ [hd rest]))"
proof -
  have "guarded_invar malloc n es s" by (rule workers.run [OF assms(2)])
  then have n: "length (ut_workers s) = n" and "threads_invar es s" using assms(1,3) by (simp_all add: guarded_invar_def)
  then obtain rest where rest: "implements_list (ut_queue s) rest" "receptions es = ut_out s @ rest"
    "all_asleep s \<Longrightarrow> rest = [] \<or> ut_signal s \<or> ut_workers s = []" by (auto simp: threads_invar_def)
  have pop: "\<exists>s''. workers_step malloc (Pop i) s' = Some s'' \<and> (rest \<noteq> [] \<longrightarrow> ut_out s'' = ut_out s' @ [hd rest])"
    if "in_phase i Popping s'" "ut_queue s' = ut_queue s" for i s'
    using that queue_pop_implements [OF rest(1)]
    by (cases "rest = []") (auto simp: workers_step_def pop_step_def set_phase_def split: pop_result.splits)
  have "\<exists>es' s'. length es' \<le> 2 \<and> receptions es' = [] \<and> run_events (workers_step malloc) es' s = Some s' \<and> ut_out s' = ut_out s @ [hd rest]"
    if ne: "0 < n" "rest \<noteq> []"
  proof -
    have cnt: "0 < q_count (ut_queue s)" using rest(1) ne(2) by (simp add: implements_list_def)
    have two: ?thesis if e: "workers_step malloc e s = Some s1" "receptions [e] = []" "in_phase i Popping s1" "ut_queue s1 = ut_queue s" "ut_out s1 = ut_out s" for e s1 i
    proof -
      obtain s2 where "workers_step malloc (Pop i) s1 = Some s2" "ut_out s2 = ut_out s @ [hd rest]" using pop [OF e(3,4)] ne(2) e(5) by auto
      then show ?thesis using e(1,2) by (intro exI [of _ "[e, Pop i]"] exI [of _ s2]) (cases e; simp)
    qed
    show ?thesis
    proof (cases "all_asleep s")
      case True
      then have sig: "ut_signal s" and ph: "in_phase 0 Sleeping s" and sl: "Sleeping \<in> set (ut_workers s)"
        using rest(3) ne n asleep_first [of s] asleep_member [of s] by auto
      show ?thesis
        using sig ph sl by (intro two [of "Signal 0" "set_phase 0 Popping (s \<lparr>ut_signal := False\<rparr>)" 0])
          (auto simp: workers_step_def signal_step_def in_phase_def set_phase_def)
    next
      case False
      then obtain i where i: "i < n" "ut_workers s ! i \<noteq> Sleeping" using n by (auto simp: all_asleep_def in_set_conv_nth)
      show ?thesis
      proof (cases "ut_workers s ! i")
        case Checking
        then show ?thesis
          using i(1) n cnt by (intro two [of "Check i" "set_phase i Popping s" i]) (auto simp: workers_step_def check_step_def in_phase_def set_phase_def)
      next
        case Popping
        then obtain s' where "workers_step malloc (Pop i) s = Some s'" "ut_out s' = ut_out s @ [hd rest]"
          using pop [of i s] i(1) n ne(2) by (auto simp: in_phase_def)
        then show ?thesis by (intro exI [of _ "[Pop i]"] exI [of _ s']) simp
      qed (use i(2) in simp)
    qed
  qed
  then show ?thesis using rest(1,2) pop [of _ s] by blast
qed

theorem udp_workers_deliver_witness:
  "\<exists>s. run_events (workers_step next_address) [Receive [1], Signal 0, Check 0, Check 1, Pop 1, Pop 0, Receive [2], Signal 0, Pop 0] (threads_start 2) = Some s
     \<and> ut_out s = [recv_buffer [1] @ [0], recv_buffer [2] @ [0]]"
proof -
  let ?es = "[Receive [1], Signal 0, Check 0, Check 1, Pop 1, Pop 0, Receive [2], Signal 0, Pop 0]"
  obtain s where s: "run_events (workers_step next_address) ?es (threads_start 2) = Some s" "q_count (ut_queue s) = 0"
    by (simp add: workers_step_def threads_start_def push_step_def receive_def queue_push_def queue_init_def next_address_def signal_step_def
        check_step_def pop_step_def in_phase_def set_phase_def queue_pop_def Let_def eval_nat_numeral)
  from udp_workers_deliver [OF next_address_ok s(1)] obtain rest where
    "receptions ?es = ut_out s @ rest" "implements_list (ut_queue s) rest" by auto
  then show ?thesis using s by (auto simp: implements_list_def)
qed

end
