(* ===== verification/System.thy ===== *)
theory System
  imports Connections Node
begin

text \<open>
  The threads of the node together: the RPC server, the shard factory, the block generator and the
  explorer, as \<open>UnitInitiator::init\<close> starts them on a shared transaction pool, list of shards and
  explorer queue. The steps are those of the components (\<open>Node.node_step\<close>, \<open>Connections.server_step\<close>,
  \<open>Explorer.session_step\<close>), interleaved in any order. Where a thread touches two shared containers one
  after the other, that is two steps: the handler of a transfer announces the transaction to the
  explorer and then puts it into the pool; the block generator takes its shard from the list, and
  announces the block when it is committed.
\<close>

section \<open>State\<close>

text \<open>
  \<open>sy_handling\<close> holds what the handlers of requests still have to do, with the transactions that are
  not in the pool yet in \<open>rp_pool\<close>; \<open>sy_announced\<close> counts the blocks that the generator has announced.
\<close>

record 'j system =
  sy_node :: "'j node"
  sy_conns :: "rpc_connection list"
  sy_handling :: "nat \<rightharpoonup> 'j rpc"
  sy_explorer :: explorer
  sy_announced :: nat

definition start_system :: "'j system" where
  "start_system = \<lparr>sy_node = initial_node, sy_conns = [], sy_handling = Map.empty,
     sy_explorer = \<lparr>ex_queue = [], ex_state = \<lparr>st_sessions = {}, st_alive = Map.empty\<rparr>, ex_sending = False\<rparr>, sy_announced = 0\<rparr>"

text \<open>What the RPC server sees of the state.\<close>

definition server_view :: "'j system \<Rightarrow> 'j rpc_server" where
  "server_view s = \<lparr>sv_pool = n_pool (sy_node s), sv_explorer = ex_queue (sy_explorer s), sv_conns = sy_conns s\<rparr>"

definition own_event :: "('j, 'p) server_event \<Rightarrow> bool" where
  "own_event e = (case e of Accepted _ \<Rightarrow> True | Response_written _ \<Rightarrow> True | Deadline _ \<Rightarrow> True | _ \<Rightarrow> False)"

text \<open>The handler up to its call of \<open>explorer_queue->emplace_back\<close>, and the rest of it.\<close>

definition begin_request :: "nat \<Rightarrow> 'j rpc \<Rightarrow> 'j system \<Rightarrow> 'j system" where
  "begin_request i r s = s \<lparr>sy_explorer := (sy_explorer s) \<lparr>ex_queue := rp_explorer r\<rparr>,
     sy_handling := (sy_handling s)(i \<mapsto> r \<lparr>rp_pool := drop (length (n_pool (sy_node s))) (rp_pool r)\<rparr>)\<rparr>"

definition end_request :: "nat \<Rightarrow> 'j rpc \<Rightarrow> 'j system \<Rightarrow> 'j system" where
  "end_request i r s = s \<lparr>sy_node := (sy_node s) \<lparr>n_pool := foldl pool_emplaceBack (n_pool (sy_node s)) (rp_pool r)\<rparr>,
     sy_conns := (sy_conns s)[i := write_response r (sy_conns s ! i)], sy_handling := (sy_handling s)(i := None)\<rparr>"

definition set_session :: "nat \<Rightarrow> session option \<Rightarrow> 'j system \<Rightarrow> 'j system" where
  "set_session k o' s =
     (let x = sy_explorer s; sh = ex_state x in s \<lparr>sy_explorer := x \<lparr>ex_state := sh \<lparr>st_alive := (st_alive sh)(k := o')\<rparr>\<rparr>\<rparr>)"

definition on_state :: "(shared_state \<Rightarrow> shared_state) \<Rightarrow> 'j system \<Rightarrow> 'j system" where
  "on_state f s = s \<lparr>sy_explorer := (sy_explorer s) \<lparr>ex_state := f (ex_state (sy_explorer s))\<rparr>\<rparr>"

section \<open>Steps\<close>

datatype ('j, 'p) system_event =
  Rpc "('j, 'p) server_event"
| Handled nat
| Thread "'j event"
| Announce
| Writer_sends
| Writer_pops
| Opened nat
| Upgrade_done bool nat
| Client_sends nat bool string
| Session nat session_event
| Closed nat

text \<open>
  A session object is made for an upgraded connection, joins when the handshake succeeds, and leaves
  when it is destroyed. The block generator is one thread: it starts a pass when it has announced
  the block of the pass before.
\<close>

inductive system_step :: "'j system \<Rightarrow> ('j, 'p) system_event \<Rightarrow> 'j system \<Rightarrow> bool" where
  rpc: "own_event e \<Longrightarrow> server_step e (server_view s) = Some sv \<Longrightarrow> system_step s (Rpc e) (s \<lparr>sy_conns := sv_conns sv\<rparr>)"
| read_failed: "sy_handling s i = None \<Longrightarrow> server_step (Request i env None) (server_view s) = Some sv \<Longrightarrow>
    system_step s (Rpc (Request i env None)) (s \<lparr>sy_conns := sv_conns sv\<rparr>)"
| request: "i < length (sy_conns s) \<Longrightarrow> cn_io (sy_conns s ! i) = Awaiting \<Longrightarrow> cn_open (sy_conns s ! i) \<Longrightarrow> sy_handling s i = None \<Longrightarrow>
    process_request env verb body (new_connection (n_pool (sy_node s)) (ex_queue (sy_explorer s))) = Some r \<Longrightarrow>
    system_step s (Rpc (Request i env (Some (verb, body)))) (begin_request i r s)"
| handled: "sy_handling s i = Some r \<Longrightarrow> system_step s (Handled i) (end_request i r s)"
| thread: "node_step (sy_node s) e n \<Longrightarrow> (\<And>tx. e \<noteq> Submit tx) \<Longrightarrow> (e = Look \<Longrightarrow> sy_announced s = length (n_explorer (sy_node s))) \<Longrightarrow>
    system_step s (Thread e) (s \<lparr>sy_node := n\<rparr>)"
| announce: "sy_announced s < length (n_explorer (sy_node s)) \<Longrightarrow>
    system_step s Announce (s \<lparr>sy_explorer := announce (n_explorer (sy_node s) ! sy_announced s) (sy_explorer s), sy_announced := sy_announced s + 1\<rparr>)"
| writer_sends: "\<not> ex_sending (sy_explorer s) \<Longrightarrow> system_step s Writer_sends (s \<lparr>sy_explorer := writer_send (sy_explorer s)\<rparr>)"
| writer_pops: "ex_sending (sy_explorer s) \<Longrightarrow> system_step s Writer_pops (s \<lparr>sy_explorer := writer_pop (sy_explorer s)\<rparr>)"
| opened: "st_alive (ex_state (sy_explorer s)) k = None \<Longrightarrow> system_step s (Opened k) (set_session k (Some new_session) s)"
| upgrade: "st_alive (ex_state (sy_explorer s)) k \<noteq> None \<Longrightarrow> system_step s (Upgrade_done failed k) (on_state (on_accept failed k) s)"
| client: "st_alive (ex_state (sy_explorer s)) k \<noteq> None \<Longrightarrow> system_step s (Client_sends k failed m) (on_state (on_read failed m) s)"
| session: "st_alive (ex_state (sy_explorer s)) k = Some w \<Longrightarrow> (\<And>m. e \<noteq> Posted m) \<Longrightarrow> session_step w e w' \<Longrightarrow>
    system_step s (Session k e) (set_session k (Some w') s)"
| closed: "st_alive (ex_state (sy_explorer s)) k \<noteq> None \<Longrightarrow> system_step s (Closed k) (on_state (leave k) (set_session k None s))"

inductive system_run :: "('j, 'p) system_event list \<Rightarrow> 'j system \<Rightarrow> bool" where
  start: "system_run [] start_system"
| step: "system_run es s \<Longrightarrow> system_step s e s' \<Longrightarrow> system_run (es @ [e]) s'"

section \<open>The components in the system\<close>

text \<open>The requests of a run, as the RPC server counts them.\<close>

fun rpc_events :: "('j, 'p) system_event list \<Rightarrow> ('j, 'p) server_event list" where
  "rpc_events [] = []"
| "rpc_events (Rpc e # es) = e # rpc_events es"
| "rpc_events (_ # es) = rpc_events es"

lemma rpc_events_append [simp]: "rpc_events (es @ es') = rpc_events es @ rpc_events es'"
  by (induction es rule: rpc_events.induct) auto

lemma set_rpc_events: "e \<in> set (rpc_events es) \<longleftrightarrow> Rpc e \<in> set es"
  by (induction es rule: rpc_events.induct) auto

text \<open>What a request appends: nothing, or the transaction and the announcement of a valid transfer.\<close>

lemma request_appends:
  assumes "process_request env verb body (new_connection pool queue) = Some r"
  shows "(rp_pool r = pool \<and> rp_explorer r = queue)
    \<or> (\<exists>v tx response. verb = verb_post \<and> j_parse (v_lib env) body = Inr v \<and> string_at (v_lib env) v ''method'' = Inr ''transfer''
        \<and> admissible env v tx response \<and> rp_pool r = pool @ [tx] \<and> rp_explorer r = queue @ [response])"
  using process_request_effect [OF assms] by (auto simp: new_connection_def)

text \<open>
  When no step comes between the two parts of a handler, they are the handler of the RPC server as
  one step.
\<close>

lemma request_is_server_step:
  assumes "system_step s (Rpc (Request i env (Some (verb, body)))) s1" and "system_step s1 (Handled i) s2"
  shows "server_step (Request i env (Some (verb, body))) (server_view s) = Some (server_view s2)"
proof -
  obtain r where r: "i < length (sy_conns s)" "cn_io (sy_conns s ! i) = Awaiting" "cn_open (sy_conns s ! i)"
    "process_request env verb body (new_connection (n_pool (sy_node s)) (ex_queue (sy_explorer s))) = Some r" "s1 = begin_request i r s"
    using assms(1) by (auto elim: system_step.cases simp: own_event_def)
  let ?r = "r \<lparr>rp_pool := drop (length (n_pool (sy_node s))) (rp_pool r)\<rparr>"
  have "s2 = end_request i ?r s1" using assms(2) r(5) by (auto elim: system_step.cases simp: begin_request_def)
  moreover have "foldl pool_emplaceBack (n_pool (sy_node s)) (rp_pool ?r) = rp_pool r"
    using request_appends [OF r(4)] by (auto simp: pool_emplaceBack_def emplace_back_def)
  ultimately show ?thesis
    using r by (simp add: server_step_def read_request_def server_view_def begin_request_def end_request_def write_response_def)
qed

section \<open>Refinement of the node\<close>

text \<open>
  The transactions that the handlers still hold belong to requests of the run, and the node's part
  of the state is reached by a run of \<open>node_step\<close> that submits only transactions of such requests.
\<close>

definition handling_invar :: "('j, 'p) system_event list \<Rightarrow> 'j system \<Rightarrow> bool" where
  "handling_invar es s \<longleftrightarrow> (\<forall>i r. sy_handling s i = Some r \<longrightarrow> (\<forall>tx \<in> set (rp_pool r). requested (rpc_events es) tx))"

definition node_refines :: "('j, 'p) system_event list \<Rightarrow> 'j system \<Rightarrow> bool" where
  "node_refines es s \<longleftrightarrow> (\<exists>ns. node_run initial_node ns (sy_node s) \<and> (\<forall>tx. Submit tx \<in> set ns \<longrightarrow> requested (rpc_events es) tx)
     \<and> (\<forall>env. Produce env \<in> set ns \<longrightarrow> Thread (Produce env) \<in> set es))"

lemma request_requested:
  assumes "process_request env verb body (new_connection pool queue) = Some r" and "tx \<in> set (drop (length pool) (rp_pool r))"
  shows "requested (es @ [Request i env (Some (verb, body))]) tx"
proof -
  obtain v tx' response where new: "verb = verb_post" "j_parse (v_lib env) body = Inr v" "string_at (v_lib env) v ''method'' = Inr ''transfer''"
    "admissible env v tx' response" "rp_pool r = pool @ [tx']"
    using request_appends [OF assms(1)] assms(2) by auto
  have "Request i env (Some (verb_post, body)) \<in> set (es @ [Request i env (Some (verb, body))])" using new(1) by simp
  moreover have "tx = tx'" using assms(2) new(5) by simp
  ultimately show ?thesis using new(2-4) unfolding requested_def by blast
qed

lemma requested_snoc: "requested (rpc_events es) tx \<Longrightarrow> requested (rpc_events (es @ [e])) tx"
  using requested_mono [of "rpc_events es" tx "rpc_events [e]"] by simp

lemma handling_step:
  assumes "system_step s e s'" and "handling_invar es s"
  shows "handling_invar (es @ [e]) s'"
  using assms
proof (induction rule: system_step.induct)
  case (request i s env verb body r)
  let ?es = "es @ [Rpc (Request i env (Some (verb, body)))]" and ?r = "r \<lparr>rp_pool := drop (length (n_pool (sy_node s))) (rp_pool r)\<rparr>"
  have "requested (rpc_events ?es) tx" if "sy_handling (begin_request i r s) j = Some r'" "tx \<in> set (rp_pool r')" for j r' tx
  proof (cases "j = i")
    case True
    then have "r' = ?r" using that(1) by (simp add: begin_request_def)
    then show ?thesis using request_requested [OF request(5), of tx "rpc_events es" i] that(2) by simp
  next
    case False
    then have "sy_handling s j = Some r'" using that(1) by (simp add: begin_request_def)
    then show ?thesis using request(6) that(2) requested_snoc [of es] unfolding handling_invar_def by blast
  qed
  then show ?case by (simp add: handling_invar_def)
next
  case (handled s i r)
  then show ?case using requested_snoc [of es] by (fastforce simp: handling_invar_def end_request_def)
qed (auto simp: handling_invar_def set_session_def on_state_def Let_def intro!: requested_mono)

lemma submits_run: "node_run st (map Submit txs) (st \<lparr>n_pool := foldl pool_emplaceBack (n_pool st) txs\<rparr>)"
proof (induction txs arbitrary: st)
  case (Cons tx txs)
  show ?case
    using node_run_Cons [OF Cons [of "st \<lparr>n_pool := pool_emplaceBack (n_pool st) tx\<rparr>"] node_step.submit] by simp
qed (simp add: node_run.nil)

lemma node_refines_keep:
  "node_refines es s \<Longrightarrow> sy_node s' = sy_node s \<Longrightarrow> node_refines (es @ [e]) s'"
  unfolding node_refines_def set_append using requested_snoc [of es] by (metis UnCI)

lemma node_refines_step:
  assumes "system_step s e s'" and "node_refines es s" and "handling_invar es s"
  shows "node_refines (es @ [e]) s'"
proof -
  obtain ns where ns: "node_run initial_node ns (sy_node s)" "\<And>tx. Submit tx \<in> set ns \<Longrightarrow> requested (rpc_events es) tx"
    "\<And>env. Produce env \<in> set ns \<Longrightarrow> Thread (Produce env) \<in> set es"
    using assms(2) by (auto simp: node_refines_def)
  have ext: "node_refines (es @ [e]) s'" if run: "node_run (sy_node s) ns' (sy_node s')" and sub: "\<And>tx. Submit tx \<in> set ns' \<Longrightarrow> requested (rpc_events es) tx"
    and prod: "\<And>env. Produce env \<in> set ns' \<Longrightarrow> e = Thread (Produce env)" for ns'
    unfolding node_refines_def using node_run_append [OF run ns(1)] ns(2,3) sub prod requested_snoc [of es]
    by (intro exI [of _ "ns @ ns'"]) auto
  show ?thesis
    using assms(1)
  proof cases
    case (handled i r)
    then show ?thesis
      using submits_run [of "sy_node s" "rp_pool r"] assms(3)
      by (intro ext [of "map Submit (rp_pool r)"]) (auto simp: end_request_def handling_invar_def)
  next
    case (thread e' n)
    then show ?thesis using node_run_Cons [OF node_run.nil thread(3)] by (intro ext [of "[e']"]) auto
  qed (auto simp: begin_request_def set_session_def on_state_def Let_def intro: node_refines_keep [OF assms(2)])
qed

lemma system_refines:
  "system_run es s \<Longrightarrow> node_refines es s \<and> handling_invar es s"
proof (induction rule: system_run.induct)
  case start
  show ?case
    by (auto simp: node_refines_def handling_invar_def start_system_def intro!: exI [of _ "[]"] node_run.nil)
next
  case (step es s e s')
  then show ?case using node_refines_step handling_step by blast
qed

lemma run_provenance:
  "node_run st es st' \<Longrightarrow> holds_tx st' tx \<Longrightarrow> holds_tx st tx \<or> Submit tx \<in> set es \<or> (\<exists>env. Produce env \<in> set es \<and> genesis_tx env tx)"
proof (induction rule: node_run.induct)
  case (step st es st' e st'')
  then show ?case using step_provenance [OF step(2)] by fastforce
qed simp

section \<open>Messages of the explorer\<close>

text \<open>The announcements of valid transfers, and what may stand in the explorer queue.\<close>

definition announces_transfer :: "('j, 'p) server_event list \<Rightarrow> string \<Rightarrow> bool" where
  "announces_transfer es m \<longleftrightarrow> (\<exists>i env body v tx. Request i env (Some (verb_post, body)) \<in> set es \<and> j_parse (v_lib env) body = Inr v
     \<and> string_at (v_lib env) v ''method'' = Inr ''transfer'' \<and> admissible env v tx m)"

definition announcement :: "('j, 'p) system_event list \<Rightarrow> 'j system \<Rightarrow> string \<Rightarrow> bool" where
  "announcement es s m \<longleftrightarrow> announces_transfer (rpc_events es) m \<or> (\<exists>b \<in> set (n_chain (sy_node s)). serializeBlock b = Some m)"

definition sent_message :: "('j, 'p) system_event list \<Rightarrow> 'j system \<Rightarrow> string \<Rightarrow> bool" where
  "sent_message es s m \<longleftrightarrow> announcement es s m \<or> (\<exists>k. Client_sends k False m \<in> set es)"

definition session_messages :: "session \<Rightarrow> string set" where
  "session_messages w = set (ws_posted w) \<union> set (ws_queue w) \<union> set (ws_written w) \<union> set_option (ws_writing w)"

definition explorer_invar :: "('j, 'p) system_event list \<Rightarrow> 'j system \<Rightarrow> bool" where
  "explorer_invar es s \<longleftrightarrow> (\<forall>m \<in> set (ex_queue (sy_explorer s)). announcement es s m)
     \<and> (\<forall>k w. st_alive (ex_state (sy_explorer s)) k = Some w \<longrightarrow> (\<forall>m \<in> session_messages w. sent_message es s m))"

text \<open>A session takes its messages from what was posted to it.\<close>

lemma session_step_messages:
  "session_step w e w' \<Longrightarrow> (\<And>m. e \<noteq> Posted m) \<Longrightarrow> session_messages w' \<subseteq> session_messages w"
proof (induction rule: session_step.induct)
  case (strand w m ms)
  then show ?case by (auto simp: session_messages_def on_send_def emplace_back_def Let_def hd_append split: if_splits)
next
  case (written w m)
  have "set (tl (ws_queue w)) \<subseteq> set (ws_queue w)" by (cases "ws_queue w") auto
  then show ?case using written hd_in_set [of "tl (ws_queue w)"] by (auto simp: session_messages_def on_write_def Let_def split: if_splits)
qed (auto simp: session_messages_def on_write_def)

lemma broadcast_messages:
  assumes "st_alive (broadcast m st) k = Some w"
  shows "\<exists>w0. st_alive st k = Some w0 \<and> session_messages w \<subseteq> insert m (session_messages w0)"
  using assms by (auto simp: broadcast_def session_messages_def ws_send_def split: if_splits)

lemma announces_mono: "announces_transfer es m \<Longrightarrow> announces_transfer (es @ es') m"
  unfolding announces_transfer_def set_append by blast

lemma request_announces:
  assumes "process_request env verb body (new_connection pool queue) = Some r" and "m \<in> set (rp_explorer r)"
  shows "m \<in> set queue \<or> announces_transfer (es @ [Request i env (Some (verb, body))]) m"
proof (cases "rp_explorer r = queue")
  case False
  then obtain v tx response where new: "verb = verb_post" "j_parse (v_lib env) body = Inr v" "string_at (v_lib env) v ''method'' = Inr ''transfer''"
    "admissible env v tx response" "rp_explorer r = queue @ [response]"
    using request_appends [OF assms(1)] by auto
  have "Request i env (Some (verb_post, body)) \<in> set (es @ [Request i env (Some (verb, body))])" using new(1) by simp
  then have "announces_transfer (es @ [Request i env (Some (verb, body))]) response" using new(2-4) unfolding announces_transfer_def by blast
  then show ?thesis using assms(2) new(5) by auto
qed (use assms(2) in simp)

text \<open>The chain only grows, so what is an announcement stays one.\<close>

lemma chain_grows: "node_step st e st' \<Longrightarrow> set (n_chain st) \<subseteq> set (n_chain st')"
proof (induction rule: node_step.induct)
  case (produce st opShard env st')
  then obtain b st1 b' p where run: "prepare_block env opShard st = Inr (b, st1)" "commit_block b' p st1 = Inr st'"
    by (auto simp: produce_def res_simps)
  then show ?case using prepare_keeps(1) [OF run(1)] by (auto simp: commit_block_def split: option.splits)
qed auto

lemma system_chain_grows: "system_step s e s' \<Longrightarrow> set (n_chain (sy_node s)) \<subseteq> set (n_chain (sy_node s'))"
  by (induction rule: system_step.induct)
    (auto simp: begin_request_def end_request_def set_session_def on_state_def Let_def dest: chain_grows)

lemma announcement_step: "system_step s e s' \<Longrightarrow> announcement es s m \<Longrightarrow> announcement (es @ [e]) s' m"
  using system_chain_grows announces_mono [of "rpc_events es" m "rpc_events [e]"] by (fastforce simp: announcement_def)

lemma sent_message_step: "system_step s e s' \<Longrightarrow> sent_message es s m \<Longrightarrow> sent_message (es @ [e]) s' m"
  using announcement_step [of s e s' es m] by (auto simp: sent_message_def)

text \<open>A step that neither extends the queue nor posts to a session keeps the invariant.\<close>

lemma explorer_keep:
  assumes "system_step s e s'" and "explorer_invar es s" and "set (ex_queue (sy_explorer s')) \<subseteq> set (ex_queue (sy_explorer s))"
    and "\<And>k w. st_alive (ex_state (sy_explorer s')) k = Some w \<Longrightarrow>
      \<exists>w0. (st_alive (ex_state (sy_explorer s)) k = Some w0 \<or> w0 = new_session) \<and> session_messages w \<subseteq> session_messages w0"
  shows "explorer_invar (es @ [e]) s'"
proof -
  have "announcement (es @ [e]) s' m" if "m \<in> set (ex_queue (sy_explorer s'))" for m
    using that assms(2,3) announcement_step [OF assms(1)] by (auto simp: explorer_invar_def)
  moreover have "sent_message (es @ [e]) s' m" if w: "st_alive (ex_state (sy_explorer s')) k = Some w" "m \<in> session_messages w" for k w m
  proof -
    obtain w0 where "st_alive (ex_state (sy_explorer s)) k = Some w0 \<or> w0 = new_session" "m \<in> session_messages w0"
      using assms(4) [OF w(1)] w(2) by blast
    then have "sent_message es s m" using assms(2) by (auto simp: explorer_invar_def session_messages_def new_session_def)
    then show ?thesis by (rule sent_message_step [OF assms(1)])
  qed
  ultimately show ?thesis by (simp add: explorer_invar_def)
qed

lemma system_chain_invar: "system_run es s \<Longrightarrow> chain_invar (sy_node s)"
  using system_refines run_invar initial_invar by (fastforce simp: node_refines_def)

lemma explorer_step:
  assumes step: "system_step s e s'" and inv: "explorer_invar es s" and chain: "chain_invar (sy_node s)"
  shows "explorer_invar (es @ [e]) s'"
  using step
proof cases
  case (request i env verb body r)
  have "announcement (es @ [e]) s' m" if "m \<in> set (rp_explorer r)" for m
    using request_announces [OF request(7) that, of "rpc_events es" i]
  proof
    assume "m \<in> set (ex_queue (sy_explorer s))"
    then have "announcement es s m" using inv by (simp add: explorer_invar_def)
    then show ?thesis by (rule announcement_step [OF step])
  qed (simp add: announcement_def request(1))
  then show ?thesis using inv sent_message_step [OF step] request(2) by (auto simp: explorer_invar_def begin_request_def)
next
  case announce
  let ?t = "n_explorer (sy_node s) ! sy_announced s"
  have "\<exists>b \<in> set (n_chain (sy_node s)). serializeBlock b = Some ?t" using chain announce(3) by (fastforce simp: chain_invar_def)
  then have "announcement (es @ [e]) s' ?t" using announce(2) by (simp add: announcement_def)
  then show ?thesis
    using inv announcement_step [OF step] sent_message_step [OF step] announce(2) by (auto simp: explorer_invar_def announce_def emplace_back_def)
next
  case writer_sends
  let ?m = "last (ex_queue (sy_explorer s))"
  show ?thesis
  proof (cases "ex_queue (sy_explorer s) = []")
    case False
    then have m: "sent_message (es @ [e]) s' ?m" using inv sent_message_step [OF step] by (simp add: explorer_invar_def sent_message_def)
    have "sent_message (es @ [e]) s' m'" if "st_alive (broadcast ?m (ex_state (sy_explorer s))) k = Some w" "m' \<in> session_messages w" for k w m'
      using broadcast_messages [OF that(1)] that(2) m inv sent_message_step [OF step] by (fastforce simp: explorer_invar_def)
    then show ?thesis using inv announcement_step [OF step] writer_sends(2) False by (auto simp: explorer_invar_def writer_send_def)
  qed (use inv announcement_step [OF step] sent_message_step [OF step] writer_sends(2) in \<open>auto simp: explorer_invar_def writer_send_def\<close>)
next
  case (client k failed m)
  have "sent_message (es @ [e]) s' m'" if "\<not> failed" "st_alive (broadcast m (ex_state (sy_explorer s))) k' = Some w" "m' \<in> session_messages w" for k' w m'
  proof (cases "m' = m")
    case True
    then show ?thesis using client(1) that(1) by (auto simp: sent_message_def)
  next
    case False
    then show ?thesis using broadcast_messages [OF that(2)] that(3) inv sent_message_step [OF step] by (fastforce simp: explorer_invar_def)
  qed
  then show ?thesis
    using inv announcement_step [OF step] sent_message_step [OF step] client(2) by (auto simp: explorer_invar_def on_state_def on_read_def)
next
  case (session k w e' w')
  from session_step_messages [OF session(5,4)] have "session_messages w' \<subseteq> session_messages w" .
  then show ?thesis using session(2,3) by (intro explorer_keep [OF step inv]) (auto simp: set_session_def Let_def split: if_splits)
qed (rule explorer_keep [OF step inv];
    auto simp: begin_request_def end_request_def set_session_def on_state_def on_accept_def join_def leave_def writer_pop_def Let_def
      split: if_splits dest: in_set_butlastD)+

lemma system_explorer: "system_run es s \<Longrightarrow> explorer_invar es s"
proof (induction rule: system_run.induct)
  case start
  show ?case by (simp add: explorer_invar_def start_system_def)
next
  case (step es s e s')
  then show ?case using explorer_step system_chain_invar by blast
qed

section \<open>Runs of the threads\<close>

text \<open>
  A run of the shard factory and the block generator is a run of the system, when the blocks so
  far are announced and the run ends with its first block.
\<close>

lemma explorer_unless_produce: "node_step st e st' \<Longrightarrow> (\<And>env. e \<noteq> Produce env) \<Longrightarrow> n_explorer st' = n_explorer st"
  by (induction rule: node_step.induct) auto

lemma threads_run:
  assumes "node_run st ns st'" and "system_run es s" and "sy_node s = st" and "sy_announced s = length (n_explorer st)"
    and "\<forall>e \<in> set ns. \<forall>tx. e \<noteq> Submit tx" and "\<forall>e \<in> set (butlast ns). \<forall>env. e \<noteq> Produce env"
  shows "system_run (es @ map Thread ns) (s \<lparr>sy_node := st'\<rparr>)
    \<and> ((\<forall>e \<in> set ns. \<forall>env. e \<noteq> Produce env) \<longrightarrow> n_explorer st' = n_explorer st)"
  using assms
proof (induction rule: node_run.induct)
  case (nil st)
  then show ?case by (cases s) simp
next
  case (step st ns st' e st'')
  let ?s = "s \<lparr>sy_node := st'\<rparr>"
  have ih: "system_run (es @ map Thread ns) ?s" "n_explorer st' = n_explorer st"
    using step by (simp_all add: in_set_butlastD)
  have "system_step ?s (Thread e) (?s \<lparr>sy_node := st''\<rparr>)"
    using step(2,6,7) ih(2) by (intro system_step.thread) simp_all
  from system_run.step [OF ih(1) this] show ?case using explorer_unless_produce [OF step(2)] ih(2) by simp
qed

text \<open>The blocks of the whole system form a chain.\<close>

lemma system_chain_linked:
  assumes "system_run es s" and "Suc i < length (n_chain (sy_node s))"
  shows "linked (n_chain (sy_node s) ! i) (n_chain (sy_node s) ! Suc i)"
  using system_chain_invar [OF assms(1)] assms(2) by (simp add: chain_invar_def)

section \<open>Properties\<close>

text \<open>
  C2. In every run of the whole program, with all its threads interleaved in any order, the node's
  part of the state is reached by a run of the node in which every submitted transaction is the
  transaction of a valid signed transfer that some RPC connection received. So every transaction in the pool, in a
  shard, in the hands of a thread or in a block of the chain was requested that way, or it is
  the transaction of the genesis block.
\<close>

theorem system_transactions_requested:
  assumes "system_run es s"
  shows "(\<exists>ns. node_run initial_node ns (sy_node s) \<and> (\<forall>tx. Submit tx \<in> set ns \<longrightarrow> requested (rpc_events es) tx))
    \<and> (\<forall>tx. holds_tx (sy_node s) tx \<longrightarrow>
         requested (rpc_events es) tx \<or> (\<exists>env. Thread (Produce env) \<in> set es \<and> genesis_tx env tx))"
proof -
  obtain ns where ns: "node_run initial_node ns (sy_node s)" "\<forall>tx. Submit tx \<in> set ns \<longrightarrow> requested (rpc_events es) tx"
    "\<forall>env. Produce env \<in> set ns \<longrightarrow> Thread (Produce env) \<in> set es"
    using system_refines [OF assms] by (auto simp: node_refines_def)
  moreover have "\<not> holds_tx initial_node tx" for tx by (simp add: holds_tx_def initial_node_def)
  ultimately show ?thesis using run_provenance [OF ns(1)] by blast
qed

lemma example_request:
  "\<exists>s r tx response. system_run [Rpc (Accepted False), Rpc (Request 0 rpc_example (Some (verb_post, ''good'')))] s
     \<and> sy_handling s 0 = Some r \<and> rp_pool r = [tx] \<and> sy_node s = initial_node \<and> ex_queue (sy_explorer s) = [response]
     \<and> \<not> ex_sending (sy_explorer s) \<and> st_alive (ex_state (sy_explorer s)) = Map.empty"
proof -
  let ?s = "start_system \<lparr>sy_conns := [connection_start]\<rparr>"
  have "system_step start_system (Rpc (Accepted False)) ?s"
    using system_step.rpc [of "Accepted False" start_system]
    by (simp add: own_event_def server_step_def http_server_def server_view_def start_system_def)
  then have acc: "system_run [Rpc (Accepted False)] ?s" using system_run.step [OF system_run.start] by simp
  obtain tx response where adm: "admissible rpc_example (request_example (JNum 1)) tx response" using example_admissible by blast
  obtain r where r: "process_request rpc_example verb_post ''good'' (new_connection [] []) = Some r" "rp_pool r = [tx]" "rp_explorer r = [response]"
    using process_instruction_transfer [OF example_parses(3) adm, of "new_connection [] []"] example_parses(1,4)
    by (auto simp: process_request_def new_connection_def submitted_def create_success_response_def)
  have "system_step ?s (Rpc (Request 0 rpc_example (Some (verb_post, ''good'')))) (begin_request 0 r ?s)"
    using r(1) by (intro system_step.request) (simp_all add: start_system_def connection_start_def initial_node_def)
  from system_run.step [OF acc this] show ?thesis
    using r(2,3) by (intro exI [of _ "begin_request 0 r ?s"]) (simp add: begin_request_def start_system_def initial_node_def)
qed

theorem system_transactions_requested_witness:
  "\<exists>s tx. system_run [Rpc (Accepted False), Rpc (Request 0 rpc_example (Some (verb_post, ''good''))), Handled 0] s
     \<and> n_pool (sy_node s) = [tx] \<and> requested [Accepted False, Request 0 rpc_example (Some (verb_post, ''good''))] tx"
proof -
  let ?es = "[Rpc (Accepted False), Rpc (Request 0 rpc_example (Some (verb_post, ''good''))), Handled 0]"
  obtain s r tx where s: "system_run [Rpc (Accepted False), Rpc (Request 0 rpc_example (Some (verb_post, ''good'')))] s"
    "sy_handling s 0 = Some r" "rp_pool r = [tx]" "sy_node s = initial_node"
    using example_request by blast
  let ?s = "end_request 0 r s"
  have run: "system_run ?es ?s" using system_run.step [OF s(1) system_step.handled [OF s(2)]] by simp
  have pool: "n_pool (sy_node ?s) = [tx]" by (simp add: end_request_def s(3,4) initial_node_def pool_emplaceBack_def emplace_back_def)
  then have "holds_tx (sy_node ?s) tx" by (simp add: holds_tx_def)
  then show ?thesis using system_transactions_requested [OF run] run pool by auto
qed

text \<open>
  C12. Every message that the explorer has posted to, queued for, is writing to or has written to a
  web socket client is the announcement of a valid transfer that was received, the text of a
  block of the chain, or a message that some client sent; and the explorer queue holds only messages of the
  first two kinds.
\<close>

theorem explorer_messages_genuine:
  assumes "system_run es s"
  shows "(\<forall>m \<in> set (ex_queue (sy_explorer s)).
        announces_transfer (rpc_events es) m \<or> (\<exists>b \<in> set (n_chain (sy_node s)). serializeBlock b = Some m))
    \<and> (\<forall>k w. st_alive (ex_state (sy_explorer s)) k = Some w \<longrightarrow> (\<forall>m \<in> session_messages w.
        announces_transfer (rpc_events es) m \<or> (\<exists>b \<in> set (n_chain (sy_node s)). serializeBlock b = Some m)
        \<or> (\<exists>k. Client_sends k False m \<in> set es)))"
  using system_explorer [OF assms] unfolding explorer_invar_def sent_message_def announcement_def by blast

theorem explorer_messages_genuine_witness:
  "\<exists>s w m. system_run [Rpc (Accepted False), Rpc (Request 0 rpc_example (Some (verb_post, ''good''))), Opened 3, Upgrade_done False 3, Writer_sends] s
     \<and> st_alive (ex_state (sy_explorer s)) 3 = Some w \<and> ws_posted w = [m]
     \<and> announces_transfer [Accepted False, Request 0 rpc_example (Some (verb_post, ''good''))] m"
proof -
  let ?es = "[Rpc (Accepted False), Rpc (Request 0 rpc_example (Some (verb_post, ''good'')))]"
  obtain s m where s: "system_run ?es s" "sy_node s = initial_node" "ex_queue (sy_explorer s) = [m]"
    "\<not> ex_sending (sy_explorer s)" "st_alive (ex_state (sy_explorer s)) = Map.empty"
    using example_request by blast
  let ?s1 = "set_session 3 (Some new_session) s" let ?s2 = "on_state (on_accept False 3) ?s1" let ?s3 = "?s2 \<lparr>sy_explorer := writer_send (sy_explorer ?s2)\<rparr>"
  note defs = set_session_def on_state_def on_accept_def join_def writer_send_def Let_def
  have "system_run (?es @ [Opened 3]) ?s1" using system_run.step [OF s(1) system_step.opened [of s 3]] s(5) by simp
  then have "system_run ((?es @ [Opened 3]) @ [Upgrade_done False 3]) ?s2"
    by (rule system_run.step [OF _ system_step.upgrade]) (simp add: defs)
  then have "system_run (((?es @ [Opened 3]) @ [Upgrade_done False 3]) @ [Writer_sends]) ?s3"
    by (rule system_run.step [OF _ system_step.writer_sends]) (simp add: defs s(4))
  then have run: "system_run (?es @ [Opened 3, Upgrade_done False 3, Writer_sends]) ?s3" by simp
  have w: "st_alive (ex_state (sy_explorer ?s3)) 3 = Some (ws_send m new_session)"
    by (simp add: defs s(3) broadcast_def)
  then have "announces_transfer (rpc_events (?es @ [Opened 3, Upgrade_done False 3, Writer_sends])) m"
    using explorer_messages_genuine [OF run] s(2)
    by (auto simp: session_messages_def ws_send_def new_session_def set_session_def on_state_def Let_def initial_node_def)
  then show ?thesis using run w by (intro exI [of _ ?s3]) (simp add: ws_send_def new_session_def)
qed

end
