(* ===== verification/Spec2Isabelle.thy ===== *)
theory Spec2Isabelle
  imports Hex_Codec Block_Stream Sha3 Kec256 Merkle Sha256 Sha512 Bip44 Ecdsa Node Db Rpc Udp Explorer Initiator Connections Filter_Chain Locked Lazy_Pointer Tasks Udp_Server Builder
    Rpc_Method Udp_Workers System
begin

text \<open>
  This development verifies Unit, a blockchain node in C++ (\<open>src/unit\<close>) with a UDP library in C
  (\<open>src/src/server_library/udp\<close>).

  \<^bold>\<open>The program.\<close> \<open>main.cpp\<close> calls \<open>UnitInitiator::init\<close>, which reads the flags, derives the wallet of
  the prover (BIP-39 mnemonic, BIP-32 and BIP-44 keys, base-58 address) and starts four threads.
  The RPC server accepts connections and puts valid signed transfers into the transaction pool. The
  shard factory turns the pool into signed shards. The block generator takes a shard, builds a block
  (SHA3 hash, Merkle root, signature), runs the transaction processor over it, which moves balances
  between the accounts in RocksDB, and commits block and accounts. The explorer announces
  transactions and blocks to web socket clients and serves files. The threads share the pool, the
  list of shards and the explorer queue, which are containers with a lock per method.

  \<^bold>\<open>How the model corresponds to the code.\<close> Classes and structs are records, enums are datatypes,
  integers are words of their width, and each function is a definition with the name it has in the
  source where that is free. An exception that leaves a function is \<open>Inl\<close>; undefined behaviour and
  not returning are \<open>None\<close>, or a constructor of their own where the two have to be told apart.
  Handlers that Boost.Asio calls and actions of threads are steps of transition relations.

  \<^item> \<open>Unit_Prelude\<close>, \<open>Event_Machine\<close>, \<open>Block_Stream\<close>: words, hexadecimal and decimal text, the error
    monad; runs of event-driven components with the locale \<open>history_invariant\<close>; the locale
    \<open>block_stream\<close> for incremental hashing, which the three hash classes interpret.
  \<^item> \<open>Hex_Codec\<close>: \<open>crypto/Hex.h\<close>, \<open>bip44/utils.hpp\<close>. Decoding inverts encoding.
  \<^item> \<open>Sha3\<close> (\<open>crypto/SHA3\<close>), \<open>Kec256\<close> (\<open>crypto/keccak\<close>), \<open>Sha256\<close> (\<open>bip44/SHA256\<close>), \<open>Sha512\<close>
    (\<open>crypto/SHA512\<close>, \<open>crypto/HMAC_512\<close>): every class computes the standard function on whole
    messages, however the data is cut, with the bounds the code has.
  \<^item> \<open>Merkle\<close> (\<open>trees/MerkleTree\<close>): construction ends for nonempty leaves, stays in the array, gives the
    balanced hash tree, and the root binds the leaves up to a collision.
  \<^item> \<open>Bip39_Words\<close>, \<open>Bip39\<close>, \<open>Base58\<close>, \<open>Bip32\<close>, \<open>Bip44\<close>, \<open>Ecdsa\<close> (\<open>bip44/*.hpp\<close>): mnemonics encode their
    entropy and checksum; base-58 text is the positional representation and the digit array
    suffices; node derivation refines the BIP-32 functions, addresses the BIP-44 path; verification
    accepts genuine signatures.
  \<^item> \<open>Json_Lib\<close>: the interface of \<open>boost::json\<close> and \<open>uint256_t\<close> that the program uses, with a concrete
    instance for witnesses.
  \<^item> \<open>Transactions\<close>, \<open>Accounts\<close>, \<open>Ledger\<close> (\<open>Transaction.h\<close>, \<open>account/*.h\<close>, \<open>TransactionProcessor.h\<close>): the
    transaction loop refines a ledger of balances and conserves the total; the hash binds the
    content; and the cases in which the loop does not do what it should.
  \<^item> \<open>Containers\<close>, \<open>Locked\<close> (\<open>containers/vector.h\<close>, \<open>list.h\<close>, \<open>unordered_set.h\<close>): the methods on the storage;
    threads that lock in order never deadlock, crosswise assignment does. The locale \<open>back_reader\<close>
    is the loop, of the explorer and of the database writer, that sends the last entry of a queue
    and then clears the queue.
  \<^item> \<open>Blocks\<close>, \<open>Node\<close> (\<open>blockchain/block\<close>, \<open>pools\<close>, \<open>ShardInserter.h\<close>, \<open>Blockchain.h\<close>): the transition
    relation \<open>node_step\<close> of the running node; every block carries the hash and the next index of the
    one before; the threads are never stuck; what a pass of the factory and of the generator can lose.
  \<^item> \<open>Builder\<close> (\<open>block/Block.h\<close>, \<open>Blockchain.h\<close>): \<open>BlockBuilder\<close> and the generator on a heap of block objects,
    with the pointers to the previous and the current block; a pass on the heap implements \<open>produce\<close>.
  \<^item> \<open>Db\<close> (\<open>db/DB.h\<close>, \<open>JsonMergeOperator.h\<close>, \<open>DBWriter.h\<close>): when reads return and what they return, and
    reading back what was committed; the options a database is opened with, and the writer thread.
  \<^item> \<open>Rpc\<close>, \<open>Rpc_Method\<close>, \<open>Filter_Chain\<close>, \<open>Connections\<close> (\<open>RpcMethod.h\<close>, \<open>RpcFilterChain.h\<close>, \<open>ServerIncludes.h\<close>, \<open>Server.h\<close>): exactly the
    valid transfers enter the pool, every request is answered once, the filter objects are freed
    once, and the same for all connections together; when the server starts at all.
  \<^item> \<open>Explorer\<close>, \<open>Connections\<close> (\<open>websocket_session\<close>, \<open>shared_state\<close>, \<open>http_session\<close>, \<open>listener\<close>,
    \<open>explorer_handler.h\<close>): sessions deliver in order, HTTP sessions answer in order, the file server
    stays below its root.
  \<^item> \<open>Initiator\<close> (\<open>UnitInitiator.h\<close>, \<open>main.cpp\<close>): the flags, the prover's wallet, and what \<open>main\<close> starts.
  \<^item> \<open>System\<close>: the transition relation \<open>system_step\<close> of the whole program, in which connections, handlers,
    factory, generator and explorer interleave; its runs refine those of the node and of the server;
    every transaction was requested by RPC and every message to a client is genuine.
  \<^item> \<open>Udp\<close>, \<open>Udp_Server\<close>, \<open>Udp_Workers\<close> (\<open>server_library/udp\<close>): the checksum is CRC-32, the linked list is a
    queue (locale \<open>message_queue\<close>), the server delivers what it receives in order, and its worker
    threads, with their lock and condition variable, deliver every message.
  \<^item> \<open>Lazy_Pointer\<close>, \<open>Tasks\<close> (\<open>pointers/lazy_pointer.h\<close>, \<open>concurrency/ThreadPool.h\<close>): two classes that the node
    does not use.

  This theory holds the property that spans the components: in a run of the whole program, a transfer
  that arrives by RPC ends up in a block.

  \<^bold>\<open>Bounds, loops and fuel.\<close> No function has fuel. Loops whose end depends on the input are
  \<open>partial_function (option)\<close>: \<open>buildTree\<close>, which does not end on no leaves; \<open>retry\<close>, which waits for the
  database; \<open>flags_loop\<close>, which a negative mnemonic size drives backwards; \<open>start_server\<close>; and the walks
  along the filter chain. That they return is proved as such. The bounds in the theorems are those of
  the code: fewer than \<open>2^29\<close> bytes for SHA-512, whose length is kept in 32 bits; \<open>2^31\<close> packets for the
  queue, whose counter is an \<open>int\<close>. SHA-256 counts in 64 bits, as its reference does.

  \<^bold>\<open>Steps.\<close> A step is one call on shared state, together with calls whose result no other thread can
  change. One pass of the shard factory is four steps: it copies the pool (\<open>Take\<close>), pushes the shard
  (\<open>Push\<close>), reads the size of the pool (\<open>Measure\<close>) and erases as many transactions (\<open>Drop\<close>). One
  pass of the block generator is two: it looks at the first shard (\<open>Look\<close>), then removes one, builds and
  commits the block (\<open>Produce\<close>); that the block reaches the explorer is a third (\<open>Announce\<close>). The
  handler of an RPC request is two in \<open>System\<close>: it works on the request and announces the transaction,
  then appends it to the pool (\<open>Handled\<close>). In \<open>Node\<close> the generator increments the index of the previous
  block in place before it reads it; nothing reads that block again, as \<open>Builder\<close> shows on the heap.

  \<^bold>\<open>Parameters.\<close> OpenSSL (big numbers, curve points, HMAC, PBKDF2, RIPEMD-160, random bytes), RocksDB,
  Boost.JSON, \<open>uint256_t\<close> and \<open>uint512_t\<close> parsing, the clock, the file system and the system calls are
  arguments, with what the code relies on as named hypotheses (\<open>ossl_ok\<close>, \<open>rocksdb_ok\<close>, \<open>reads_wallet\<close>,
  \<open>malloc_ok\<close> and the laws of \<open>ec_lib\<close>); each property with such a hypothesis has a witness on a concrete
  instance. Memory that the code reads before it writes it is a parameter as well.

  \<^bold>\<open>Not modelled.\<close> Bytes on sockets and Beast's parsers, the creation of threads and their scheduling
  below the steps, and console output belong to the operating system and to Boost. Plain getters are
  the fields of the records. The hexadecimal helpers in \<open>Token.h\<close> and \<open>bip44/Hex.h\<close> repeat those of
  \<open>crypto/Hex.h\<close>, which are modelled. The methods of \<open>unit::unordered_set\<close> that no compiler can
  instantiate, \<open>queue.h\<close> and \<open>StringUtil.cpp\<close> have no behaviour to model; most of \<open>main.cpp\<close>, of \<open>main.c\<close> and
  of \<open>ThreadPool.h\<close> is removed by the preprocessor or commented out. The memory order of the unlocked
  accesses (the copy of the pool, \<open>getPoolSize\<close> of the pending pool, the counter of the UDP queue, the deque of \<open>DBWriter\<close>) is
  taken to be sequential, which C++ does not promise for such a race.
\<close>

section \<open>From a request to a block\<close>


definition node_env_example :: "jval node_env" where
  "node_env_example = env_example \<lparr>e_lib := v_lib rpc_example, e_users := \<lambda>as. Inr (map (\<lambda>_. Some ''account'') as)\<rparr>"

lemma example_batch:
  assumes "tx_from tx = address_example" and "tx_to tx = address_example" and "tx_type tx = 0" and "tx_amount tx = 7"
  shows "\<exists>txss p. setTxBatch (e_lib node_env_example) (e_users node_env_example) (e_history node_env_example) 42 [[tx]] = Inr (txss, p)
    \<and> p_deleted p = []"
proof -
  let ?lib = "v_lib rpc_example"
  have env: "e_lib node_env_example = ?lib" "e_users node_env_example = (\<lambda>as. Inr (map (\<lambda>_. Some ''account'') as))"
    "e_history node_env_example = (\<lambda>_. Inl (StdExn ''none''))" by (simp_all add: node_env_example_def env_example_def)
  have "createPtrWallet ?lib ''account'' = Inr (Some (WalletAccount_stored ?lib address_example 20 (JObj []) 2))"
    by (simp add: createPtrWallet_def parse_ec_def rpc_example_def Let_def jval_lib_def jval_at_def string_at_def u256_at_def)
      (simp add: decimal_u256_def)
  then show ?thesis
    using assms
    by (simp add: env setTxBatch_def shard_batch_def shard_accounts_def note_account_def cache_emplace_def throwing_def process_tx_def
        cache_at_def deref_def TRANSFER_def CREATE_TOKENS_def transfer_def load_history_def debit_sender_def credit_recipient_def record_tx_def
        assign_cell_def subtract_def increase_def WalletAccount_stored_def serializeToJsonTransaction_def signed_text_def empty_proc_def Let_def)
qed

lemma restarted_system:
  "\<exists>s b. system_run ([Thread Look, Thread (Produce env_example), Announce, Rpc (Accepted False)] :: (jval, 'p) system_event list) s
     \<and> sy_conns s = [connection_start]
     \<and> sy_handling s 0 = None \<and> n_pool (sy_node s) = [] \<and> n_factory (sy_node s) = Waiting \<and> n_front (sy_node s) = None \<and> n_shards (sy_node s) = []
     \<and> n_previous (sy_node s) = Some b \<and> bh_index (bl_header b) = 41 \<and> sy_announced s = length (n_explorer (sy_node s))"
proof -
  obtain st b where st: "node_run initial_node [Look, Produce env_example] st" "n_previous st = Some b" "n_shards st = []" "n_front st = None"
    "n_pool st = []" "n_factory st = Waiting" "bh_index (bl_header b) = 41" "length (n_explorer st) = 1"
    using restart_example by blast
  let ?es = "map Thread [Look, Produce env_example] :: (jval, 'p) system_event list" and ?s = "start_system \<lparr>sy_node := st\<rparr>"
  let ?sa = "?s \<lparr>sy_explorer := announce (n_explorer st ! 0) (sy_explorer ?s), sy_announced := 1\<rparr>"
  let ?sc = "?sa \<lparr>sy_conns := [connection_start]\<rparr>"
  have "system_run ?es ?s"
    using threads_run [OF st(1) system_run.start] by (simp add: start_system_def initial_node_def)
  moreover have "system_step ?s Announce ?sa" using system_step.announce [of ?s] st(8) by (simp add: start_system_def)
  ultimately have "system_run (?es @ [Announce]) ?sa" by (rule system_run.step)
  moreover have "system_step ?sa (Rpc (Accepted False)) ?sc"
    using system_step.rpc [of "Accepted False" ?sa] by (simp add: own_event_def server_step_def http_server_def server_view_def start_system_def)
  ultimately have "system_run ((?es @ [Announce]) @ [Rpc (Accepted False)]) ?sc" by (rule system_run.step)
  then show ?thesis using st(2-8) by (intro exI [of _ ?sc]) (simp add: start_system_def)
qed


end
